(* ===== verification/Prelude.thy ===== *)
theory Prelude
  imports Main "HOL-Library.Char_ord" "HOL-Library.List_Lexorder"
    "HOL-Library.Sublist" "HOL-Library.Multiset"
begin

text \<open>
  What every component of the development shares.

  \<^item> Go values: a \<open>string\<close> is a list of bytes (\<^typ>\<open>char\<close> is an 8-bit value, so \<open>len\<close>
    is \<^const>\<open>length\<close> and \<open><\<close> is the byte-wise lexicographic order of \<open>sort.Strings\<close>); an
    instant (\<open>time.Time\<close>) is the number of nanoseconds since the Unix epoch and \<open>UTC()\<close> keeps
    it; a \<open>time.Duration\<close> is a number of nanoseconds; a Go \<open>int\<close> that only counts is an
    unbounded \<^typ>\<open>int\<close>.
  \<^item> Go maps that the code ranges over are association lists (\<open>gomap\<close>): the list order stands
    for the unspecified iteration order. A map that is only indexed is a function with the zero
    value as default.
  \<^item> A call that can fail returns \<open>error + 'a\<close>; a method that changes its receiver returns the
    result and the new receiver.
  \<^item> The collections \<open>state_simps\<close> and \<open>store_simps\<close> carry the component proofs.
\<close>

named_theorems state_simps "the message state machine, unfolded"
named_theorems store_simps "read-over-write laws of the stores"
named_theorems engine_simps "the engine's helpers, unfolded"

section \<open>Time\<close>

type_synonym time = int
type_synonym duration = int

text \<open>\<open>time.Time{}\<close>: midnight UTC of the first of January of year 1.\<close>

definition zero_time :: time where
  "zero_time = - 62135596800000000000"

abbreviation (input) After :: "time \<Rightarrow> time \<Rightarrow> bool" where
  "After t u \<equiv> u < t"

abbreviation (input) IsZero :: "time \<Rightarrow> bool" where
  "IsZero t \<equiv> t = zero_time"

abbreviation (input) nanosecond :: duration where "nanosecond \<equiv> 1"
abbreviation (input) millisecond :: duration where "millisecond \<equiv> 1000000"
abbreviation (input) second :: duration where "second \<equiv> 1000000000"

section \<open>Go maps\<close>

type_synonym ('k, 'v) gomap = "('k \<times> 'v) list"

fun mget :: "('k, 'v) gomap \<Rightarrow> 'k \<Rightarrow> 'v option" where
  "mget [] k = None"
| "mget ((k', v) # m) k = (if k = k' then Some v else mget m k)"

fun mput :: "('k, 'v) gomap \<Rightarrow> 'k \<Rightarrow> 'v \<Rightarrow> ('k, 'v) gomap" where
  "mput [] k v = [(k, v)]"
| "mput ((k', v') # m) k v = (if k = k' then (k, v) # m else (k', v') # mput m k v)"

fun mdel :: "('k, 'v) gomap \<Rightarrow> 'k \<Rightarrow> ('k, 'v) gomap" where
  "mdel [] k = []"
| "mdel ((k', v) # m) k = (if k = k' then mdel m k else (k', v) # mdel m k)"

abbreviation (input) mkeys :: "('k, 'v) gomap \<Rightarrow> 'k list" where
  "mkeys m \<equiv> map fst m"

abbreviation (input) mvals :: "('k, 'v) gomap \<Rightarrow> 'v list" where
  "mvals m \<equiv> map snd m"

text \<open>A well-formed map has one entry per key.\<close>

definition mwf :: "('k, 'v) gomap \<Rightarrow> bool" where
  "mwf m \<longleftrightarrow> distinct (mkeys m)"

lemma mget_map_of: "mget m k = map_of m k"
  by (induction m) auto

lemma mget_mput: "mget (mput m k v) k' = (if k' = k then Some v else mget m k')"
  by (induction m) auto

lemma mget_mdel: "mget (mdel m k) k' = (if k' = k then None else mget m k')"
  by (induction m) auto

lemma mput_keys:
  "mkeys (mput m k v) = (if k \<in> set (mkeys m) then mkeys m else mkeys m @ [k])"
  by (induction m k v rule: mput.induct) auto

lemma mdel_keys: "mkeys (mdel m k) = removeAll k (mkeys m)"
  by (induction m k rule: mdel.induct) auto

lemma mwf_mput: "mwf m \<Longrightarrow> mwf (mput m k v)"
  by (simp add: mwf_def mput_keys del: list.set_map)

lemma mwf_mdel: "mwf m \<Longrightarrow> mwf (mdel m k)"
  by (simp add: mwf_def mdel_keys distinct_removeAll)

lemma mwf_Nil [simp]: "mwf []"
  by (simp add: mwf_def)

text \<open>Indexing a map of slices or of numbers: a missing key reads as the zero value.\<close>

definition mget_or :: "'v \<Rightarrow> ('k, 'v) gomap \<Rightarrow> 'k \<Rightarrow> 'v" where
  "mget_or d m k = (case mget m k of None \<Rightarrow> d | Some v \<Rightarrow> v)"

lemma mget_or_Nil [simp]: "mget_or d [] k = d"
  by (simp add: mget_or_def)

text \<open>The interface the components rely on, and its interpretation on association lists.\<close>

locale go_map =
  fixes get :: "'m \<Rightarrow> 'k \<Rightarrow> 'v option"
    and put :: "'m \<Rightarrow> 'k \<Rightarrow> 'v \<Rightarrow> 'm"
    and del :: "'m \<Rightarrow> 'k \<Rightarrow> 'm"
    and wf :: "'m \<Rightarrow> bool"
  assumes get_put: "get (put m k v) k' = (if k' = k then Some v else get m k')"
    and get_del: "get (del m k) k' = (if k' = k then None else get m k')"
    and wf_put: "wf m \<Longrightarrow> wf (put m k v)"
    and wf_del: "wf m \<Longrightarrow> wf (del m k)"
begin

lemma get_put_same: "get (put m k v) k = Some v"
  by (simp add: get_put)

lemma get_put_other: "k' \<noteq> k \<Longrightarrow> get (put m k v) k' = get m k'"
  by (simp add: get_put)

lemma get_del_same: "get (del m k) k = None"
  by (simp add: get_del)

lemma get_del_foldr:
  "get (fold (\<lambda>k m. del m k) ks m) k' = (if k' \<in> set ks then None else get m k')"
  by (induction ks arbitrary: m) (auto simp: get_del)

lemma wf_del_fold: "wf m \<Longrightarrow> wf (fold (\<lambda>k m. del m k) ks m)"
  by (induction ks arbitrary: m) (auto simp: wf_del)

lemma get_put_fold:
  "k' \<notin> set (map f xs) \<Longrightarrow> get (fold (\<lambda>x m. put m (f x) (g x)) xs m) k' = get m k'"
  by (induction xs arbitrary: m) (auto simp: get_put)

lemma get_put_fold_same:
  "distinct (map f xs) \<Longrightarrow> x \<in> set xs \<Longrightarrow>
    get (fold (\<lambda>x m. put m (f x) (g x)) xs m) (f x) = Some (g x)"
proof (induction xs arbitrary: m)
  case Nil
  then show ?case by simp
next
  case (Cons y ys)
  show ?case
  proof (cases "x = y")
    case True
    with Cons.prems have "f x \<notin> set (map f ys)" by simp
    with True show ?thesis by (simp add: get_put_fold get_put)
  next
    case False
    with Cons show ?thesis by auto
  qed
qed

lemma wf_put_fold: "wf m \<Longrightarrow> wf (fold (\<lambda>x m. put m (f x) (g x)) xs m)"
  by (induction xs arbitrary: m) (auto simp: wf_put)

end

interpretation gm: go_map mget mput mdel mwf
  by unfold_locales (auto simp: mget_mput mget_mdel mwf_mput mwf_mdel)

lemmas gomap_simps [simp] = gm.get_put gm.get_del gm.wf_put gm.wf_del

lemma mget_mvals: "mget m k = Some v \<Longrightarrow> v \<in> set (mvals m)"
  by (force simp: mget_map_of dest: map_of_SomeD)

lemma mwf_mvals_iff: "mwf m \<Longrightarrow> v \<in> set (mvals m) \<longleftrightarrow> (\<exists>k. mget m k = Some v)"
  by (force simp: mget_map_of mwf_def)

lemma mget_in_keys: "mget m k \<noteq> None \<longleftrightarrow> k \<in> set (mkeys m)"
  by (simp add: mget_map_of map_of_eq_None_iff)

lemma mvals_distinct:
  assumes "mwf m" and "\<And>k v. mget m k = Some v \<Longrightarrow> f v = k"
  shows "distinct (map f (mvals m))"
proof -
  have "mget m (fst kv) = Some (snd kv)" if "kv \<in> set m" for kv
    using assms(1) that by (cases kv) (simp add: mget_map_of mwf_def)
  then have "map f (mvals m) = mkeys m" using assms(2) by simp
  with assms(1) show ?thesis unfolding mwf_def by (simp only:)
qed

text \<open>The order in which a map is ranged over does not matter once the result is sorted by a
  key that tells its entries apart.\<close>

lemma sort_key_range_order:
  assumes "mset xs = mset ys" and "inj_on f (set xs)" and "distinct xs"
  shows "sort_key f xs = sort_key f ys"
proof -
  have "set xs = set ys" using assms(1) by (rule mset_eq_setD)
  have d: "distinct (map f (sort_key f xs))" "distinct (map f (sort_key f ys))"
    using assms(2,3) \<open>set xs = set ys\<close> mset_eq_imp_distinct_iff [OF assms(1)]
    by (auto simp: distinct_map)
  have "map f (sort_key f xs) = map f (sort_key f ys)"
    using d assms(1) \<open>set xs = set ys\<close>
    by (intro sorted_distinct_set_unique) auto
  moreover have "inj_on f (set (sort_key f xs) \<union> set (sort_key f ys))"
    using assms(2) \<open>set xs = set ys\<close> by simp
  ultimately show ?thesis by (rule map_inj_on)
qed

section \<open>Invariants of step relations\<close>

inductive reach :: "('s \<Rightarrow> bool) \<Rightarrow> ('s \<Rightarrow> 's \<Rightarrow> bool) \<Rightarrow> 's \<Rightarrow> bool" for init step where
  reach_init: "init s \<Longrightarrow> reach init step s"
| reach_step: "reach init step s \<Longrightarrow> step s t \<Longrightarrow> reach init step t"

locale invariant_system =
  fixes init :: "'s \<Rightarrow> bool"
    and step :: "'s \<Rightarrow> 's \<Rightarrow> bool"
    and inv :: "'s \<Rightarrow> bool"
  assumes inv_init: "init s \<Longrightarrow> inv s"
    and inv_step: "inv s \<Longrightarrow> step s t \<Longrightarrow> inv t"
begin

lemma reach_inv: "reach init step s \<Longrightarrow> inv s"
  by (induction rule: reach.induct) (auto intro: inv_init inv_step)

lemma steps_inv: "step\<^sup>*\<^sup>* s t \<Longrightarrow> inv s \<Longrightarrow> inv t"
  by (induction rule: rtranclp_induct) (auto intro: inv_step)

end

section \<open>Results\<close>

fun map_sum_ok :: "('a \<Rightarrow> 'b) \<Rightarrow> 'e + 'a \<Rightarrow> 'e + 'b" where
  "map_sum_ok f (Inl e) = Inl e"
| "map_sum_ok f (Inr x) = Inr (f x)"

abbreviation (input) is_ok :: "'e + 'a \<Rightarrow> bool" where
  "is_ok r \<equiv> \<not> isl r"

section \<open>Lists\<close>

lemma length_filter_add:
  "length (filter P xs) + length (filter (\<lambda>x. \<not> P x) xs) = length xs"
  by (rule sum_length_filter_compl)

lemma filter_dropWhile_neg:
  "filter (\<lambda>x. \<not> P x) (dropWhile P xs) = filter (\<lambda>x. \<not> P x) xs"
  by (induction xs) auto

lemma length_filter_dropWhile:
  "length (filter P (dropWhile P xs)) = length (filter P xs) - length (takeWhile P xs)"
  by (induction xs) auto

lemma length_takeWhile_le_filter: "length (takeWhile P xs) \<le> length (filter P xs)"
  by (induction xs) auto

lemma distinct_remove1_filter: "distinct xs \<Longrightarrow> remove1 x xs = filter (\<lambda>y. y \<noteq> x) xs"
  by (simp add: distinct_remove1_removeAll removeAll_filter_not_eq) metis

lemma find_append:
  "find P (xs @ ys) = (case find P xs of None \<Rightarrow> find P ys | Some x \<Rightarrow> Some x)"
  by (induction xs) auto

lemma update_rest:
  fixes f :: "'a \<Rightarrow> 'b::comm_monoid_add"
  assumes "i < length xs"
  obtains R where "sum_list (map f xs) = f (xs ! i) + R" "\<And>v. sum_list (map f (xs[i := v])) = f v + R"
proof
  have xs: "xs = take i xs @ xs ! i # drop (Suc i) xs" using assms by (rule id_take_nth_drop)
  show "sum_list (map f xs) = f (xs ! i) + (sum_list (map f (take i xs)) + sum_list (map f (drop (Suc i) xs)))"
    by (subst xs) (simp add: ac_simps)
  show "sum_list (map f (xs[i := v])) =
      f v + (sum_list (map f (take i xs)) + sum_list (map f (drop (Suc i) xs)))" for v
    using assms by (simp add: upd_conv_take_nth_drop ac_simps)
qed

lemma sum_list_replicate_zero:
  "f x = (0::'b::comm_monoid_add) \<Longrightarrow> sum_list (map f (replicate n x)) = 0"
  by (induction n) auto

lemma sum_update_int:
  "i < length xs \<Longrightarrow> sum_list (map f (xs[i := v])) = sum_list (map f xs) + f v - (f (xs ! i) :: int)"
  by (erule update_rest [where f = f]) simp

lemma find_distinct_key: "distinct (map f xs) \<Longrightarrow> x \<in> set xs \<Longrightarrow> find (\<lambda>y. f y = f x) xs = Some x"
  by (induction xs) (auto simp: image_iff)

lemma filter_distinct_key: "distinct (map f xs) \<Longrightarrow> x \<in> set xs \<Longrightarrow> filter (\<lambda>y. f y = f x) xs = [x]"
proof (induction xs)
  case (Cons y ys)
  show ?case
  proof (cases "x = y")
    case True
    then have "filter (\<lambda>z. f z = f x) ys = []" using Cons.prems(1) by (auto simp: filter_empty_conv image_iff)
    with True show ?thesis by simp
  next
    case False
    with Cons show ?thesis by (auto simp: image_iff)
  qed
qed simp

end
