(* ===== verification/MsgState.thy ===== *)
theory MsgState
  imports Prelude
begin

text \<open>
  The message life cycle, \<open>internal/message/state.go\<close>: the states, the transition table and
  its queries. \<open>State\<close> is a Go string type; the datatype has one constructor per declared
  constant and \<open>StateRaw\<close> for any other string.
\<close>

datatype State =
    StateCreated
  | StateQueued
  | StateProcessing
  | StateAcknowledged
  | StateFailed
  | StateRetrying
  | StateDeadLettered
  | StateRaw string

definition allStates :: "State list" where
  "allStates =
    [StateCreated, StateQueued, StateProcessing, StateAcknowledged, StateFailed,
     StateRetrying, StateDeadLettered]"

text \<open>The map \<open>transitions\<close>: \<open>None\<close> is a missing key.\<close>

fun transitions :: "State \<Rightarrow> State list option" where
  "transitions StateCreated = Some [StateQueued, StateFailed]"
| "transitions StateQueued = Some [StateProcessing]"
| "transitions StateProcessing = Some [StateAcknowledged, StateFailed, StateQueued]"
| "transitions StateFailed = Some [StateRetrying, StateDeadLettered]"
| "transitions StateRetrying = Some [StateQueued]"
| "transitions StateAcknowledged = Some []"
| "transitions StateDeadLettered = Some []"
| "transitions (StateRaw s) = None"

definition States :: "State list" where
  "States = allStates"

fun State_String :: "State \<Rightarrow> string" where
  "State_String StateCreated = ''CREATED''"
| "State_String StateQueued = ''QUEUED''"
| "State_String StateProcessing = ''PROCESSING''"
| "State_String StateAcknowledged = ''ACKNOWLEDGED''"
| "State_String StateFailed = ''FAILED''"
| "State_String StateRetrying = ''RETRYING''"
| "State_String StateDeadLettered = ''DEAD_LETTERED''"
| "State_String (StateRaw s) = s"

text \<open>The Go conversion \<open>State(raw)\<close>.\<close>

definition state_of :: "string \<Rightarrow> State" where
  "state_of raw =
    (case find (\<lambda>s. State_String s = raw) allStates of Some s \<Rightarrow> s | None \<Rightarrow> StateRaw raw)"

definition State_Valid :: "State \<Rightarrow> bool" where
  "State_Valid s = (transitions s \<noteq> None)"

definition State_Terminal :: "State \<Rightarrow> bool" where
  "State_Terminal s = (case transitions s of None \<Rightarrow> True | Some ts \<Rightarrow> length ts = 0)"

definition CanTransitionTo :: "State \<Rightarrow> State \<Rightarrow> bool" where
  "CanTransitionTo s next =
    (case transitions s of None \<Rightarrow> False | Some ts \<Rightarrow> list_ex (\<lambda>allowed. allowed = next) ts)"

subsection \<open>The table, unfolded\<close>

lemma State_Valid_iff [state_simps]: "State_Valid s \<longleftrightarrow> s \<in> set allStates"
  by (cases s) (auto simp: State_Valid_def allStates_def)

lemma State_Terminal_simps [simp]:
  "State_Terminal StateAcknowledged" "State_Terminal StateDeadLettered"
  "\<not> State_Terminal StateCreated" "\<not> State_Terminal StateQueued"
  "\<not> State_Terminal StateProcessing" "\<not> State_Terminal StateFailed"
  "\<not> State_Terminal StateRetrying" "State_Terminal (StateRaw s)"
  by (simp_all add: State_Terminal_def)

lemma CanTransitionTo_iff [state_simps]:
  "CanTransitionTo s t \<longleftrightarrow> (s, t) \<in>
    {(StateCreated, StateQueued), (StateCreated, StateFailed), (StateQueued, StateProcessing),
     (StateProcessing, StateAcknowledged), (StateProcessing, StateFailed),
     (StateProcessing, StateQueued), (StateFailed, StateRetrying),
     (StateFailed, StateDeadLettered), (StateRetrying, StateQueued)}"
  by (cases s) (auto simp: CanTransitionTo_def)

lemma Terminal_no_transition: "State_Terminal s \<Longrightarrow> \<not> CanTransitionTo s t"
  by (cases s) (auto simp: CanTransitionTo_def)

lemma CanTransitionTo_valid: "CanTransitionTo s t \<Longrightarrow> State_Valid s \<and> State_Valid t"
  by (auto simp: CanTransitionTo_iff State_Valid_def)

lemma state_of_String: "State_Valid s \<Longrightarrow> state_of (State_String s) = s"
  by (cases s) (simp_all add: state_of_def State_Valid_def allStates_def)

lemma String_state_of: "State_String (state_of raw) = raw"
proof (cases "find (\<lambda>s. State_String s = raw) allStates")
  case None
  then show ?thesis by (simp add: state_of_def)
next
  case (Some s)
  then have "State_String s = raw" by (auto simp: find_Some_iff)
  with Some show ?thesis by (simp add: state_of_def)
qed

subsection \<open>Paths through the life cycle\<close>

inductive life_path :: "State \<Rightarrow> State list \<Rightarrow> bool" where
  life_start: "life_path s []"
| life_step: "CanTransitionTo s t \<Longrightarrow> life_path t ts \<Longrightarrow> life_path s (t # ts)"

inductive_cases life_path_ConsE [elim!]: "life_path s (t # ts)"

inductive_simps life_path_Cons_iff: "life_path s (t # ts)"

lemma life_path_terminal: "State_Terminal s \<Longrightarrow> life_path s ts \<Longrightarrow> ts = []"
  by (cases ts) (auto dest: Terminal_no_transition)

lemma life_path_route:
  "life_path s ts \<longleftrightarrow> (case ts of [] \<Rightarrow> True | t # ts \<Rightarrow> CanTransitionTo s t \<and> life_path t ts)"
  by (cases ts) (auto simp: life_path_Cons_iff intro: life_start)

lemma life_paths:
  "life_path StateProcessing ([] @ [StateAcknowledged])"
  "life_path StateProcessing ([StateFailed] @ [StateDeadLettered])"
  "life_path StateQueued ([StateProcessing] @ [StateAcknowledged])"
  "life_path StateQueued ([StateProcessing, StateFailed] @ [StateDeadLettered])"
  "life_path StateCreated ([StateQueued, StateProcessing] @ [StateAcknowledged])"
  "life_path StateCreated ([StateFailed] @ [StateDeadLettered])"
  "life_path StateRetrying ([StateQueued, StateProcessing] @ [StateAcknowledged])"
  "life_path StateRetrying ([StateQueued, StateProcessing, StateFailed] @ [StateDeadLettered])"
  "life_path StateFailed ([StateRetrying, StateQueued, StateProcessing] @ [StateAcknowledged])"
  "life_path StateFailed ([] @ [StateDeadLettered])"
  by (simp_all add: life_path_route CanTransitionTo_def)



end
