(* ===== verification/GoErrors.thy ===== *)
theory GoErrors
  imports MsgState
begin

text \<open>
  The error values of every package (\<open>internal/broker/errors.go\<close>, \<open>internal/storage/errors.go\<close>,
  the error types of \<open>message\<close>, \<open>schema\<close>, \<open>engine\<close>, \<open>database/sql\<close> and its driver) as one datatype, with the chain
  walks \<open>errors.Is\<close> and \<open>errors.As\<close> as functions over it. A Go panic is the error
  \<open>Panic\<close>.
\<close>

type_synonym Violation = "string \<times> string" \<comment> \<open>\<open>Path\<close>, \<open>Detail\<close>\<close>

text \<open>The reason of a \<open>FieldError\<close>: a literal, or the one that \<open>ParseExchangeKind\<close> formats
  from the rejected string.\<close>

datatype field_reason = Reason string | ReasonKind string

datatype error =
    FieldError string field_reason
  | ErrQueueNotFound | ErrQueueExists | ErrExchangeNotFound | ErrExchangeExists
  | ErrBindingNotFound | ErrMessageNotFound | ErrQueueInUse | ErrUnroutable
  | ErrNotFound | ErrConflict | ErrStoreClosed
  | StateError string State State \<comment> \<open>\<open>MessageID\<close>, \<open>Expected\<close>, \<open>Actual\<close>\<close>
  | InvalidTransitionError State State
  | UnknownStateError State
  | ErrSchemaNotFound string \<comment> \<open>wrapped with the schema's name\<close>
  | ValidationError string "Violation list"
  | ErrConsumerExists | ErrConsumerNotFound | ErrHandlerRequired | ErrNotRunning
  | ErrPoolStopped | ErrPoolSaturated
  | ErrLeaseExpired
  | ErrNoRows \<comment> \<open>\<open>sql.ErrNoRows\<close>\<close>
  | SqliteError int string \<comment> \<open>the driver's error: \<open>Code()\<close> and the text\<close>
  | PermanentError error
  | ErrNew string \<comment> \<open>\<open>errors.New\<close>, or any error of a caller with that text\<close>
  | ErrWrap string error \<comment> \<open>\<open>fmt.Errorf\<close> with \<open>%w\<close>: the prefix and the wrapped error\<close>
  | Panic string

text \<open>\<open>invalid(field, reason)\<close> of \<open>broker/errors.go\<close>.\<close>

definition invalid :: "string \<Rightarrow> string \<Rightarrow> error" where
  "invalid field reason = FieldError field (Reason reason)"

text \<open>\<open>errors.Is\<close> for a sentinel and \<open>errors.As\<close> for \<open>*PermanentError\<close>: both walk the chain of
  wrapped errors.\<close>

fun errors_Is :: "error \<Rightarrow> error \<Rightarrow> bool" where
  "errors_Is (PermanentError e) target = (PermanentError e = target \<or> errors_Is e target)"
| "errors_Is (ErrWrap s e) target = (ErrWrap s e = target \<or> errors_Is e target)"
| "errors_Is e target = (e = target)"

fun isPermanent :: "error \<Rightarrow> bool" where
  "isPermanent (PermanentError e) = True"
| "isPermanent (ErrWrap s e) = isPermanent e"
| "isPermanent e = False"

definition strings_Join :: "string list \<Rightarrow> string \<Rightarrow> string" where
  "strings_Join parts sep =
    (case parts of [] \<Rightarrow> [] | p # ps \<Rightarrow> p @ concat (map (\<lambda>q. sep @ q) ps))"

text \<open>\<open>(*ValidationError).Error\<close> of \<open>schema/violation.go\<close>.\<close>

definition violation_text :: "Violation \<Rightarrow> string" where
  "violation_text v =
    (let (path, detail) = v in if path = [] then detail else path @ '': '' @ detail)"

definition ValidationError_Error :: "string \<Rightarrow> Violation list \<Rightarrow> string" where
  "ValidationError_Error schema vs =
    ''schema '' @ schema @ '' rejected the payload: '' @
    strings_Join (map violation_text vs) ''; ''"

text \<open>\<open>%q\<close> on a string of printable ASCII: quotes and backslashes are escaped.\<close>

definition quoted :: "string \<Rightarrow> string" where
  "quoted s = [CHR 0x22] @
    concat (map (\<lambda>c. if c = CHR 0x22 \<or> c = CHR 0x5C then [CHR 0x5C, c] else [c]) s) @ [CHR 0x22]"

fun reason_text :: "field_reason \<Rightarrow> string" where
  "reason_text (Reason s) = s"
| "reason_text (ReasonKind raw) = ''must be one of direct, fanout, topic, got '' @ quoted raw"

fun error_text :: "error \<Rightarrow> string" where
  "error_text (FieldError f r) = ''broker: invalid '' @ f @ '': '' @ reason_text r"
| "error_text ErrQueueNotFound = ''broker: queue not found''"
| "error_text ErrQueueExists = ''broker: queue already exists''"
| "error_text ErrExchangeNotFound = ''broker: exchange not found''"
| "error_text ErrExchangeExists = ''broker: exchange already exists''"
| "error_text ErrBindingNotFound = ''broker: binding not found''"
| "error_text ErrMessageNotFound = ''broker: message not found''"
| "error_text ErrQueueInUse = ''broker: queue still referenced by a binding''"
| "error_text ErrUnroutable = ''broker: publication matched no queue''"
| "error_text ErrNotFound = ''storage: record not found''"
| "error_text ErrConflict = ''storage: record already exists''"
| "error_text ErrStoreClosed = ''storage: store is closed''"
| "error_text (StateError i ex ac) =
    ''storage: message '' @ i @ '' is '' @ State_String ac @ '', expected '' @ State_String ex"
| "error_text (InvalidTransitionError f t) =
    ''message: invalid state transition '' @ State_String f @ '' -> '' @ State_String t"
| "error_text (UnknownStateError s) = ''message: unknown state '' @ quoted (State_String s)"
| "error_text (ErrSchemaNotFound n) = ''schema: not registered: '' @ n"
| "error_text (ValidationError n vs) = ValidationError_Error n vs"
| "error_text ErrConsumerExists = ''engine: consumer already registered''"
| "error_text ErrConsumerNotFound = ''engine: consumer not found''"
| "error_text ErrHandlerRequired = ''engine: consumer requires a handler''"
| "error_text ErrNotRunning = ''engine: engine is not running''"
| "error_text ErrPoolStopped = ''worker: pool is stopped''"
| "error_text ErrPoolSaturated = ''worker: pool is saturated''"
| "error_text ErrLeaseExpired = ''lease expired before the consumer acknowledged the message''"
| "error_text ErrNoRows = ''sql: no rows in result set''"
| "error_text (SqliteError code s) = s"
| "error_text (PermanentError e) = ''permanent failure: '' @ error_text e"
| "error_text (ErrNew s) = s"
| "error_text (ErrWrap s e) = s @ error_text e"
| "error_text (Panic s) = s"

lemma isPermanent_lease [simp]: "\<not> isPermanent ErrLeaseExpired"
  by simp

lemma errors_Is_refl: "errors_Is e e"
  by (cases e) auto

end
