(* ===== verification/Topic.thy ===== *)
theory Topic
  imports GoErrors
begin

text \<open>
  Topic matching, \<open>internal/broker/topic.go\<close>. \<open>matchSegments\<close> is the table-filling loop of the
  code; \<open>topic_matches\<close> is the specification of a binding pattern (\<open>*\<close> stands for one
  segment, \<open>#\<close> for any number of them), and the theorems show that the loop decides it.
\<close>

definition wildcardSingle :: string where "wildcardSingle = ''*''"
definition wildcardMulti :: string where "wildcardMulti = ''#''"
definition segmentSep :: char where "segmentSep = CHR ''.''"

text \<open>\<open>strings.Split(s, ".")\<close>: always at least one segment.\<close>

fun strings_Split :: "string \<Rightarrow> char \<Rightarrow> string list" where
  "strings_Split [] sep = [[]]"
| "strings_Split (c # cs) sep =
    (if c = sep then [] # strings_Split cs sep
     else (case strings_Split cs sep of
             [] \<Rightarrow> [[c]]
           | seg # segs \<Rightarrow> (c # seg) # segs))"

type_synonym bool_table = "bool list list"

definition cell :: "bool_table \<Rightarrow> nat \<Rightarrow> nat \<Rightarrow> bool" where
  "cell matches i j = matches ! i ! j"

definition set_cell :: "bool_table \<Rightarrow> nat \<Rightarrow> nat \<Rightarrow> bool \<Rightarrow> bool_table" where
  "set_cell matches i j b = matches[i := (matches ! i)[j := b]]"

text \<open>The \<open>switch\<close> of the inner loop.\<close>

definition match_cell :: "string list \<Rightarrow> string list \<Rightarrow> bool_table \<Rightarrow> nat \<Rightarrow> nat \<Rightarrow> bool" where
  "match_cell pattern key matches i j =
    (if pattern ! i = wildcardMulti
     then cell matches (i + 1) j \<or> (j < length key \<and> cell matches i (j + 1))
     else if j = length key then False
     else if pattern ! i = wildcardSingle \<or> pattern ! i = key ! j
     then cell matches (i + 1) (j + 1)
     else False)"

text \<open>The inner loop counts \<open>j\<close> down from \<open>len(key)\<close>, the outer one \<open>i\<close> from
  \<open>len(pattern) - 1\<close>.\<close>

definition match_row :: "string list \<Rightarrow> string list \<Rightarrow> nat \<Rightarrow> bool_table \<Rightarrow> bool_table" where
  "match_row pattern key i matches =
    fold (\<lambda>j matches. set_cell matches i j (match_cell pattern key matches i j))
      (rev [0..<length key + 1]) matches"

definition matchSegments :: "string list \<Rightarrow> string list \<Rightarrow> bool" where
  "matchSegments pattern key =
    (let matches = replicate (length pattern + 1) (replicate (length key + 1) False);
         matches = set_cell matches (length pattern) (length key) True;
         matches = fold (match_row pattern key) (rev [0..<length pattern]) matches
     in cell matches 0 0)"

definition matchTopic :: "string \<Rightarrow> string \<Rightarrow> bool" where
  "matchTopic pattern routingKey =
    (if pattern = wildcardMulti then True
     else matchSegments (strings_Split pattern segmentSep) (strings_Split routingKey segmentSep))"

section \<open>The specification of a pattern\<close>

inductive topic_matches :: "string list \<Rightarrow> string list \<Rightarrow> bool" where
  topic_nil: "topic_matches [] []"
| topic_multi: "topic_matches ps ks \<Longrightarrow> topic_matches (''#'' # ps) (xs @ ks)"
| topic_single: "topic_matches ps ks \<Longrightarrow> topic_matches (''*'' # ps) (k # ks)"
| topic_word: "topic_matches ps ks \<Longrightarrow> topic_matches (k # ps) (k # ks)"

text \<open>The same relation by recursion on the pattern and the key.\<close>

fun seg_match :: "string list \<Rightarrow> string list \<Rightarrow> bool" where
  "seg_match [] ks = (ks = [])"
| "seg_match (p # ps) [] = (p = ''#'' \<and> seg_match ps [])"
| "seg_match (p # ps) (k # ks) =
    (if p = ''#'' then seg_match ps (k # ks) \<or> seg_match (p # ps) ks
     else (p = ''*'' \<or> p = k) \<and> seg_match ps ks)"

lemma seg_match_multi: "seg_match ps ks \<Longrightarrow> seg_match (''#'' # ps) (xs @ ks)"
proof (induction xs)
  case Nil
  then show ?case by (cases ks) auto
next
  case (Cons x xs)
  then show ?case by simp
qed

lemma topic_matches_imp: "topic_matches ps ks \<Longrightarrow> seg_match ps ks"
proof (induction rule: topic_matches.induct)
  case (topic_single ps ks k)
  then show ?case by simp
next
  case (topic_word ps ks k)
  then show ?case using seg_match_multi [of ps ks "[k]"] by auto
qed (auto intro: seg_match_multi)

lemma seg_match_imp: "seg_match ps ks \<Longrightarrow> topic_matches ps ks"
proof (induction ps ks rule: seg_match.induct)
  case (1 ks)
  then show ?case by (auto intro: topic_nil)
next
  case (2 p ps)
  then show ?case using topic_multi [of ps "[]" "[]"] by auto
next
  case (3 p ps k ks)
  show ?case
  proof (cases "p = ''#''")
    case True
    consider "seg_match ps (k # ks)" | "seg_match (p # ps) ks"
      using 3(4) True by (auto split: if_splits)
    then show ?thesis
    proof cases
      case 1
      then show ?thesis using 3(1) True topic_multi [of ps "k # ks" "[]"] by simp
    next
      case 2
      then have "topic_matches (''#'' # ps) ks" using 3(2) True by simp
      then obtain xs ks' where "ks = xs @ ks'" "topic_matches ps ks'"
        by (cases rule: topic_matches.cases) (auto, metis append_Cons append_Nil)
      then show ?thesis using True topic_multi [of ps ks' "k # xs"] by simp
    qed
  next
    case False
    then show ?thesis using 3 by (auto intro: topic_single topic_word split: if_splits)
  qed
qed

lemma topic_matches_iff: "topic_matches ps ks \<longleftrightarrow> seg_match ps ks"
  using topic_matches_imp seg_match_imp by blast

section \<open>The table-filling loop decides the specification\<close>

definition table_ok :: "string list \<Rightarrow> string list \<Rightarrow> bool_table \<Rightarrow> bool" where
  "table_ok pattern key matches \<longleftrightarrow>
    length matches = length pattern + 1 \<and> (\<forall>row\<in>set matches. length row = length key + 1)"

definition cell_ok :: "string list \<Rightarrow> string list \<Rightarrow> bool_table \<Rightarrow> nat \<Rightarrow> nat \<Rightarrow> bool" where
  "cell_ok pattern key matches i j \<longleftrightarrow>
    cell matches i j = seg_match (drop i pattern) (drop j key)"

lemma table_ok_set_cell: "table_ok P K M \<Longrightarrow> i \<le> length P \<Longrightarrow> table_ok P K (set_cell M i j b)"
  by (auto simp: table_ok_def set_cell_def dest!: set_update_subset_insert [THEN subsetD])

lemma cell_set_cell:
  assumes "table_ok P K M" "i \<le> length P" "j \<le> length K"
  shows "cell (set_cell M i j b) i' j' = (if i' = i \<and> j' = j then b else cell M i' j')"
proof -
  have "length (M ! i) = length K + 1" using assms by (simp add: table_ok_def)
  with assms show ?thesis
    by (auto simp: cell_def set_cell_def table_ok_def nth_list_update)
qed

lemma match_cell_ok:
  assumes "i < length P" "j \<le> length K"
    and below: "\<forall>j\<le>length K. cell_ok P K M (Suc i) j"
    and right: "j < length K \<Longrightarrow> cell_ok P K M i (Suc j)"
  shows "match_cell P K M i j = seg_match (drop i P) (drop j K)"
proof (cases "j = length K")
  case True
  with assms show ?thesis
    by (simp add: match_cell_def cell_ok_def wildcardMulti_def flip: Cons_nth_drop_Suc)
next
  case False
  with assms have "j < length K" by simp
  with assms show ?thesis
    by (simp add: match_cell_def cell_ok_def wildcardMulti_def wildcardSingle_def
        flip: Cons_nth_drop_Suc)
qed

lemma match_row_loop:
  assumes "t \<le> length K + 1" "i < length P" "table_ok P K M"
    and "\<forall>j\<le>length K. cell_ok P K M (Suc i) j"
    and "\<forall>j\<le>length K. t \<le> j \<longrightarrow> cell_ok P K M i j"
  defines "M' \<equiv> fold (\<lambda>j M. set_cell M i j (match_cell P K M i j)) (rev [0..<t]) M"
  shows "table_ok P K M' \<and> (\<forall>i' j. i' \<noteq> i \<longrightarrow> cell M' i' j = cell M i' j) \<and>
    (\<forall>j\<le>length K. cell_ok P K M' i j)"
  using assms(1,3-5) unfolding M'_def
proof (induction t arbitrary: M)
  case 0
  then show ?case by simp
next
  case (Suc t)
  let ?M = "set_cell M i t (match_cell P K M i t)"
  have t: "t \<le> length K" using Suc.prems(1) by simp
  have ok: "table_ok P K ?M" using Suc.prems(2) assms(2) by (simp add: table_ok_set_cell)
  have cells: "cell ?M i' j' =
      (if i' = i \<and> j' = t then seg_match (drop i P) (drop t K) else cell M i' j')" for i' j'
    using Suc.prems t assms(2) match_cell_ok [of i P t K M] cell_set_cell [of P K M i t]
    by simp
  have *: "\<forall>j\<le>length K. cell_ok P K ?M (Suc i) j" "\<forall>j\<le>length K. t \<le> j \<longrightarrow> cell_ok P K ?M i j"
    using Suc.prems(3,4) by (auto simp: cell_ok_def cells)
  show ?case
    using Suc.IH [OF _ ok *] t by (auto simp: cells)
qed

lemma match_rows_loop:
  assumes "t \<le> length P" "table_ok P K M"
    and "\<forall>i\<le>length P. t \<le> i \<longrightarrow> (\<forall>j\<le>length K. cell_ok P K M i j)"
  shows "\<forall>i\<le>length P. \<forall>j\<le>length K.
    cell_ok P K (fold (match_row P K) (rev [0..<t]) M) i j"
  using assms
proof (induction t arbitrary: M)
  case 0
  then show ?case by simp
next
  case (Suc t)
  have t: "t < length P" using Suc.prems(1) by simp
  let ?M = "match_row P K t M"
  have "\<forall>j\<le>length K. cell_ok P K M (Suc t) j" using Suc.prems t by simp
  then have row: "table_ok P K ?M" "\<And>i' j. i' \<noteq> t \<Longrightarrow> cell ?M i' j = cell M i' j"
      "\<forall>j\<le>length K. cell_ok P K ?M t j"
    using match_row_loop [of "length K + 1" K t P M] Suc.prems(2) t
    unfolding match_row_def by auto
  have "cell_ok P K ?M i j" if "i \<le> length P" "t \<le> i" "j \<le> length K" for i j
  proof (cases "i = t")
    case True
    with row(3) that show ?thesis by simp
  next
    case False
    with row(2) Suc.prems(3) that show ?thesis by (simp add: cell_ok_def)
  qed
  then show ?case using Suc.IH [OF _ row(1)] t by simp
qed

lemma matchSegments_seg_match: "matchSegments P K = seg_match P K"
proof -
  let ?T = "replicate (length P + 1) (replicate (length K + 1) False)"
  let ?M = "set_cell ?T (length P) (length K) True"
  have ok0: "table_ok P K ?T" by (simp add: table_ok_def)
  then have ok: "table_ok P K ?M" by (rule table_ok_set_cell) simp
  have "cell_ok P K ?M (length P) j" if "j \<le> length K" for j
  proof -
    have "cell ?T (length P) j = False" using that by (simp add: cell_def del: replicate_Suc)
    then have "cell ?M (length P) j \<longleftrightarrow> j = length K"
      by (subst cell_set_cell [OF ok0]) auto
    with that show ?thesis by (auto simp: cell_ok_def)
  qed
  then have "cell_ok P K (fold (match_row P K) (rev [0..<length P]) ?M) 0 0"
    using match_rows_loop [of "length P" P K ?M] ok by (simp add: le_antisym)
  then show ?thesis by (simp add: matchSegments_def cell_ok_def)
qed

section \<open>Segments\<close>

lemma Split_not_Nil [simp]: "strings_Split s sep \<noteq> []"
  by (cases s) (auto split: list.splits)

lemma Split_no_sep: "seg \<in> set (strings_Split s sep) \<Longrightarrow> sep \<notin> set seg"
  by (induction s arbitrary: seg) (auto split: if_splits list.splits)

lemma Join_Split: "strings_Join (strings_Split s sep) [sep] = s"
proof (induction s)
  case Nil
  then show ?case by (simp add: strings_Join_def)
next
  case (Cons c cs)
  then show ?case
    by (cases "strings_Split cs sep") (auto simp: strings_Join_def split: list.splits)
qed

lemma Split_inject: "strings_Split s sep = strings_Split t sep \<longleftrightarrow> s = t"
  by (metis Join_Split)

lemma Split_hash: "strings_Split ''#'' segmentSep = [''#'']"
  by (simp add: segmentSep_def)

text \<open>The early return for the lone \<open>#\<close> agrees with the general loop.\<close>

lemma matchTopic_seg_match:
  "matchTopic pattern rk =
    seg_match (strings_Split pattern segmentSep) (strings_Split rk segmentSep)"
proof (cases "pattern = ''#''")
  case True
  have "seg_match [''#''] ks" for ks by (induction ks) auto
  with True show ?thesis
    unfolding True Split_hash by (simp add: matchTopic_def wildcardMulti_def)
next
  case False
  then show ?thesis by (simp add: matchTopic_def wildcardMulti_def matchSegments_seg_match)
qed

lemma seg_match_literal:
  "''*'' \<notin> set ps \<Longrightarrow> ''#'' \<notin> set ps \<Longrightarrow> seg_match ps ks \<longleftrightarrow> ps = ks"
  by (induction ps ks rule: seg_match.induct) auto

section \<open>Properties\<close>

text \<open>C30: A binding pattern on a topic exchange matches a routing key exactly when the key's
  dot-separated segments can be read off the pattern: \<open>*\<close> takes one segment, \<open>#\<close> takes any
  number of segments (also none), any other segment takes itself.\<close>

theorem matchTopic_correct:
  "matchTopic pattern rk \<longleftrightarrow>
    topic_matches (strings_Split pattern segmentSep) (strings_Split rk segmentSep)"
  by (simp add: matchTopic_seg_match topic_matches_iff)

text \<open>A pattern without a wildcard segment binds a topic exchange as a direct exchange would:
  it matches exactly the routing key equal to it.\<close>

lemma matchTopic_literal:
  assumes "''*'' \<notin> set (strings_Split pattern segmentSep)"
    and "''#'' \<notin> set (strings_Split pattern segmentSep)"
  shows "matchTopic pattern rk \<longleftrightarrow> pattern = rk"
  using assms by (simp add: matchTopic_seg_match seg_match_literal Split_inject)

end
