(* ===== verification/MsgModel.thy ===== *)
theory MsgModel
  imports GoErrors "HOL-Library.Word"
begin

text \<open>
  The message model, \<open>internal/message/message.go\<close>, and the identifiers of
  \<open>internal/message/id.go\<close>: the record, its constructor \<open>New\<close>, the guarded state change
  \<open>Transition\<close>, and the time-prefixed hexadecimal identifiers with their reader \<open>TimestampOf\<close>.
\<close>

section \<open>Identifiers\<close>

type_synonym byte = "8 word"

definition timestampBytes :: nat where "timestampBytes = 6"
definition randomBytes :: nat where "randomBytes = 10"
definition idBytes :: nat where "idBytes = timestampBytes + randomBytes"

text \<open>\<open>t.UnixMilli()\<close> and \<open>t.UnixNano()\<close>.\<close>

definition UnixMilli :: "time \<Rightarrow> int" where
  "UnixMilli t = t div 1000000"

definition UnixNano :: "time \<Rightarrow> int" where
  "UnixNano t = t"

text \<open>\<open>binary.BigEndian.PutUint64\<close> and \<open>Uint64\<close> on eight bytes.\<close>

definition PutUint64 :: "64 word \<Rightarrow> byte list" where
  "PutUint64 v = map (\<lambda>i. ucast (drop_bit (56 - 8 * i) v)) [0..<8]"

definition Uint64 :: "byte list \<Rightarrow> 64 word" where
  "Uint64 bs = word_of_nat (foldl (\<lambda>acc b. acc * 256 + unat b) 0 bs)"

text \<open>\<open>encoding/hex\<close>: lower-case digits on the way out, both cases on the way in.\<close>

definition hex_digit :: "nat \<Rightarrow> char" where
  "hex_digit n = (if n < 10 then char_of (48 + n) else char_of (87 + n))"

definition EncodeToString :: "byte list \<Rightarrow> string" where
  "EncodeToString bs =
    concat (map (\<lambda>b. [hex_digit (unat b div 16), hex_digit (unat b mod 16)]) bs)"

definition from_hex_char :: "char \<Rightarrow> nat option" where
  "from_hex_char c = (let n = (of_char c :: nat) in
     if 48 \<le> n \<and> n \<le> 57 then Some (n - 48)
     else if 97 \<le> n \<and> n \<le> 102 then Some (n - 87)
     else if 65 \<le> n \<and> n \<le> 70 then Some (n - 55)
     else None)"

fun DecodeString :: "string \<Rightarrow> byte list option" where
  "DecodeString [] = Some []"
| "DecodeString [c] = None"
| "DecodeString (c # d # cs) =
    (case (from_hex_char c, from_hex_char d) of
       (Some h, Some l) \<Rightarrow> map_option (\<lambda>bs. word_of_nat (h * 16 + l) # bs) (DecodeString cs)
     | _ \<Rightarrow> None)"

text \<open>
  \<open>newIDAt\<close>. The entropy source is the bytes it delivers before it fails: \<open>io.ReadFull\<close> copies
  what there is into \<open>raw[6:]\<close> and fails when fewer than ten bytes come, in which case the eight
  bytes of the nanosecond clock overwrite the start of that part.
\<close>

definition newIDAt :: "time \<Rightarrow> byte list \<Rightarrow> string" where
  "newIDAt t entropy =
    (let stamp = PutUint64 (word_of_int (UnixMilli t));
         raw_time = drop (8 - timestampBytes) stamp;
         got = take randomBytes entropy;
         tail = got @ replicate (randomBytes - length got) 0;
         raw_random = (if length got = randomBytes then tail
                       else PutUint64 (word_of_int (UnixNano t)) @ drop 8 tail)
     in EncodeToString (raw_time @ raw_random))"

definition TimestampOf :: "string \<Rightarrow> time option" where
  "TimestampOf mid =
    (case DecodeString mid of
       None \<Rightarrow> None
     | Some raw \<Rightarrow>
         if length raw \<noteq> idBytes then None
         else Some (sint (Uint64 (replicate (8 - timestampBytes) 0 @ take timestampBytes raw))
                    * 1000000))"

section \<open>Messages\<close>

definition ParseState :: "string \<Rightarrow> error + State" where
  "ParseState raw =
    (let s = state_of raw in if State_Valid s then Inr s else Inl (UnknownStateError s))"

type_synonym Headers = "(string, string) gomap"

record Publication =
  pub_Exchange :: string
  pub_RoutingKey :: string
  pub_Payload :: string
  pub_Headers :: Headers
  pub_Schema :: string

record Message =
  msg_ID :: string
  msg_Exchange :: string
  msg_RoutingKey :: string
  msg_Queue :: string
  msg_Schema :: string
  msg_Payload :: string
  msg_Headers :: Headers
  msg_State :: State
  msg_Attempts :: int
  msg_MaxAttempts :: int
  msg_LastError :: string
  msg_CreatedAt :: time
  msg_UpdatedAt :: time
  msg_AvailableAt :: time

text \<open>\<open>message.New\<close>; the bytes are what the entropy source delivers for this identifier.\<close>

definition message_New :: "Publication \<Rightarrow> string \<Rightarrow> time \<Rightarrow> byte list \<Rightarrow> Message" where
  "message_New pub queue now entropy =
    \<lparr> msg_ID = newIDAt now entropy,
      msg_Exchange = pub_Exchange pub,
      msg_RoutingKey = pub_RoutingKey pub,
      msg_Queue = queue,
      msg_Schema = pub_Schema pub,
      msg_Payload = pub_Payload pub,
      msg_Headers = pub_Headers pub,
      msg_State = StateCreated,
      msg_Attempts = 0,
      msg_MaxAttempts = 0,
      msg_LastError = [],
      msg_CreatedAt = now,
      msg_UpdatedAt = now,
      msg_AvailableAt = now \<rparr>"

definition Transition :: "Message \<Rightarrow> State \<Rightarrow> time \<Rightarrow> error + Message" where
  "Transition m next now =
    (if \<not> State_Valid next then Inl (UnknownStateError next)
     else if \<not> CanTransitionTo (msg_State m) next
     then Inl (InvalidTransitionError (msg_State m) next)
     else Inr (m\<lparr>msg_State := next, msg_UpdatedAt := now\<rparr>))"

definition Exhausted :: "Message \<Rightarrow> bool" where
  "Exhausted m = (msg_MaxAttempts m > 0 \<and> msg_Attempts m \<ge> msg_MaxAttempts m)"

text \<open>\<open>Clone\<close> copies the record, its payload and its headers; a nil receiver stays nil.\<close>

definition Clone :: "Message option \<Rightarrow> Message option" where
  "Clone m = (case m of None \<Rightarrow> None
     | Some m \<Rightarrow> Some (m\<lparr>msg_Payload := [] @ msg_Payload m,
                           msg_Headers := msg_Headers m\<rparr>))"

definition Header :: "Message \<Rightarrow> string \<Rightarrow> string option" where
  "Header m key = mget (msg_Headers m) key"

definition SetHeader :: "Message \<Rightarrow> string \<Rightarrow> string \<Rightarrow> Message" where
  "SetHeader m key val = m\<lparr>msg_Headers := mput (msg_Headers m) key val\<rparr>"

subsection \<open>State changes\<close>

lemma Transition_Inr_iff:
  "Transition m next now = Inr m' \<longleftrightarrow>
    CanTransitionTo (msg_State m) next \<and> m' = m\<lparr>msg_State := next, msg_UpdatedAt := now\<rparr>"
  by (auto simp: Transition_def dest: CanTransitionTo_valid)

lemma Transition_simps [simp]:
  "msg_State m = StateCreated \<Longrightarrow>
    Transition m StateQueued now = Inr (m\<lparr>msg_State := StateQueued, msg_UpdatedAt := now\<rparr>)"
  "msg_State m = StateCreated \<Longrightarrow>
    Transition m StateFailed now = Inr (m\<lparr>msg_State := StateFailed, msg_UpdatedAt := now\<rparr>)"
  "msg_State m = StateQueued \<Longrightarrow>
    Transition m StateProcessing now = Inr (m\<lparr>msg_State := StateProcessing, msg_UpdatedAt := now\<rparr>)"
  "msg_State m = StateRetrying \<Longrightarrow>
    Transition m StateQueued now = Inr (m\<lparr>msg_State := StateQueued, msg_UpdatedAt := now\<rparr>)"
  "msg_State m = StateProcessing \<Longrightarrow>
    Transition m StateAcknowledged now = Inr (m\<lparr>msg_State := StateAcknowledged, msg_UpdatedAt := now\<rparr>)"
  "msg_State m = StateProcessing \<Longrightarrow>
    Transition m StateFailed now = Inr (m\<lparr>msg_State := StateFailed, msg_UpdatedAt := now\<rparr>)"
  "msg_State m = StateProcessing \<Longrightarrow>
    Transition m StateQueued now = Inr (m\<lparr>msg_State := StateQueued, msg_UpdatedAt := now\<rparr>)"
  "msg_State m = StateFailed \<Longrightarrow>
    Transition m StateRetrying now = Inr (m\<lparr>msg_State := StateRetrying, msg_UpdatedAt := now\<rparr>)"
  "msg_State m = StateFailed \<Longrightarrow>
    Transition m StateDeadLettered now = Inr (m\<lparr>msg_State := StateDeadLettered, msg_UpdatedAt := now\<rparr>)"
  by (simp_all add: Transition_Inr_iff CanTransitionTo_iff)

lemma Clone_id [simp]: "Clone m = m"
  by (cases m) (simp_all add: Clone_def)

lemma Header_SetHeader: "Header (SetHeader m k v) k' = (if k' = k then Some v else Header m k')"
  by (simp add: Header_def SetHeader_def)

subsection \<open>Identifiers: the timestamp comes back, and identifiers sort by time\<close>

definition be_digits :: "nat \<Rightarrow> nat \<Rightarrow> nat list" where
  "be_digits k n = map (\<lambda>i. n div 256 ^ (k - 1 - i) mod 256) [0..<k]"

lemma be_digits_Suc: "be_digits (Suc k) n = be_digits k (n div 256) @ [n mod 256]"
proof -
  have "n div 256 ^ (k - i) = n div 256 div 256 ^ (k - 1 - i)" if "i < k" for i
  proof -
    from that have "k - i = Suc (k - 1 - i)" by simp
    then show ?thesis by (simp add: div_mult2_eq)
  qed
  then show ?thesis by (simp add: be_digits_def)
qed

lemma foldl_be_digits:
  "foldl (\<lambda>acc b. acc * 256 + b) 0 (be_digits k n) = n mod 256 ^ k"
proof (induction k arbitrary: n)
  case 0
  then show ?case by (simp add: be_digits_def)
next
  case (Suc k)
  have "n mod 256 ^ Suc k = n div 256 mod 256 ^ k * 256 + n mod 256"
    by (simp add: mod_mult2_eq)
  with Suc show ?case by (simp add: be_digits_Suc)
qed

lemma PutUint64_digits: "map unat (PutUint64 v) = be_digits 8 (unat v)"
proof -
  have "unat (ucast (drop_bit (56 - 8 * i) v) :: byte) = unat v div 256 ^ (7 - i) mod 256"
    if "i < 8" for i
  proof -
    have "(256::nat) ^ (7 - i) = 2 ^ (56 - 8 * i)"
    proof -
      have "(256::nat) ^ (7 - i) = (2 ^ 8) ^ (7 - i)" by simp
      also have "\<dots> = 2 ^ (8 * (7 - i))" by (simp only: power_mult)
      also have "8 * (7 - i) = 56 - 8 * i" by simp
      finally show ?thesis .
    qed
    moreover have "unat (drop_bit (56 - 8 * i) v) = unat v div 2 ^ (56 - 8 * i)"
      by (simp only: unat_drop_bit_eq) (simp add: drop_bit_eq_div)
    ultimately show ?thesis
      by (simp add: unsigned_ucast_eq take_bit_eq_mod)
  qed
  then show ?thesis by (simp add: PutUint64_def be_digits_def comp_def)
qed

lemma drop_be_digits: "j \<le> k \<Longrightarrow> drop j (be_digits k n) = be_digits (k - j) n"
  by (rule nth_equalityI) (auto simp: be_digits_def)

lemma stamp_digits:
  "map unat (drop 2 (PutUint64 v)) = be_digits 6 (unat v)"
  by (simp add: drop_map [symmetric] PutUint64_digits drop_be_digits)

lemma Uint64_eq: "Uint64 bs = word_of_nat (foldl (\<lambda>acc b. acc * 256 + b) 0 (map unat bs))"
  by (simp add: Uint64_def foldl_map)

lemma hex_round [simp]: "n < 16 \<Longrightarrow> from_hex_char (hex_digit n) = Some n"
  by (auto simp: from_hex_char_def hex_digit_def Let_def)

lemma Decode_Encode: "DecodeString (EncodeToString bs) = Some bs"
proof (induction bs)
  case Nil
  then show ?case by (simp add: EncodeToString_def)
next
  case (Cons b bs)
  have "unat b < 256" using unsigned_less [of b, where 'a = nat] by simp
  then have "unat b div 16 < 16" by simp
  with Cons show ?case by (simp add: EncodeToString_def)
qed

lemma length_be_digits [simp]: "length (be_digits k n) = k"
  by (simp add: be_digits_def)

lemma foldl_replicate0: "foldl (\<lambda>acc b. acc * 256 + b) (0::nat) (replicate n 0) = 0"
  by (induction n) auto

lemma unat_milli:
  "0 \<le> w \<Longrightarrow> UnixMilli w < 2 ^ 48 \<Longrightarrow>
    unat (word_of_int (UnixMilli w) :: 64 word) = nat (UnixMilli w)"
  by (simp add: unat_eq_nat_uint uint_word_of_int UnixMilli_def)

lemma newIDAt_split:
  "\<exists>r. length r = 10 \<and>
    newIDAt t e = EncodeToString (drop 2 (PutUint64 (word_of_int (UnixMilli t))) @ r)"
proof -
  let ?tail = "take 10 e @ replicate (10 - length (take 10 e)) 0 :: byte list"
  let ?r = "if length (take 10 e) = 10 then ?tail
    else PutUint64 (word_of_int (UnixNano t)) @ drop 8 ?tail"
  have "length ?r = 10" by (auto simp: PutUint64_def min_def)
  moreover have "newIDAt t e =
      EncodeToString (drop 2 (PutUint64 (word_of_int (UnixMilli t))) @ ?r)"
    by (simp add: newIDAt_def Let_def timestampBytes_def randomBytes_def)
  ultimately show ?thesis by blast
qed

lemma TimestampOf_newIDAt:
  assumes "0 \<le> t" and "UnixMilli t < 2 ^ 48"
  shows "TimestampOf (newIDAt t e) = Some (t - t mod 1000000)"
proof -
  let ?v = "word_of_int (UnixMilli t) :: 64 word"
  obtain r where r: "newIDAt t e = EncodeToString (drop 2 (PutUint64 ?v) @ r)" "length r = 10"
    using newIDAt_split by blast
  have v: "unat ?v = nat (UnixMilli t)"
    using assms by (rule unat_milli)
  have l6: "length (drop 2 (PutUint64 ?v)) = 6" by (simp add: PutUint64_def)
  have "Uint64 (replicate 2 0 @ drop 2 (PutUint64 ?v)) = word_of_nat (unat ?v mod 256 ^ 6)"
    by (simp add: Uint64_eq stamp_digits foldl_be_digits foldl_replicate0)
  also have "unat ?v mod 256 ^ 6 = unat ?v"
  proof -
    have "0 \<le> UnixMilli t" using assms(1) by (simp add: UnixMilli_def)
    with assms(2) show ?thesis by (simp add: v nat_less_iff)
  qed
  also have "word_of_nat (unat ?v) = ?v"
    by simp
  finally have u: "Uint64 (replicate 2 0 @ drop 2 (PutUint64 ?v)) = ?v" .
  have "sint ?v = UnixMilli t"
    using assms by (simp add: UnixMilli_def signed_of_int signed_take_bit_int_eq_self)
  then show ?thesis
    using l6 r u
    by (simp add: TimestampOf_def Decode_Encode idBytes_def timestampBytes_def randomBytes_def
        UnixMilli_def minus_mod_eq_div_mult)
qed

lemma foldl_base:
  "foldl (\<lambda>acc b. acc * 256 + b) (a::nat) xs =
    a * 256 ^ length xs + foldl (\<lambda>acc b. acc * 256 + b) 0 xs"
proof (induction xs arbitrary: a)
  case Nil
  then show ?case by simp
next
  case (Cons x xs)
  show ?case
    using Cons [of "a * 256 + x"] Cons [of x] by (simp add: algebra_simps)
qed

lemma foldl_bound:
  "\<forall>d\<in>set xs. d < 256 \<Longrightarrow> foldl (\<lambda>acc b. acc * 256 + b) (0::nat) xs < 256 ^ length xs"
proof (induction xs)
  case Nil
  then show ?case by simp
next
  case (Cons x xs)
  let ?v = "foldl (\<lambda>acc b. acc * 256 + b) (0::nat) xs" and ?B = "256 ^ length xs"
  have "?v < ?B" and "x + 1 \<le> 256" using Cons by auto
  have "x * ?B + ?v < (x + 1) * ?B" using \<open>?v < ?B\<close> by simp
  also have "\<dots> \<le> 256 * ?B" using \<open>x + 1 \<le> 256\<close> by (rule mult_le_mono1)
  finally show ?case using foldl_base [of x xs] by simp
qed

lemma value_less_lex:
  "length xs = length ys \<Longrightarrow> \<forall>d\<in>set xs \<union> set ys. d < 256 \<Longrightarrow>
    foldl (\<lambda>acc b. acc * 256 + b) 0 xs < foldl (\<lambda>acc b. acc * 256 + b) 0 ys \<Longrightarrow>
    (xs :: nat list) < ys"
proof (induction xs ys rule: list_induct2)
  case Nil
  then show ?case by simp
next
  case (Cons x xs y ys)
  let ?v = "foldl (\<lambda>acc b. acc * 256 + b) (0::nat)" and ?B = "256 ^ length xs"
  have less: "x * ?B + ?v xs < y * ?B + ?v ys"
    using Cons.prems(2) Cons.hyps foldl_base [of x xs] foldl_base [of y ys] by simp
  have "?v ys < ?B" using Cons.prems(1) Cons.hyps foldl_bound [of ys] by simp
  show ?case
  proof (cases x y rule: linorder_cases)
    case greater
    then have "(y + 1) * ?B \<le> x * ?B" by (intro mult_le_mono1) simp
    with less \<open>?v ys < ?B\<close> show ?thesis by (simp add: algebra_simps)
  qed (use less Cons in auto)
qed

lemma hex_digit_less: "a < b \<Longrightarrow> b < 16 \<Longrightarrow> hex_digit a < hex_digit b"
  by (auto simp: hex_digit_def less_char_def)

lemma Encode_less:
  assumes "length xs = length ys" and "map unat xs < map unat ys"
  shows "EncodeToString (xs @ r) < EncodeToString (ys @ r')"
  using assms
proof (induction xs ys rule: list_induct2)
  case Nil
  then show ?case by simp
next
  case (Cons x xs y ys)
  have b: "unat y < 256" for y :: byte
    using unsigned_less [of y, where 'a = nat] by simp
  show ?case
  proof (cases "unat x < unat y")
    case True
    then have "unat x div 16 < unat y div 16 \<or>
      unat x div 16 = unat y div 16 \<and> unat x mod 16 < unat y mod 16"
      using div_le_mono [of "unat x" "unat y" 16]
      by (metis add_less_cancel_left div_mult_mod_eq le_neq_implies_less less_imp_le_nat)
    moreover have "unat y div 16 < 16" using b [of y] by simp
    ultimately show ?thesis
      by (auto simp: EncodeToString_def intro!: hex_digit_less)
  next
    case False
    with Cons.prems have "x = y" and "map unat xs < map unat ys"
      by (auto simp: word_unat_eq_iff)
    with Cons.IH show ?thesis by (simp add: EncodeToString_def)
  qed
qed

lemma newIDAt_sorted:
  assumes "0 \<le> t" and "UnixMilli t < UnixMilli u" and "UnixMilli u < 2 ^ 48"
  shows "newIDAt t e < newIDAt u e'"
proof -
  have "0 \<le> u" using assms(1,2) by (simp add: UnixMilli_def)
  let ?d = "\<lambda>w. drop 2 (PutUint64 (word_of_int (UnixMilli w)))"
  have digs: "\<forall>d\<in>set (be_digits k n). d < 256" for k n by (auto simp: be_digits_def)
  have "map unat (?d t) < map unat (?d u)"
    unfolding stamp_digits
  proof (rule value_less_lex)
    have "0 \<le> UnixMilli t" using assms(1) by (simp add: UnixMilli_def)
    then show "foldl (\<lambda>acc b. acc * 256 + b) 0 (be_digits 6 (unat (word_of_int (UnixMilli t) :: 64 word)))
      < foldl (\<lambda>acc b. acc * 256 + b) 0 (be_digits 6 (unat (word_of_int (UnixMilli u) :: 64 word)))"
      using assms \<open>0 \<le> u\<close> by (simp add: foldl_be_digits unat_milli nat_less_iff)
  qed (use digs in auto)
  then show ?thesis
    using newIDAt_split [of t e] newIDAt_split [of u e']
    by (auto intro!: Encode_less simp: PutUint64_def)
qed

section \<open>Properties\<close>

text \<open>The creation time can be read back from an identifier: for every time from 1970 until the
  48-bit millisecond counter ends (in the year 10889), and whatever the random part, \<open>TimestampOf\<close> of a new
  identifier is that time, cut to the millisecond.\<close>

lemma ID_timestamp_roundtrip:
  assumes "0 \<le> t" and "UnixMilli t < 2 ^ 48"
  shows "TimestampOf (newIDAt t e) = Some (t - t mod 1000000)"
  by (rule TimestampOf_newIDAt [OF assms])

text \<open>C35: identifiers sort by creation time: of two messages created in different milliseconds the
  earlier one has the smaller identifier, byte by byte, so sorting by identifier is sorting by age.\<close>

theorem ID_order:
  assumes "0 \<le> t" and "UnixMilli t < UnixMilli u" and "UnixMilli u < 2 ^ 48"
  shows "newIDAt t e < newIDAt u e'"
  by (rule newIDAt_sorted [OF assms])

theorem ID_order_witness: "newIDAt 255000000 [] < newIDAt 256000000 []"
  using ID_order [of 255000000 256000000 "[]" "[]"] by (simp add: UnixMilli_def)

end
