(* ===== verification/Broker.thy ===== *)
theory Broker
  imports Topic MsgModel
begin

text \<open>
  The topology, \<open>internal/broker\<close>: exchange, queue and binding declarations with their
  validation (\<open>exchange.go\<close>, \<open>queue.go\<close>, \<open>binding.go\<close>), the routing table (\<open>routing.go\<close>) and
  the registry over it (\<open>broker.go\<close>). Every registry method holds the registry's lock from its
  first access to its last, so a method is one step. The registry's clock is the argument
  \<open>now\<close>. Validation returns the error, if any.
\<close>

section \<open>Declarations\<close>

text \<open>\<open>ExchangeKind\<close> is a Go string type with three declared constants.\<close>

type_synonym ExchangeKind = string

abbreviation ExchangeDirect :: ExchangeKind where "ExchangeDirect \<equiv> ''direct''"
abbreviation ExchangeFanout :: ExchangeKind where "ExchangeFanout \<equiv> ''fanout''"
abbreviation ExchangeTopic :: ExchangeKind where "ExchangeTopic \<equiv> ''topic''"

definition exchangeKinds :: "ExchangeKind list" where
  "exchangeKinds = [ExchangeDirect, ExchangeFanout, ExchangeTopic]"

definition ParseExchangeKind :: "string \<Rightarrow> error + ExchangeKind" where
  "ParseExchangeKind raw =
    (case find (\<lambda>kind. kind = raw) exchangeKinds of
       Some kind \<Rightarrow> Inr kind
     | None \<Rightarrow> Inl (FieldError ''kind'' (ReasonKind raw)))"

definition maxNameLength :: nat where "maxNameLength = 128"
definition maxRoutingKeyLength :: nat where "maxRoutingKeyLength = 255"
definition queue_defaultMaxAttempts :: int where "queue_defaultMaxAttempts = 3"
definition defaultVisibilityTime :: duration where "defaultVisibilityTime = 30 * second"

text \<open>\<open>namePattern\<close>: a letter or digit, then letters, digits, dots, underscores and hyphens.\<close>

definition name_start :: "char \<Rightarrow> bool" where
  "name_start c = (let n = (of_char c :: nat) in
     (97 \<le> n \<and> n \<le> 122) \<or> (65 \<le> n \<and> n \<le> 90) \<or> (48 \<le> n \<and> n \<le> 57))"

definition name_char :: "char \<Rightarrow> bool" where
  "name_char c = (name_start c \<or> c = CHR ''.'' \<or> c = CHR ''_'' \<or> c = CHR ''-'')"

fun namePattern :: "string \<Rightarrow> bool" where
  "namePattern [] = False"
| "namePattern (c # cs) = (name_start c \<and> list_all name_char cs)"

definition validateName :: "string \<Rightarrow> string \<Rightarrow> error option" where
  "validateName field val =
    (if val = [] then Some (invalid field ''must not be empty'')
     else if length val > maxNameLength then Some (invalid field ''exceeds maximum length'')
     else if \<not> namePattern val
     then Some (invalid field ''must match [a-zA-Z0-9][a-zA-Z0-9._-]*'')
     else None)"

record ExchangeSpec =
  xs_Name :: string
  xs_Kind :: ExchangeKind
  xs_Durable :: bool

record Exchange =
  ex_Spec :: ExchangeSpec
  ex_CreatedAt :: time

definition ExchangeSpec_Validate :: "ExchangeSpec \<Rightarrow> error option" where
  "ExchangeSpec_Validate s =
    (case validateName ''exchange name'' (xs_Name s) of
       Some err \<Rightarrow> Some err
     | None \<Rightarrow> (case ParseExchangeKind (xs_Kind s) of
                  Inl err \<Rightarrow> Some err
                | Inr _ \<Rightarrow> None))"

record QueueSpec =
  qs_Name :: string
  qs_Durable :: bool
  qs_MaxAttempts :: int
  qs_VisibilityTimeout :: duration
  qs_Schema :: string

record Queue =
  q_Spec :: QueueSpec
  q_CreatedAt :: time

definition QueueSpec_Validate :: "QueueSpec \<Rightarrow> error option" where
  "QueueSpec_Validate s =
    (case validateName ''queue name'' (qs_Name s) of
       Some err \<Rightarrow> Some err
     | None \<Rightarrow>
         if qs_MaxAttempts s < 1 then Some (invalid ''max_attempts'' ''must be at least 1'')
         else if qs_VisibilityTimeout s \<le> 0
         then Some (invalid ''visibility_timeout'' ''must be positive'')
         else if qs_Schema s \<noteq> [] then validateName ''schema'' (qs_Schema s)
         else None)"

definition QueueSpec_withDefaults :: "QueueSpec \<Rightarrow> QueueSpec" where
  "QueueSpec_withDefaults s =
    (let s = (if qs_MaxAttempts s = 0
              then s\<lparr>qs_MaxAttempts := queue_defaultMaxAttempts\<rparr> else s)
     in if qs_VisibilityTimeout s = 0
        then s\<lparr>qs_VisibilityTimeout := defaultVisibilityTime\<rparr> else s)"

record BindingSpec =
  bs_Exchange :: string
  bs_Queue :: string
  bs_RoutingKey :: string

record Binding =
  b_Spec :: BindingSpec
  b_CreatedAt :: time

definition contains_wildcard :: "string \<Rightarrow> bool" where
  "contains_wildcard s = list_ex (\<lambda>c. c = CHR ''*'' \<or> c = CHR ''#'') s"

definition validateRoutingKey :: "string \<Rightarrow> error option" where
  "validateRoutingKey key =
    (if key = [] then Some (invalid ''routing_key'' ''must not be empty'')
     else if length key > maxRoutingKeyLength
     then Some (invalid ''routing_key'' ''exceeds maximum length'')
     else if contains_wildcard key
     then Some (invalid ''routing_key'' ''wildcards are only valid on topic exchanges'')
     else None)"

fun validate_segments :: "string list \<Rightarrow> error option" where
  "validate_segments [] = None"
| "validate_segments (segment # segments) =
    (if segment = [] then Some (invalid ''routing_key'' ''must not contain empty segments'')
     else if contains_wildcard segment \<and> length segment \<noteq> 1
     then Some (invalid ''routing_key'' ''wildcard segments must stand alone'')
     else validate_segments segments)"

definition validateBindingPattern :: "string \<Rightarrow> error option" where
  "validateBindingPattern pattern =
    (if pattern = [] then Some (invalid ''routing_key'' ''must not be empty'')
     else if length pattern > maxRoutingKeyLength
     then Some (invalid ''routing_key'' ''exceeds maximum length'')
     else validate_segments (strings_Split pattern (CHR ''.'')))"

definition BindingSpec_Validate :: "BindingSpec \<Rightarrow> ExchangeKind \<Rightarrow> error option" where
  "BindingSpec_Validate s kind =
    (case validateName ''exchange name'' (bs_Exchange s) of
       Some err \<Rightarrow> Some err
     | None \<Rightarrow> (case validateName ''queue name'' (bs_Queue s) of
         Some err \<Rightarrow> Some err
       | None \<Rightarrow>
           if kind = ExchangeFanout then None
           else if kind = ExchangeDirect then validateRoutingKey (bs_RoutingKey s)
           else if kind = ExchangeTopic then validateBindingPattern (bs_RoutingKey s)
           else Some (invalid ''kind'' ''unsupported exchange kind'')))"

definition BindingSpec_key :: "BindingSpec \<Rightarrow> string" where
  "BindingSpec_key s =
    bs_Exchange s @ [CHR 0x00] @ bs_Queue s @ [CHR 0x00] @ bs_RoutingKey s"

section \<open>The routing table\<close>

record routingTable =
  rt_exchanges :: "(string, Exchange) gomap"
  rt_bindings :: "(string, Binding list) gomap"

definition newRoutingTable :: routingTable where
  "newRoutingTable = \<lparr>rt_exchanges = [], rt_bindings = []\<rparr>"

definition rt_declareExchange ::
  "routingTable \<Rightarrow> ExchangeSpec \<Rightarrow> time \<Rightarrow> (error + Exchange) \<times> routingTable" where
  "rt_declareExchange t spec now =
    (case ExchangeSpec_Validate spec of
       Some err \<Rightarrow> (Inl err, t)
     | None \<Rightarrow> (case mget (rt_exchanges t) (xs_Name spec) of
         Some existing \<Rightarrow>
           (if ex_Spec existing \<noteq> spec then Inl ErrExchangeExists else Inr existing, t)
       | None \<Rightarrow>
           let exchange = \<lparr>ex_Spec = spec, ex_CreatedAt = now\<rparr>
           in (Inr exchange,
               t\<lparr>rt_exchanges := mput (rt_exchanges t) (xs_Name spec) exchange\<rparr>)))"

definition rt_exchange :: "routingTable \<Rightarrow> string \<Rightarrow> error + Exchange" where
  "rt_exchange t name =
    (case mget (rt_exchanges t) name of
       None \<Rightarrow> Inl ErrExchangeNotFound | Some exchange \<Rightarrow> Inr exchange)"

definition rt_allExchanges :: "routingTable \<Rightarrow> Exchange list" where
  "rt_allExchanges t = sort_key (\<lambda>e. xs_Name (ex_Spec e)) (mvals (rt_exchanges t))"

text \<open>\<open>t.bindings[exchange]\<close>: nil when the exchange has no group.\<close>

definition rt_group :: "routingTable \<Rightarrow> string \<Rightarrow> Binding list" where
  "rt_group t exchange = mget_or [] (rt_bindings t) exchange"

definition rt_bind ::
  "routingTable \<Rightarrow> BindingSpec \<Rightarrow> time \<Rightarrow> (error + Binding) \<times> routingTable" where
  "rt_bind t spec now =
    (case rt_exchange t (bs_Exchange spec) of
       Inl err \<Rightarrow> (Inl err, t)
     | Inr exchange \<Rightarrow> (case BindingSpec_Validate spec (xs_Kind (ex_Spec exchange)) of
         Some err \<Rightarrow> (Inl err, t)
       | None \<Rightarrow>
           (case find (\<lambda>b. BindingSpec_key (b_Spec b) = BindingSpec_key spec)
                   (rt_group t (bs_Exchange spec)) of
              Some binding \<Rightarrow> (Inr binding, t)
            | None \<Rightarrow>
                let binding = \<lparr>b_Spec = spec, b_CreatedAt = now\<rparr>
                in (Inr binding,
                    t\<lparr>rt_bindings := mput (rt_bindings t) (bs_Exchange spec)
                        (rt_group t (bs_Exchange spec) @ [binding])\<rparr>))))"

text \<open>\<open>append(existing[:i], existing[i+1:]...)\<close> at the first index whose key is the given one.\<close>

fun remove_binding :: "string \<Rightarrow> Binding list \<Rightarrow> Binding list option" where
  "remove_binding key [] = None"
| "remove_binding key (b # bs) =
    (if BindingSpec_key (b_Spec b) = key then Some bs
     else map_option ((#) b) (remove_binding key bs))"

definition rt_unbind :: "routingTable \<Rightarrow> BindingSpec \<Rightarrow> error option \<times> routingTable" where
  "rt_unbind t spec =
    (case remove_binding (BindingSpec_key spec) (rt_group t (bs_Exchange spec)) of
       Some bs \<Rightarrow> (None, t\<lparr>rt_bindings := mput (rt_bindings t) (bs_Exchange spec) bs\<rparr>)
     | None \<Rightarrow> (Some ErrBindingNotFound, t))"

definition rt_bindingsFor :: "routingTable \<Rightarrow> string \<Rightarrow> Binding list" where
  "rt_bindingsFor t exchange = rt_group t exchange"

definition rt_allBindings :: "routingTable \<Rightarrow> Binding list" where
  "rt_allBindings t =
    sort_key (\<lambda>b. BindingSpec_key (b_Spec b)) (concat (mvals (rt_bindings t)))"

definition rt_queueReferences :: "routingTable \<Rightarrow> string \<Rightarrow> nat" where
  "rt_queueReferences t queue =
    fold (\<lambda>bindings references.
        fold (\<lambda>b references. if bs_Queue (b_Spec b) = queue then references + 1 else references)
          bindings references)
      (mvals (rt_bindings t)) 0"

definition bindingMatches :: "ExchangeKind \<Rightarrow> string \<Rightarrow> string \<Rightarrow> bool" where
  "bindingMatches kind pattern routingKey =
    (if kind = ExchangeFanout then True
     else if kind = ExchangeDirect then pattern = routingKey
     else if kind = ExchangeTopic then matchTopic pattern routingKey
     else False)"

text \<open>One turn of the loop of \<open>route\<close>, over the set \<open>seen\<close> and the list \<open>matched\<close>.\<close>

definition route_step ::
  "ExchangeKind \<Rightarrow> string \<Rightarrow> (string \<Rightarrow> bool) \<Rightarrow> Binding \<Rightarrow>
    string list \<times> string list \<Rightarrow> string list \<times> string list" where
  "route_step kind routingKey deliverable b st =
    (let (seen, matched) = st; queue = bs_Queue (b_Spec b) in
     if queue \<in> set seen then (seen, matched)
     else if \<not> deliverable queue then (seen, matched)
     else if \<not> bindingMatches kind (bs_RoutingKey (b_Spec b)) routingKey then (seen, matched)
     else (queue # seen, matched @ [queue]))"

definition rt_route ::
  "routingTable \<Rightarrow> Exchange \<Rightarrow> string \<Rightarrow> (string \<Rightarrow> bool) \<Rightarrow> string list" where
  "rt_route t exchange routingKey deliverable =
    sort (snd (fold (route_step (xs_Kind (ex_Spec exchange)) routingKey deliverable)
      (rt_group t (xs_Name (ex_Spec exchange))) ([], [])))"

section \<open>The registry\<close>

record Registry =
  rg_routing :: routingTable
  rg_queues :: "(string, Queue) gomap"

definition NewRegistry :: Registry where
  "NewRegistry = \<lparr>rg_routing = newRoutingTable, rg_queues = []\<rparr>"

definition Registry_DeclareExchange ::
  "Registry \<Rightarrow> ExchangeSpec \<Rightarrow> time \<Rightarrow> (error + Exchange) \<times> Registry" where
  "Registry_DeclareExchange r spec now =
    (let (res, t) = rt_declareExchange (rg_routing r) spec now in (res, r\<lparr>rg_routing := t\<rparr>))"

definition Registry_Exchange :: "Registry \<Rightarrow> string \<Rightarrow> error + Exchange" where
  "Registry_Exchange r name = rt_exchange (rg_routing r) name"

definition Registry_Exchanges :: "Registry \<Rightarrow> Exchange list" where
  "Registry_Exchanges r = rt_allExchanges (rg_routing r)"

definition queueExistsLocked :: "Registry \<Rightarrow> string \<Rightarrow> bool" where
  "queueExistsLocked r name = (mget (rg_queues r) name \<noteq> None)"

definition Registry_Bind ::
  "Registry \<Rightarrow> BindingSpec \<Rightarrow> time \<Rightarrow> (error + Binding) \<times> Registry" where
  "Registry_Bind r spec now =
    (if mget (rg_queues r) (bs_Queue spec) = None then (Inl ErrQueueNotFound, r)
     else let (res, t) = rt_bind (rg_routing r) spec now in (res, r\<lparr>rg_routing := t\<rparr>))"

definition Registry_Unbind :: "Registry \<Rightarrow> BindingSpec \<Rightarrow> error option \<times> Registry" where
  "Registry_Unbind r spec =
    (let (err, t) = rt_unbind (rg_routing r) spec in (err, r\<lparr>rg_routing := t\<rparr>))"

definition Registry_Bindings :: "Registry \<Rightarrow> string \<Rightarrow> Binding list" where
  "Registry_Bindings r exchange = rt_bindingsFor (rg_routing r) exchange"

definition Registry_AllBindings :: "Registry \<Rightarrow> Binding list" where
  "Registry_AllBindings r = rt_allBindings (rg_routing r)"

definition Registry_DeclareQueue ::
  "Registry \<Rightarrow> QueueSpec \<Rightarrow> time \<Rightarrow> (error + Queue) \<times> Registry" where
  "Registry_DeclareQueue r spec now =
    (let spec = QueueSpec_withDefaults spec in
     case QueueSpec_Validate spec of
       Some err \<Rightarrow> (Inl err, r)
     | None \<Rightarrow> (case mget (rg_queues r) (qs_Name spec) of
         Some existing \<Rightarrow>
           (if q_Spec existing \<noteq> spec then Inl ErrQueueExists else Inr existing, r)
       | None \<Rightarrow>
           let queue = \<lparr>q_Spec = spec, q_CreatedAt = now\<rparr>
           in (Inr queue, r\<lparr>rg_queues := mput (rg_queues r) (qs_Name spec) queue\<rparr>)))"

definition Registry_Queue :: "Registry \<Rightarrow> string \<Rightarrow> error + Queue" where
  "Registry_Queue r name =
    (case mget (rg_queues r) name of None \<Rightarrow> Inl ErrQueueNotFound | Some queue \<Rightarrow> Inr queue)"

definition Registry_Queues :: "Registry \<Rightarrow> Queue list" where
  "Registry_Queues r = sort_key (\<lambda>q. qs_Name (q_Spec q)) (mvals (rg_queues r))"

definition Registry_QueueNames :: "Registry \<Rightarrow> string list" where
  "Registry_QueueNames r = sort (mkeys (rg_queues r))"

definition Registry_DeleteQueue :: "Registry \<Rightarrow> string \<Rightarrow> error option \<times> Registry" where
  "Registry_DeleteQueue r name =
    (if mget (rg_queues r) name = None then (Some ErrQueueNotFound, r)
     else if rt_queueReferences (rg_routing r) name > 0 then (Some ErrQueueInUse, r)
     else (None, r\<lparr>rg_queues := mdel (rg_queues r) name\<rparr>))"

text \<open>\<open>Route\<close>. Every name that \<open>route\<close> returns is a key of \<open>r.queues\<close>, so the lookups of the last
  loop never miss.\<close>

definition Registry_Route :: "Registry \<Rightarrow> string \<Rightarrow> string \<Rightarrow> error + Queue list" where
  "Registry_Route r exchange routingKey =
    (case rt_exchange (rg_routing r) exchange of
       Inl err \<Rightarrow> Inl err
     | Inr definition' \<Rightarrow>
         let names = rt_route (rg_routing r) definition' routingKey (queueExistsLocked r) in
         if length names = 0 then Inl ErrUnroutable
         else Inr (List.map_filter (mget (rg_queues r)) names))"

definition Registry_Restore ::
  "Registry \<Rightarrow> Exchange list \<Rightarrow> Queue list \<Rightarrow> Binding list \<Rightarrow> Registry" where
  "Registry_Restore r exchanges queues bindings =
    (let t = rg_routing r;
         exs = fold (\<lambda>e m. mput m (xs_Name (ex_Spec e)) e) exchanges (rt_exchanges t);
         qs = fold (\<lambda>q m. mput m (qs_Name (q_Spec q)) q) queues (rg_queues r);
         bs = fold (\<lambda>b m. mput m (bs_Exchange (b_Spec b))
                      (mget_or [] m (bs_Exchange (b_Spec b)) @ [b])) bindings (rt_bindings t)
     in r\<lparr>rg_routing := t\<lparr>rt_exchanges := exs, rt_bindings := bs\<rparr>, rg_queues := qs\<rparr>)"

section \<open>Names and binding keys\<close>

lemma validateName_None:
  "validateName field n = None \<longleftrightarrow> n \<noteq> [] \<and> length n \<le> maxNameLength \<and> namePattern n"
  by (auto simp: validateName_def)

lemma namePattern_no_nul: "namePattern n \<Longrightarrow> CHR 0x00 \<notin> set n"
  by (cases n) (auto simp: name_char_def name_start_def list_all_iff)

lemma nul_split:
  "z \<notin> set a \<Longrightarrow> z \<notin> set b \<Longrightarrow> a @ z # x = b @ z # y \<longleftrightarrow> a = b \<and> x = y"
proof (induction a arbitrary: b)
  case Nil
  then show ?case by (cases b) auto
next
  case (Cons c a)
  then show ?case by (cases b) auto
qed

definition named_spec :: "BindingSpec \<Rightarrow> bool" where
  "named_spec s \<longleftrightarrow> namePattern (bs_Exchange s) \<and> namePattern (bs_Queue s)"

lemma BindingSpec_key_inject:
  "named_spec s \<Longrightarrow> named_spec s' \<Longrightarrow> BindingSpec_key s = BindingSpec_key s' \<longleftrightarrow> s = s'"
  by (auto simp: named_spec_def BindingSpec_key_def nul_split namePattern_no_nul)

lemma BindingSpec_Validate_named: "BindingSpec_Validate s kind = None \<Longrightarrow> named_spec s"
  by (auto simp: BindingSpec_Validate_def named_spec_def validateName_None split: option.splits)

section \<open>Routing\<close>

definition routed :: "ExchangeKind \<Rightarrow> string \<Rightarrow> (string \<Rightarrow> bool) \<Rightarrow> Binding \<Rightarrow> bool" where
  "routed kind rk deliv b \<longleftrightarrow> deliv (bs_Queue (b_Spec b)) \<and>
    bindingMatches kind (bs_RoutingKey (b_Spec b)) rk"

lemma route_step_routed:
  "route_step kind rk deliv b (seen, matched) =
    (if routed kind rk deliv b \<and> bs_Queue (b_Spec b) \<notin> set seen
     then (bs_Queue (b_Spec b) # seen, matched @ [bs_Queue (b_Spec b)]) else (seen, matched))"
  by (auto simp: route_step_def routed_def Let_def)

lemma route_fold:
  assumes "set seen = set matched" and "distinct matched"
  shows "distinct (snd (fold (route_step kind rk deliv) bs (seen, matched))) \<and>
    set (snd (fold (route_step kind rk deliv) bs (seen, matched))) =
      set matched \<union> (\<lambda>b. bs_Queue (b_Spec b)) ` set (filter (routed kind rk deliv) bs)"
  using assms
proof (induction bs arbitrary: seen matched)
  case Nil
  then show ?case by simp
next
  case (Cons b bs)
  show ?case
  proof (cases "routed kind rk deliv b \<and> bs_Queue (b_Spec b) \<notin> set seen")
    case True
    then show ?thesis
      using Cons.prems
        Cons.IH [of "bs_Queue (b_Spec b) # seen" "matched @ [bs_Queue (b_Spec b)]"]
      by (simp add: route_step_routed)
  next
    case False
    have "fold (route_step kind rk deliv) (b # bs) (seen, matched) =
        fold (route_step kind rk deliv) bs (seen, matched)"
      using False by (auto simp: route_step_routed)
    with Cons.IH [OF Cons.prems] False Cons.prems(1) show ?thesis by auto
  qed
qed

lemma rt_route_spec:
  "rt_route t e rk deliv = sorted_list_of_set ((\<lambda>b. bs_Queue (b_Spec b)) `
     set (filter (routed (xs_Kind (ex_Spec e)) rk deliv) (rt_group t (xs_Name (ex_Spec e)))))"
proof -
  let ?m = "snd (fold (route_step (xs_Kind (ex_Spec e)) rk deliv)
      (rt_group t (xs_Name (ex_Spec e))) ([], []))"
  note f = route_fold [of "[]" "[]" "xs_Kind (ex_Spec e)" rk deliv "rt_group t (xs_Name (ex_Spec e))"]
  have "remdups ?m = ?m" using f by simp
  then have "rt_route t e rk deliv = sorted_list_of_set (set ?m)"
    by (simp only: rt_route_def sorted_list_of_set_sort_remdups)
  also have "set ?m = (\<lambda>b. bs_Queue (b_Spec b)) `
      set (filter (routed (xs_Kind (ex_Spec e)) rk deliv) (rt_group t (xs_Name (ex_Spec e))))"
    using f by simp
  finally show ?thesis .
qed

lemma queueReferences_count:
  "rt_queueReferences t q =
    length (filter (\<lambda>b. bs_Queue (b_Spec b) = q) (concat (mvals (rt_bindings t))))"
proof -
  have inner: "fold (\<lambda>b n. if bs_Queue (b_Spec b) = q then n + 1 else n) bs n =
      n + length (filter (\<lambda>b. bs_Queue (b_Spec b) = q) bs)" for bs and n :: nat
    by (induction bs arbitrary: n) auto
  have outer: "fold (\<lambda>bs n. fold (\<lambda>b n. if bs_Queue (b_Spec b) = q then n + 1 else n) bs n) bss n =
      n + length (filter (\<lambda>b. bs_Queue (b_Spec b) = q) (concat bss))" for bss and n :: nat
    by (induction bss arbitrary: n) (simp_all add: inner)
  show ?thesis by (simp add: rt_queueReferences_def outer)
qed

section \<open>The registry's invariant\<close>

definition group_ok :: "Registry \<Rightarrow> string \<Rightarrow> Binding list \<Rightarrow> bool" where
  "group_ok r exch bs \<longleftrightarrow>
    distinct (map (\<lambda>b. BindingSpec_key (b_Spec b)) bs) \<and>
    (\<forall>b\<in>set bs. bs_Exchange (b_Spec b) = exch \<and> queueExistsLocked r (bs_Queue (b_Spec b)) \<and>
      (\<exists>e. mget (rt_exchanges (rg_routing r)) exch = Some e \<and>
           BindingSpec_Validate (b_Spec b) (xs_Kind (ex_Spec e)) = None))"

definition registry_ok :: "Registry \<Rightarrow> bool" where
  "registry_ok r \<longleftrightarrow>
    mwf (rt_exchanges (rg_routing r)) \<and> mwf (rt_bindings (rg_routing r)) \<and> mwf (rg_queues r) \<and>
    (\<forall>n e. mget (rt_exchanges (rg_routing r)) n = Some e \<longrightarrow>
       xs_Name (ex_Spec e) = n \<and> ExchangeSpec_Validate (ex_Spec e) = None) \<and>
    (\<forall>n q. mget (rg_queues r) n = Some q \<longrightarrow>
       qs_Name (q_Spec q) = n \<and> QueueSpec_Validate (q_Spec q) = None) \<and>
    (\<forall>exch. group_ok r exch (rt_group (rg_routing r) exch))"

lemma registry_ok_New: "registry_ok NewRegistry"
  by (simp add: registry_ok_def NewRegistry_def newRoutingTable_def rt_group_def mget_or_def
      group_ok_def)

lemma rt_group_mput:
  "mget_or [] (mput (rt_bindings t) exch bs) exch' = (if exch' = exch then bs else rt_group t exch')"
  by (simp add: rt_group_def mget_or_def)

lemma group_ok_mono:
  assumes "group_ok r exch bs"
    and "\<And>b. b \<in> set bs \<Longrightarrow> queueExistsLocked r (bs_Queue (b_Spec b)) \<Longrightarrow>
      queueExistsLocked r' (bs_Queue (b_Spec b))"
    and "\<And>e. mget (rt_exchanges (rg_routing r)) exch = Some e \<Longrightarrow>
      mget (rt_exchanges (rg_routing r')) exch = Some e"
  shows "group_ok r' exch bs"
  using assms unfolding group_ok_def by blast

lemma group_ok_subset:
  assumes "group_ok r exch bs"
  shows "group_ok r exch (filter P bs)"
  using assms by (auto simp: group_ok_def distinct_map_filter)

lemma registry_okI:
  assumes "mwf (rt_exchanges (rg_routing r))" "mwf (rt_bindings (rg_routing r))" "mwf (rg_queues r)"
    and "\<And>n e. mget (rt_exchanges (rg_routing r)) n = Some e \<Longrightarrow>
       xs_Name (ex_Spec e) = n \<and> ExchangeSpec_Validate (ex_Spec e) = None"
    and "\<And>n q. mget (rg_queues r) n = Some q \<Longrightarrow>
       qs_Name (q_Spec q) = n \<and> QueueSpec_Validate (q_Spec q) = None"
    and "\<And>exch. group_ok r exch (rt_group (rg_routing r) exch)"
  shows "registry_ok r"
  using assms unfolding registry_ok_def by blast

lemma registry_okD:
  assumes "registry_ok r"
  shows "mwf (rt_exchanges (rg_routing r))" "mwf (rt_bindings (rg_routing r))" "mwf (rg_queues r)"
    and "\<And>n e. mget (rt_exchanges (rg_routing r)) n = Some e \<Longrightarrow>
       xs_Name (ex_Spec e) = n \<and> ExchangeSpec_Validate (ex_Spec e) = None"
    and "\<And>n q. mget (rg_queues r) n = Some q \<Longrightarrow>
       qs_Name (q_Spec q) = n \<and> QueueSpec_Validate (q_Spec q) = None"
    and "\<And>exch. group_ok r exch (rt_group (rg_routing r) exch)"
  using assms unfolding registry_ok_def by blast+

lemma DeclareExchange_cases:
  "snd (Registry_DeclareExchange r spec now) = r \<or>
   ExchangeSpec_Validate spec = None \<and>
   mget (rt_exchanges (rg_routing r)) (xs_Name spec) = None \<and>
   snd (Registry_DeclareExchange r spec now) = r\<lparr>rg_routing := (rg_routing r)\<lparr>rt_exchanges :=
     mput (rt_exchanges (rg_routing r)) (xs_Name spec) \<lparr>ex_Spec = spec, ex_CreatedAt = now\<rparr>\<rparr>\<rparr>"
  by (simp add: Registry_DeclareExchange_def rt_declareExchange_def Let_def split: option.split)

lemma DeclareExchange_ok:
  assumes "registry_ok r"
  shows "registry_ok (snd (Registry_DeclareExchange r spec now))"
proof (cases "snd (Registry_DeclareExchange r spec now) = r")
  case True
  with assms show ?thesis by simp
next
  case False
  then have v: "ExchangeSpec_Validate spec = None"
      "mget (rt_exchanges (rg_routing r)) (xs_Name spec) = None"
    and r: "snd (Registry_DeclareExchange r spec now) = r\<lparr>rg_routing := (rg_routing r)\<lparr>rt_exchanges :=
        mput (rt_exchanges (rg_routing r)) (xs_Name spec) \<lparr>ex_Spec = spec, ex_CreatedAt = now\<rparr>\<rparr>\<rparr>"
    using DeclareExchange_cases [of r spec now] by simp_all
  show ?thesis
    unfolding r
  proof (rule registry_okI, goal_cases)
    case (6 exch)
    from registry_okD(6) [OF assms, of exch] show ?case
      by (auto simp: rt_group_def intro!: group_ok_mono [of r] simp: queueExistsLocked_def v)
  qed (use v registry_okD [OF assms] in \<open>auto split: if_splits\<close>)
qed

lemma DeclareQueue_cases:
  "snd (Registry_DeclareQueue r spec now) = r \<or>
   QueueSpec_Validate (QueueSpec_withDefaults spec) = None \<and>
   mget (rg_queues r) (qs_Name (QueueSpec_withDefaults spec)) = None \<and>
   snd (Registry_DeclareQueue r spec now) = r\<lparr>rg_queues :=
     mput (rg_queues r) (qs_Name (QueueSpec_withDefaults spec))
       \<lparr>q_Spec = QueueSpec_withDefaults spec, q_CreatedAt = now\<rparr>\<rparr>"
  by (simp add: Registry_DeclareQueue_def Let_def split: option.split)

lemma DeclareQueue_ok:
  assumes "registry_ok r"
  shows "registry_ok (snd (Registry_DeclareQueue r spec now))"
proof (cases "snd (Registry_DeclareQueue r spec now) = r")
  case True
  with assms show ?thesis by simp
next
  case False
  let ?spec = "QueueSpec_withDefaults spec"
  from False have v: "QueueSpec_Validate ?spec = None" "mget (rg_queues r) (qs_Name ?spec) = None"
    and r: "snd (Registry_DeclareQueue r spec now) = r\<lparr>rg_queues :=
        mput (rg_queues r) (qs_Name ?spec) \<lparr>q_Spec = ?spec, q_CreatedAt = now\<rparr>\<rparr>"
    using DeclareQueue_cases [of r spec now] by simp_all
  show ?thesis
    unfolding r
  proof (rule registry_okI, goal_cases)
    case (6 exch)
    from registry_okD(6) [OF assms, of exch] show ?case
      by (auto intro!: group_ok_mono [of r] simp: queueExistsLocked_def)
  qed (use v registry_okD [OF assms] in \<open>auto split: if_splits\<close>)
qed

lemma remove_binding_Some:
  "remove_binding key bs = Some bs' \<Longrightarrow>
    set bs' \<subseteq> set bs \<and>
    (distinct (map (\<lambda>b. BindingSpec_key (b_Spec b)) bs) \<longrightarrow>
      bs' = filter (\<lambda>b. BindingSpec_key (b_Spec b) \<noteq> key) bs)"
proof (induction bs arbitrary: bs')
  case Nil
  then show ?case by simp
next
  case (Cons b bs)
  show ?case
  proof (cases "BindingSpec_key (b_Spec b) = key")
    case True
    then have "bs' = bs" using Cons.prems by simp
    moreover have "filter (\<lambda>b. BindingSpec_key (b_Spec b) \<noteq> key) bs = bs"
      if "key \<notin> (\<lambda>b. BindingSpec_key (b_Spec b)) ` set bs"
      using that by (intro filter_True) auto
    ultimately show ?thesis using True by auto
  next
    case False
    with Cons show ?thesis by auto
  qed
qed

lemma remove_binding_None:
  "remove_binding key bs = None \<longleftrightarrow> (\<forall>b\<in>set bs. BindingSpec_key (b_Spec b) \<noteq> key)"
  by (induction bs) auto

definition binding_added :: "Registry \<Rightarrow> Binding \<Rightarrow> Registry" where
  "binding_added r b =
    r\<lparr>rg_routing := (rg_routing r)\<lparr>rt_bindings :=
      mput (rt_bindings (rg_routing r)) (bs_Exchange (b_Spec b))
        (rt_group (rg_routing r) (bs_Exchange (b_Spec b)) @ [b])\<rparr>\<rparr>"

lemma Bind_cases:
  "snd (Registry_Bind r spec now) = r \<or>
   (\<exists>e. mget (rt_exchanges (rg_routing r)) (bs_Exchange spec) = Some e \<and>
      BindingSpec_Validate spec (xs_Kind (ex_Spec e)) = None \<and>
      queueExistsLocked r (bs_Queue spec) \<and>
      (\<forall>b\<in>set (rt_group (rg_routing r) (bs_Exchange spec)).
         BindingSpec_key (b_Spec b) \<noteq> BindingSpec_key spec) \<and>
      Registry_Bind r spec now = (Inr \<lparr>b_Spec = spec, b_CreatedAt = now\<rparr>,
        binding_added r \<lparr>b_Spec = spec, b_CreatedAt = now\<rparr>))"
  by (simp add: Registry_Bind_def rt_bind_def rt_exchange_def Let_def find_None_iff
      binding_added_def queueExistsLocked_def split: option.split)

lemma rt_group_binding_added:
  "rt_group (rg_routing (binding_added r b)) exch =
    (if exch = bs_Exchange (b_Spec b) then rt_group (rg_routing r) exch @ [b]
     else rt_group (rg_routing r) exch)"
  by (simp add: binding_added_def rt_group_def mget_or_def)

lemma group_ok_snoc:
  assumes "group_ok r exch bs" and "bs_Exchange (b_Spec b) = exch"
    and "mget (rt_exchanges (rg_routing r)) exch = Some e"
    and "BindingSpec_Validate (b_Spec b) (xs_Kind (ex_Spec e)) = None"
    and "queueExistsLocked r (bs_Queue (b_Spec b))"
    and "\<forall>b'\<in>set bs. BindingSpec_key (b_Spec b') \<noteq> BindingSpec_key (b_Spec b)"
  shows "group_ok r exch (bs @ [b])"
proof -
  have "BindingSpec_key (b_Spec b) \<notin> (\<lambda>b. BindingSpec_key (b_Spec b)) ` set bs"
    using assms(6) by force
  with assms show ?thesis by (simp add: group_ok_def)
qed

lemma Bind_ok:
  assumes "registry_ok r"
  shows "registry_ok (snd (Registry_Bind r spec now))"
proof (cases "snd (Registry_Bind r spec now) = r")
  case True
  with assms show ?thesis by simp
next
  case False
  let ?b = "\<lparr>b_Spec = spec, b_CreatedAt = now\<rparr>"
  let ?r = "binding_added r ?b"
  obtain e where e: "mget (rt_exchanges (rg_routing r)) (bs_Exchange spec) = Some e"
      "BindingSpec_Validate spec (xs_Kind (ex_Spec e)) = None"
      "queueExistsLocked r (bs_Queue spec)"
      "\<forall>b\<in>set (rt_group (rg_routing r) (bs_Exchange spec)).
         BindingSpec_key (b_Spec b) \<noteq> BindingSpec_key spec"
    and r: "snd (Registry_Bind r spec now) = ?r"
    using Bind_cases [of r spec now] False by (elim disjE exE conjE) simp_all
  show ?thesis
    unfolding r
  proof (rule registry_okI)
    fix exch
    have "group_ok ?r exch (rt_group (rg_routing r) exch)"
      by (rule group_ok_mono [OF registry_okD(6) [OF assms]])
        (simp_all add: queueExistsLocked_def binding_added_def)
    then show "group_ok ?r exch (rt_group (rg_routing ?r) exch)"
      using e unfolding rt_group_binding_added
      by (auto intro!: group_ok_snoc simp: queueExistsLocked_def binding_added_def)
  qed (use registry_okD [OF assms] in \<open>simp_all add: binding_added_def\<close>)
qed

lemma Unbind_ok:
  assumes "registry_ok r"
  shows "registry_ok (snd (Registry_Unbind r spec))"
proof (cases "remove_binding (BindingSpec_key spec) (rt_group (rg_routing r) (bs_Exchange spec))")
  case None
  with assms show ?thesis by (simp add: Registry_Unbind_def rt_unbind_def)
next
  case (Some bs)
  have g: "group_ok r (bs_Exchange spec) (rt_group (rg_routing r) (bs_Exchange spec))"
    using assms by (rule registry_okD)
  then have "bs = filter (\<lambda>b. BindingSpec_key (b_Spec b) \<noteq> BindingSpec_key spec)
      (rt_group (rg_routing r) (bs_Exchange spec))"
    using remove_binding_Some [OF Some] by (simp add: group_ok_def)
  then have bs: "group_ok r (bs_Exchange spec) bs" using group_ok_subset [OF g] by simp
  let ?r = "r\<lparr>rg_routing := (rg_routing r)\<lparr>rt_bindings :=
        mput (rt_bindings (rg_routing r)) (bs_Exchange spec) bs\<rparr>\<rparr>"
  have r: "snd (Registry_Unbind r spec) = ?r"
    using Some by (simp add: Registry_Unbind_def rt_unbind_def)
  show ?thesis
    unfolding r
  proof (rule registry_okI)
    fix exch
    have "group_ok r exch (rt_group (rg_routing ?r) exch)"
      using bs registry_okD(6) [OF assms, of exch] by (auto simp: rt_group_def mget_or_def)
    then show "group_ok ?r exch (rt_group (rg_routing ?r) exch)"
      by (rule group_ok_mono) (simp_all add: queueExistsLocked_def)
  qed (use registry_okD [OF assms] in simp_all)
qed

lemma rt_group_concat: "b \<in> set (rt_group t exch) \<Longrightarrow> b \<in> set (concat (mvals (rt_bindings t)))"
  using mget_mvals [of "rt_bindings t" exch]
  by (force simp: rt_group_def mget_or_def split: option.splits)

lemma no_references:
  "rt_queueReferences t q = 0 \<Longrightarrow> b \<in> set (rt_group t exch) \<Longrightarrow> bs_Queue (b_Spec b) \<noteq> q"
  using rt_group_concat [of b t exch] by (auto simp: queueReferences_count filter_empty_conv)

lemma DeleteQueue_ok:
  assumes "registry_ok r"
  shows "registry_ok (snd (Registry_DeleteQueue r name))"
proof (cases "snd (Registry_DeleteQueue r name) = r")
  case True
  with assms show ?thesis by simp
next
  case False
  then have r: "snd (Registry_DeleteQueue r name) = r\<lparr>rg_queues := mdel (rg_queues r) name\<rparr>"
    and ref: "rt_queueReferences (rg_routing r) name = 0"
    by (auto simp: Registry_DeleteQueue_def split: if_splits)
  show ?thesis
    unfolding r
  proof (rule registry_okI)
    fix exch
    show "group_ok (r\<lparr>rg_queues := mdel (rg_queues r) name\<rparr>) exch
      (rt_group (rg_routing (r\<lparr>rg_queues := mdel (rg_queues r) name\<rparr>)) exch)"
      using registry_okD(6) [OF assms, of exch] no_references [OF ref, of _ exch]
      by (simp, elim group_ok_mono) (simp_all add: queueExistsLocked_def)
  qed (use registry_okD [OF assms] in \<open>simp_all split: if_splits\<close>)
qed

section \<open>Reachable registries\<close>

inductive registry_step :: "Registry \<Rightarrow> Registry \<Rightarrow> bool" where
  step_DeclareExchange: "registry_step r (snd (Registry_DeclareExchange r spec now))"
| step_DeclareQueue: "registry_step r (snd (Registry_DeclareQueue r qspec now))"
| step_Bind: "registry_step r (snd (Registry_Bind r bspec now))"
| step_Unbind: "registry_step r (snd (Registry_Unbind r bspec))"
| step_DeleteQueue: "registry_step r (snd (Registry_DeleteQueue r name))"

interpretation reg: invariant_system "\<lambda>r. r = NewRegistry" registry_step registry_ok
proof
  show "registry_ok r" if "r = NewRegistry" for r
    using that by (simp add: registry_ok_New)
  show "registry_ok r'" if "registry_ok r" "registry_step r r'" for r r'
    using that(2,1)
    by cases (auto intro: DeclareExchange_ok DeclareQueue_ok Bind_ok Unbind_ok DeleteQueue_ok)
qed

section \<open>What a publication reaches\<close>

text \<open>Queues and exchanges are stored under their own names; bindings may dangle, as they can
  after \<open>Restore\<close>.\<close>

definition registry_named :: "Registry \<Rightarrow> bool" where
  "registry_named r \<longleftrightarrow>
    (\<forall>n e. mget (rt_exchanges (rg_routing r)) n = Some e \<longrightarrow> xs_Name (ex_Spec e) = n) \<and>
    (\<forall>n q. mget (rg_queues r) n = Some q \<longrightarrow> qs_Name (q_Spec q) = n)"

lemma registry_ok_named: "registry_ok r \<Longrightarrow> registry_named r"
  by (simp add: registry_ok_def registry_named_def)

definition targets :: "Registry \<Rightarrow> string \<Rightarrow> string \<Rightarrow> string set" where
  "targets r x rk = {bs_Queue (b_Spec b) | b e. b \<in> set (Registry_Bindings r x) \<and>
     Registry_Exchange r x = Inr e \<and> queueExistsLocked r (bs_Queue (b_Spec b)) \<and>
     bindingMatches (xs_Kind (ex_Spec e)) (bs_RoutingKey (b_Spec b)) rk}"

lemma finite_targets [simp]: "finite (targets r x rk)"
  by (rule finite_subset [where B = "(\<lambda>b. bs_Queue (b_Spec b)) ` set (Registry_Bindings r x)"])
    (auto simp: targets_def)

lemma Registry_Exchange_iff:
  "Registry_Exchange r x = Inr e \<longleftrightarrow> mget (rt_exchanges (rg_routing r)) x = Some e"
  by (simp add: Registry_Exchange_def rt_exchange_def split: option.split)

lemma Registry_Queue_iff: "Registry_Queue r n = Inr q \<longleftrightarrow> mget (rg_queues r) n = Some q"
  by (simp add: Registry_Queue_def split: option.split)

lemma map_filter_names:
  assumes "\<And>n. n \<in> set ns \<Longrightarrow> \<exists>q. f n = Some q \<and> name q = n"
  shows "map name (List.map_filter f ns) = ns"
  using assms by (induction ns) (force simp: List.map_filter_simps)+

lemma Route_exchange:
  assumes "registry_named r" and "Registry_Exchange r x = Inr e"
  shows "Registry_Route r x rk =
    (if targets r x rk = {} then Inl ErrUnroutable
     else Inr (List.map_filter (mget (rg_queues r)) (sorted_list_of_set (targets r x rk))))"
proof -
  have e: "mget (rt_exchanges (rg_routing r)) x = Some e" "xs_Name (ex_Spec e) = x"
    using assms by (auto simp: Registry_Exchange_iff registry_named_def)
  have "targets r x rk = (\<lambda>b. bs_Queue (b_Spec b)) `
      set (filter (routed (xs_Kind (ex_Spec e)) rk (queueExistsLocked r)) (rt_group (rg_routing r) x))"
    using assms(2)
    by (auto simp: targets_def routed_def Registry_Bindings_def rt_bindingsFor_def)
  then have "rt_route (rg_routing r) e rk (queueExistsLocked r) = sorted_list_of_set (targets r x rk)"
    by (simp only: rt_route_spec e)
  then show ?thesis
    using e by (simp add: Registry_Route_def rt_exchange_def Let_def)
qed

lemma Route_names:
  assumes "registry_named r" and "Registry_Route r x rk = Inr qs"
  shows "map (\<lambda>q. qs_Name (q_Spec q)) qs = sorted_list_of_set (targets r x rk)"
    and "\<forall>q\<in>set qs. Registry_Queue r (qs_Name (q_Spec q)) = Inr q"
    and "targets r x rk \<noteq> {}"
proof -
  obtain e where e: "Registry_Exchange r x = Inr e"
    using assms(2)
    by (cases "rt_exchange (rg_routing r) x") (auto simp: Registry_Route_def Registry_Exchange_def)
  have ne: "targets r x rk \<noteq> {}"
    and qs: "qs = List.map_filter (mget (rg_queues r)) (sorted_list_of_set (targets r x rk))"
    using Route_exchange [OF assms(1) e, of rk] assms(2) by (auto split: if_splits)
  have "\<exists>q. mget (rg_queues r) n = Some q \<and> qs_Name (q_Spec q) = n" if "n \<in> targets r x rk" for n
    using that assms(1) by (auto simp: targets_def queueExistsLocked_def registry_named_def)
  then show "map (\<lambda>q. qs_Name (q_Spec q)) qs = sorted_list_of_set (targets r x rk)"
    unfolding qs by (intro map_filter_names) auto
  show "\<forall>q\<in>set qs. Registry_Queue r (qs_Name (q_Spec q)) = Inr q"
    using assms(1)
    by (auto simp: qs List.map_filter_def Registry_Queue_iff registry_named_def)
  show "targets r x rk \<noteq> {}" by (rule ne)
qed

end
