(* ===== verification/Storage.thy ===== *)
theory Storage
  imports Broker
begin

text \<open>
  The storage interface, \<open>internal/storage/store.go\<close>: the requests and records that cross it, and
  the Go interface \<open>Store\<close> itself as a record of operations over a store state \<open>'s\<close>, one field per
  method. A method that changes the store returns its result and the new store; contexts carry no
  data and are left out. \<open>SaveDeadLetter\<close> assigns a fresh identifier to a record without one: the
  identifier is its last argument and the completed record its result.
\<close>

record ClaimRequest =
  cr_Queue :: string
  cr_Consumer :: string
  cr_Limit :: int
  cr_Lease :: duration
  cr_Now :: time

record RetryRequest =
  rr_ID :: string
  rr_Attempt :: int
  rr_Reason :: string
  rr_AvailableAt :: time
  rr_Now :: time

record Depth =
  d_Ready :: int
  d_InFlight :: int
  d_Scheduled :: int
  d_Total :: int

record DeadLetter =
  dl_ID :: string
  dl_MessageID :: string
  dl_Queue :: string
  dl_Exchange :: string
  dl_RoutingKey :: string
  dl_Schema :: string
  dl_Payload :: string
  dl_Headers :: Headers
  dl_Reason :: string
  dl_ErrorKind :: string
  dl_Attempts :: int
  dl_PublishedAt :: time
  dl_FirstFailedAt :: time
  dl_DeadLetteredAt :: time
  dl_ReplayedAs :: string
  dl_ReplayedAt :: time
  dl_ReplayCount :: int

record DeadLetterFilter =
  df_Queue :: string
  df_Limit :: int
  df_Offset :: int

record HistoryEvent =
  he_MessageID :: string
  he_Queue :: string
  he_From :: State
  he_To :: State
  he_Consumer :: string
  he_Detail :: string
  he_At :: time

definition defaultPageSize :: int where "defaultPageSize = 50"
definition maxPageSize :: int where "maxPageSize = 500"

definition Normalise :: "DeadLetterFilter \<Rightarrow> DeadLetterFilter" where
  "Normalise f =
    (let f = (if df_Limit f \<le> 0 \<or> df_Limit f > maxPageSize
              then f\<lparr>df_Limit := defaultPageSize\<rparr> else f)
     in if df_Offset f < 0 then f\<lparr>df_Offset := 0\<rparr> else f)"

lemma Normalise_bounds:
  "0 < df_Limit (Normalise f)" "df_Limit (Normalise f) \<le> maxPageSize" "0 \<le> df_Offset (Normalise f)"
  "df_Queue (Normalise f) = df_Queue f"
  by (auto simp: Normalise_def Let_def defaultPageSize_def maxPageSize_def)

record 's store_ops =
  so_SaveExchange :: "'s \<Rightarrow> Exchange \<Rightarrow> error option \<times> 's"
  so_Exchanges :: "'s \<Rightarrow> error + Exchange list"
  so_SaveQueue :: "'s \<Rightarrow> Queue \<Rightarrow> error option \<times> 's"
  so_Queues :: "'s \<Rightarrow> error + Queue list"
  so_DeleteQueue :: "'s \<Rightarrow> string \<Rightarrow> error option \<times> 's"
  so_SaveBinding :: "'s \<Rightarrow> Binding \<Rightarrow> error option \<times> 's"
  so_Bindings :: "'s \<Rightarrow> error + Binding list"
  so_DeleteBinding :: "'s \<Rightarrow> BindingSpec \<Rightarrow> error option \<times> 's"
  so_Append :: "'s \<Rightarrow> Message list \<Rightarrow> error option \<times> 's"
  so_Message :: "'s \<Rightarrow> string \<Rightarrow> error + Message"
  so_Claim :: "'s \<Rightarrow> ClaimRequest \<Rightarrow> (error + Message list) \<times> 's"
  so_Acknowledge :: "'s \<Rightarrow> string \<Rightarrow> time \<Rightarrow> error option \<times> 's"
  so_ScheduleRetry :: "'s \<Rightarrow> RetryRequest \<Rightarrow> error option \<times> 's"
  so_Release :: "'s \<Rightarrow> string \<Rightarrow> time \<Rightarrow> error option \<times> 's"
  so_MarkDeadLettered :: "'s \<Rightarrow> string \<Rightarrow> string \<Rightarrow> time \<Rightarrow> error option \<times> 's"
  so_ExpiredLeases :: "'s \<Rightarrow> time \<Rightarrow> int \<Rightarrow> error + Message list"
  so_Depth :: "'s \<Rightarrow> string \<Rightarrow> error + Depth"
  so_Purge :: "'s \<Rightarrow> string \<Rightarrow> (error + int) \<times> 's"
  so_SaveDeadLetter :: "'s \<Rightarrow> DeadLetter \<Rightarrow> string \<Rightarrow> (error + DeadLetter) \<times> 's"
  so_DeadLetters :: "'s \<Rightarrow> DeadLetterFilter \<Rightarrow> error + DeadLetter list"
  so_DeadLetter :: "'s \<Rightarrow> string \<Rightarrow> error + DeadLetter"
  so_MarkDeadLetterReplayed :: "'s \<Rightarrow> string \<Rightarrow> string \<Rightarrow> time \<Rightarrow> error option \<times> 's"
  so_DeleteDeadLetter :: "'s \<Rightarrow> string \<Rightarrow> error option \<times> 's"
  so_CountDeadLetters :: "'s \<Rightarrow> string \<Rightarrow> error + int"
  so_AppendHistory :: "'s \<Rightarrow> HistoryEvent \<Rightarrow> error option \<times> 's"
  so_History :: "'s \<Rightarrow> string \<Rightarrow> error + HistoryEvent list"
  so_Close :: "'s \<Rightarrow> error option \<times> 's"

end
