(* ===== verification/Sqlite.thy ===== *)
theory Sqlite
  imports Storage "HOL-Library.Product_Lexorder"
begin

text \<open>
  The SQLite store, \<open>internal/storage/sqlite\<close>. The database is its tables; a table is the list of
  its rows, a row a record with the columns of \<open>migrate.go\<close>, and every SQL statement of the package
  is the function on rows that it denotes. The columns of Go strings, numbers and booleans hold these
  values (\<open>State\<close> and \<open>ExchangeKind\<close> are Go strings). A timestamp column holds what \<open>formatTime\<close>
  writes and a headers column what \<open>encodeHeaders\<close> writes: both are fields of a \<open>codec\<close>, the first
  argument of every operation, so that a statement compares and sorts the encoded values as the
  database does. The engine's theorems use the codec that keeps the values as they are; the
  theory \<open>SqliteText\<close> relates it to the text of the real columns.

  The driver and the engine behind it are not part of the repository. What they answer is the
  argument \<open>io\<close>: for each call that an operation makes of \<open>database/sql\<close>, the error it returns, or
  \<open>None\<close> when it works. A statement that fails changes nothing, and a transaction that is not
  committed, or whose commit fails, leaves the database as it was. A closed database answers every
  call with an error.
\<close>

section \<open>The database\<close>

record ('t, 'h) codec =
  cd_formatTime :: "time \<Rightarrow> 't"
  cd_parseTime :: "'t \<Rightarrow> error + time"
  cd_encodeHeaders :: "Headers \<Rightarrow> error + 'h"
  cd_decodeHeaders :: "'h \<Rightarrow> error + Headers"

record 't exchange_row =
  xr_name :: string
  xr_kind :: ExchangeKind
  xr_durable :: bool
  xr_created_at :: 't

record 't queue_row =
  qr_name :: string
  qr_durable :: bool
  qr_max_attempts :: int
  qr_visibility_timeout_ms :: int
  qr_schema_name :: string
  qr_created_at :: 't

record 't binding_row =
  br_exchange :: string
  br_queue :: string
  br_routing_key :: string
  br_created_at :: 't

record ('t, 'h) message_row =
  mr_seq :: int
  mr_id :: string
  mr_queue :: string
  mr_exchange :: string
  mr_routing_key :: string
  mr_schema_name :: string
  mr_payload :: string
  mr_headers :: 'h
  mr_state :: State
  mr_attempts :: int
  mr_max_attempts :: int
  mr_last_error :: string
  mr_created_at :: 't
  mr_updated_at :: 't
  mr_available_at :: 't
  mr_lease_expires_at :: "'t option" \<comment> \<open>\<open>None\<close> is \<open>NULL\<close>\<close>
  mr_consumer :: string

record ('t, 'h) dead_row =
  dr_id :: string
  dr_message_id :: string
  dr_queue :: string
  dr_exchange :: string
  dr_routing_key :: string
  dr_schema_name :: string
  dr_payload :: string
  dr_headers :: 'h
  dr_reason :: string
  dr_error_kind :: string
  dr_attempts :: int
  dr_published_at :: 't
  dr_first_failed_at :: 't
  dr_dead_lettered_at :: 't
  dr_replayed_as :: string
  dr_replayed_at :: 't
  dr_replay_count :: int

record 't history_row =
  hr_id :: int
  hr_message_id :: string
  hr_queue :: string
  hr_from_state :: State
  hr_to_state :: State
  hr_consumer :: string
  hr_detail :: string
  hr_at :: 't

text \<open>The two counters are the values that \<open>AUTOINCREMENT\<close> handed out last.\<close>

record ('t, 'h) Database =
  db_open :: bool
  db_exchanges :: "'t exchange_row list"
  db_queues :: "'t queue_row list"
  db_bindings :: "'t binding_row list"
  db_messages :: "('t, 'h) message_row list"
  db_message_seq :: int
  db_dead_letters :: "('t, 'h) dead_row list"
  db_history :: "'t history_row list"
  db_history_seq :: int

definition empty_database :: "('t, 'h) Database" where
  "empty_database =
    \<lparr> db_open = True, db_exchanges = [], db_queues = [], db_bindings = [], db_messages = [],
      db_message_seq = 0, db_dead_letters = [], db_history = [], db_history_seq = 0 \<rparr>"

section \<open>The driver\<close>

datatype db_call =
    DbBegin | DbPrepare | DbExec nat | DbQuery nat | DbScan nat | DbRows | DbAffected | DbCommit | DbClose

type_synonym driver = "db_call \<Rightarrow> error option"

definition db_answer :: "driver \<Rightarrow> ('t, 'h) Database \<Rightarrow> db_call \<Rightarrow> error option" where
  "db_answer io s call = (if db_open s then io call else Some (ErrNew ''sql: database is closed''))"

text \<open>One call, and what follows when it works.\<close>

definition db_then :: "driver \<Rightarrow> ('t, 'h) Database \<Rightarrow> db_call \<Rightarrow> (error + 'b) \<Rightarrow> error + 'b" where
  "db_then io s call next = (case db_answer io s call of Some err \<Rightarrow> Inl err | None \<Rightarrow> next)"

text \<open>\<open>fmt.Errorf(prefix: %w)\<close> around the error of a call.\<close>

definition wrap :: "string \<Rightarrow> error + 'b \<Rightarrow> error + 'b" where
  "wrap pre r = (case r of Inl err \<Rightarrow> Inl (ErrWrap pre err) | Inr x \<Rightarrow> Inr x)"

definition bind_sum :: "error + 'a \<Rightarrow> ('a \<Rightarrow> error + 'b) \<Rightarrow> error + 'b" where
  "bind_sum r f = (case r of Inl err \<Rightarrow> Inl err | Inr x \<Rightarrow> f x)"

text \<open>A transaction: \<open>Begin\<close>, the body on a copy, \<open>Commit\<close>. The deferred \<open>Rollback\<close> drops the copy
  on every other way out.\<close>

definition transaction ::
  "driver \<Rightarrow> ('t, 'h) Database \<Rightarrow> string \<Rightarrow> string \<Rightarrow> (error + 'b \<times> ('t, 'h) Database) \<Rightarrow>
    (error + 'b) \<times> ('t, 'h) Database" where
  "transaction io s begins commits body =
    (case wrap begins (db_then io s DbBegin (Inr ())) of
       Inl err \<Rightarrow> (Inl err, s)
     | Inr _ \<Rightarrow> (case body of
         Inl err \<Rightarrow> (Inl err, s)
       | Inr (x, tx) \<Rightarrow> (case db_answer io s DbCommit of
           Some err \<Rightarrow> (Inl (if commits = [] then err else ErrWrap commits err), s)
         | None \<Rightarrow> (Inr x, tx))))"

definition err_of :: "(error + 'b) \<times> 's \<Rightarrow> error option \<times> 's" where
  "err_of r = apfst (\<lambda>x. case x of Inl err \<Rightarrow> Some err | Inr _ \<Rightarrow> None) r"

text \<open>A statement outside a transaction: its effect, or its error and no effect.\<close>

definition autocommit ::
  "('t, 'h) Database \<Rightarrow> (error + 'b \<times> ('t, 'h) Database) \<Rightarrow> (error + 'b) \<times> ('t, 'h) Database" where
  "autocommit s r = (case r of Inl err \<Rightarrow> (Inl err, s) | Inr (x, s') \<Rightarrow> (Inr x, s'))"

text \<open>\<open>LIMIT n\<close>: a negative number is no limit.\<close>

definition sql_limit :: "int \<Rightarrow> 'a list \<Rightarrow> 'a list" where
  "sql_limit n rows = (if n < 0 then rows else take (nat n) rows)"

text \<open>\<open>isUniqueViolation\<close> of \<open>errors.go\<close>. \<open>errors.As\<close> finds the driver's error in the chain.\<close>

definition codeConstraintUnique :: int where "codeConstraintUnique = 2067"
definition codeConstraintPrimary :: int where "codeConstraintPrimary = 1555"

fun as_driver_error :: "error \<Rightarrow> int option" where
  "as_driver_error (SqliteError code s) = Some code"
| "as_driver_error (PermanentError e) = as_driver_error e"
| "as_driver_error (ErrWrap s e) = as_driver_error e"
| "as_driver_error e = None"

definition strings_Contains :: "string \<Rightarrow> string \<Rightarrow> bool" where
  "strings_Contains s sub = sublist sub s"

definition isUniqueViolation :: "error \<Rightarrow> bool" where
  "isUniqueViolation err =
    ((case as_driver_error err of
        Some code \<Rightarrow> code = codeConstraintUnique \<or> code = codeConstraintPrimary
      | None \<Rightarrow> False) \<or>
     strings_Contains (error_text err) ''UNIQUE constraint failed'')"

definition translateNoRows :: "error \<Rightarrow> error" where
  "translateNoRows err = (if errors_Is err ErrNoRows then ErrNotFound else err)"

text \<open>\<open>QueryRow(...).Scan\<close>: the first row, or \<open>sql.ErrNoRows\<close>.\<close>

definition query_row ::
  "driver \<Rightarrow> ('t, 'h) Database \<Rightarrow> nat \<Rightarrow> 'r list \<Rightarrow> ('r \<Rightarrow> error + 'b) \<Rightarrow> error + 'b" where
  "query_row io s k rows scan =
    db_then io s (DbQuery k) (case rows of [] \<Rightarrow> Inl ErrNoRows | r # _ \<Rightarrow> db_then io s (DbScan k) (scan r))"

text \<open>The loop over \<open>rows.Next()\<close>: row \<open>k\<close> is scanned, and \<open>rows.Err()\<close> is asked at the end.\<close>

fun scan_rows :: "driver \<Rightarrow> ('t, 'h) Database \<Rightarrow> (nat \<Rightarrow> 'r \<Rightarrow> error + 'b) \<Rightarrow> nat \<Rightarrow> 'r list \<Rightarrow> error + 'b list" where
  "scan_rows io s scan k [] = db_then io s DbRows (Inr [])"
| "scan_rows io s scan k (r # rs) =
    bind_sum (scan k r) (\<lambda>x. map_sum_ok ((#) x) (scan_rows io s scan (Suc k) rs))"

section \<open>Messages\<close>

definition scanMessage ::
  "('t, 'h) codec \<Rightarrow> driver \<Rightarrow> ('t, 'h) Database \<Rightarrow> nat \<Rightarrow> ('t, 'h) message_row \<Rightarrow> error + Message" where
  "scanMessage c io s k r =
    db_then io s (DbScan k)
      (bind_sum (cd_decodeHeaders c (mr_headers r)) (\<lambda>headers.
       bind_sum (cd_parseTime c (mr_created_at r)) (\<lambda>created.
       bind_sum (cd_parseTime c (mr_updated_at r)) (\<lambda>updated.
       bind_sum (cd_parseTime c (mr_available_at r)) (\<lambda>available.
         Inr \<lparr> msg_ID = mr_id r, msg_Exchange = mr_exchange r, msg_RoutingKey = mr_routing_key r,
               msg_Queue = mr_queue r, msg_Schema = mr_schema_name r, msg_Payload = mr_payload r,
               msg_Headers = headers, msg_State = mr_state r, msg_Attempts = mr_attempts r,
               msg_MaxAttempts = mr_max_attempts r, msg_LastError = mr_last_error r,
               msg_CreatedAt = created, msg_UpdatedAt = updated, msg_AvailableAt = available \<rparr>)))))"

definition scanMessages ::
  "('t, 'h) codec \<Rightarrow> driver \<Rightarrow> ('t, 'h) Database \<Rightarrow> ('t, 'h) message_row list \<Rightarrow> error + Message list" where
  "scanMessages c io s rows =
    scan_rows io s (\<lambda>k r. wrap ''sqlite: scan message: '' (scanMessage c io s k r)) 0 rows"

definition message_rows :: "('t, 'h) Database \<Rightarrow> string \<Rightarrow> ('t, 'h) message_row list" where
  "message_rows s mid = filter (\<lambda>r. mr_id r = mid) (db_messages s)"

text \<open>\<open>scanMessage\<close> calls \<open>row.Scan\<close> itself, so a single row needs no other.\<close>

definition loadMessage ::
  "('t, 'h) codec \<Rightarrow> driver \<Rightarrow> ('t, 'h) Database \<Rightarrow> string \<Rightarrow> error + Message" where
  "loadMessage c io s mid =
    (case db_then io s (DbQuery 0)
        (case message_rows s mid of [] \<Rightarrow> Inl ErrNoRows | r # _ \<Rightarrow> scanMessage c io s 0 r) of
       Inl err \<Rightarrow> Inl (translateNoRows err)
     | Inr m \<Rightarrow> Inr m)"

definition sqlite_Message ::
  "('t, 'h) codec \<Rightarrow> driver \<Rightarrow> ('t, 'h) Database \<Rightarrow> string \<Rightarrow> error + Message" where
  "sqlite_Message c io s mid =
    (case db_then io s (DbQuery 0)
        (case message_rows s mid of [] \<Rightarrow> Inl ErrNoRows | r # _ \<Rightarrow> scanMessage c io s 0 r) of
       Inl err \<Rightarrow> Inl (translateNoRows err)
     | Inr m \<Rightarrow> Inr m)"

text \<open>\<open>INSERT INTO messages\<close>: the columns that the statement does not name get their defaults.\<close>

definition insert_message ::
  "('t, 'h) codec \<Rightarrow> driver \<Rightarrow> nat \<Rightarrow> ('t, 'h) Database \<Rightarrow> Message \<Rightarrow> 'h \<Rightarrow> error + ('t, 'h) Database" where
  "insert_message c io k s m headers =
    db_then io s (DbExec k)
      (if list_ex (\<lambda>r. mr_id r = msg_ID m) (db_messages s)
       then Inl (SqliteError codeConstraintUnique
              ''constraint failed: UNIQUE constraint failed: messages.id (2067)'')
       else Inr (s\<lparr> db_messages := db_messages s @
              [\<lparr> mr_seq = db_message_seq s + 1, mr_id = msg_ID m, mr_queue = msg_Queue m,
                 mr_exchange = msg_Exchange m, mr_routing_key = msg_RoutingKey m,
                 mr_schema_name = msg_Schema m, mr_payload = msg_Payload m, mr_headers = headers,
                 mr_state = msg_State m, mr_attempts = msg_Attempts m,
                 mr_max_attempts = msg_MaxAttempts m, mr_last_error = msg_LastError m,
                 mr_created_at = cd_formatTime c (msg_CreatedAt m),
                 mr_updated_at = cd_formatTime c (msg_UpdatedAt m),
                 mr_available_at = cd_formatTime c (msg_AvailableAt m),
                 mr_lease_expires_at = None, mr_consumer = [] \<rparr>],
            db_message_seq := db_message_seq s + 1 \<rparr>))"

text \<open>The loop of \<open>Append\<close>.\<close>

fun append_rows ::
  "('t, 'h) codec \<Rightarrow> driver \<Rightarrow> nat \<Rightarrow> ('t, 'h) Database \<Rightarrow> Message list \<Rightarrow> error + ('t, 'h) Database" where
  "append_rows c io k s [] = Inr s"
| "append_rows c io k s (m # ms) =
    bind_sum (cd_encodeHeaders c (msg_Headers m)) (\<lambda>headers.
      case insert_message c io k s m headers of
        Inl err \<Rightarrow> Inl (if isUniqueViolation err then ErrConflict
                      else ErrWrap (''sqlite: append message '' @ msg_ID m @ '': '') err)
      | Inr s' \<Rightarrow> append_rows c io (Suc k) s' ms)"

definition sqlite_Append ::
  "('t, 'h) codec \<Rightarrow> driver \<Rightarrow> ('t, 'h) Database \<Rightarrow> Message list \<Rightarrow> error option \<times> ('t, 'h) Database" where
  "sqlite_Append c io s messages =
    (if messages = [] then (None, s)
     else err_of (transaction io s ''sqlite: append messages: '' []
       (bind_sum (wrap ''sqlite: prepare append: '' (db_then io s DbPrepare (Inr ()))) (\<lambda>_.
          map_sum_ok (\<lambda>tx. ((), tx)) (append_rows c io 0 s messages)))))"

text \<open>\<open>SELECT COUNT(*) FROM queues WHERE name = ?\<close>\<close>

definition count_queues :: "driver \<Rightarrow> ('t, 'h) Database \<Rightarrow> string \<Rightarrow> error + int" where
  "count_queues io s queue =
    query_row io s 0 [int (length (filter (\<lambda>r. qr_name r = queue) (db_queues s)))] Inr"

text \<open>\<open>SELECT state, COUNT( * ) ... GROUP BY state\<close>, and the switch over one of its rows.\<close>

definition state_counts :: "('t, 'h) Database \<Rightarrow> string \<Rightarrow> (State \<times> int) list" where
  "state_counts s queue =
    (let states = map mr_state (filter (\<lambda>r. mr_queue r = queue) (db_messages s))
     in map (\<lambda>st. (st, int (length (filter (\<lambda>x. x = st) states)))) (remdups states))"

definition depth_add :: "State \<times> int \<Rightarrow> Depth \<Rightarrow> Depth" where
  "depth_add row depth =
    (case row of (state, n) \<Rightarrow>
       (case state of
          StateQueued \<Rightarrow> depth\<lparr>d_Ready := d_Ready depth + n\<rparr>
        | StateProcessing \<Rightarrow> depth\<lparr>d_InFlight := d_InFlight depth + n\<rparr>
        | StateRetrying \<Rightarrow> depth\<lparr>d_Scheduled := d_Scheduled depth + n\<rparr>
        | StateFailed \<Rightarrow> depth\<lparr>d_Scheduled := d_Scheduled depth + n\<rparr>
        | _ \<Rightarrow> depth))"

definition sqlite_Depth :: "driver \<Rightarrow> ('t, 'h) Database \<Rightarrow> string \<Rightarrow> error + Depth" where
  "sqlite_Depth io s queue =
    bind_sum (wrap (''sqlite: depth '' @ queue @ '': '') (count_queues io s queue)) (\<lambda>exists.
      if exists = 0 then Inl ErrNotFound
      else bind_sum (wrap (''sqlite: depth '' @ queue @ '': '') (db_then io s (DbQuery 1) (Inr ()))) (\<lambda>_.
        bind_sum (scan_rows io s (\<lambda>k row. wrap ''sqlite: scan depth: '' (db_then io s (DbScan (Suc k)) (Inr row)))
            0 (state_counts s queue)) (\<lambda>rows.
          let depth = fold depth_add rows \<lparr>d_Ready = 0, d_InFlight = 0, d_Scheduled = 0, d_Total = 0\<rparr>
          in Inr (depth\<lparr>d_Total := d_Ready depth + d_InFlight depth + d_Scheduled depth\<rparr>))))"

definition sqlite_Purge :: "driver \<Rightarrow> ('t, 'h) Database \<Rightarrow> string \<Rightarrow> (error + int) \<times> ('t, 'h) Database" where
  "sqlite_Purge io s queue =
    (let pre = ''sqlite: purge '' @ queue @ '': '';
         gone = (\<lambda>r. mr_queue r = queue \<and> mr_state r \<notin> {StateAcknowledged, StateDeadLettered})
     in case wrap pre (count_queues io s queue) of
          Inl err \<Rightarrow> (Inl err, s)
        | Inr exists \<Rightarrow>
            if exists = 0 then (Inl ErrNotFound, s)
            else case wrap pre (db_then io s (DbExec 0) (Inr ())) of
              Inl err \<Rightarrow> (Inl err, s)
            | Inr _ \<Rightarrow>
                let s' = s\<lparr>db_messages := filter (\<lambda>r. \<not> gone r) (db_messages s)\<rparr>
                in (wrap pre (db_then io s DbAffected
                      (Inr (int (length (filter gone (db_messages s)))))), s'))"

section \<open>Leases\<close>

text \<open>\<open>UPDATE messages SET ... WHERE id = ?\<close>\<close>

definition update_message ::
  "driver \<Rightarrow> nat \<Rightarrow> ('t, 'h) Database \<Rightarrow> string \<Rightarrow> (('t, 'h) message_row \<Rightarrow> ('t, 'h) message_row) \<Rightarrow>
    error + ('t, 'h) Database" where
  "update_message io k s mid f =
    db_then io s (DbExec k)
      (Inr (s\<lparr>db_messages := map (\<lambda>r. if mr_id r = mid then f r else r) (db_messages s)\<rparr>))"

definition claim_candidates ::
  "('t::linorder, 'h) codec \<Rightarrow> ('t, 'h) Database \<Rightarrow> ClaimRequest \<Rightarrow> ('t, 'h) message_row list" where
  "claim_candidates c s req =
    sql_limit (cr_Limit req) (sort_key (\<lambda>r. (mr_available_at r, mr_seq r))
      (filter (\<lambda>r. mr_queue r = cr_Queue req \<and> mr_state r \<in> {StateQueued, StateRetrying} \<and>
                   mr_available_at r \<le> cd_formatTime c (cr_Now req))
        (db_messages s)))"

text \<open>The loop of \<open>Claim\<close> over the candidates.\<close>

fun claim_rows ::
  "('t, 'h) codec \<Rightarrow> driver \<Rightarrow> ClaimRequest \<Rightarrow> nat \<Rightarrow> ('t, 'h) Database \<Rightarrow> Message list \<Rightarrow> Message list \<Rightarrow>
    error + Message list \<times> ('t, 'h) Database" where
  "claim_rows c io req k tx [] claimed = Inr (claimed, tx)"
| "claim_rows c io req k tx (m # ms) claimed =
    bind_sum (if msg_State m = StateRetrying then Transition m StateQueued (cr_Now req) else Inr m) (\<lambda>m1.
    bind_sum (Transition m1 StateProcessing (cr_Now req)) (\<lambda>m2.
      let m3 = m2\<lparr>msg_Attempts := msg_Attempts m2 + 1\<rparr> in
      bind_sum (wrap (''sqlite: lease message '' @ msg_ID m3 @ '': '')
        (update_message io k tx (msg_ID m3) (\<lambda>r. r\<lparr>
           mr_state := msg_State m3, mr_attempts := msg_Attempts m3,
           mr_updated_at := cd_formatTime c (msg_UpdatedAt m3),
           mr_lease_expires_at := Some (cd_formatTime c (cr_Now req + cr_Lease req)),
           mr_consumer := cr_Consumer req \<rparr>))) (\<lambda>tx.
        claim_rows c io req (Suc k) tx ms (claimed @ [m3]))))"

definition sqlite_Claim ::
  "('t::linorder, 'h) codec \<Rightarrow> driver \<Rightarrow> ('t, 'h) Database \<Rightarrow> ClaimRequest \<Rightarrow>
    (error + Message list) \<times> ('t, 'h) Database" where
  "sqlite_Claim c io s req =
    (if cr_Limit req \<le> 0 then (Inr [], s)
     else transaction io s ''sqlite: claim: '' ''sqlite: commit claim: ''
       (bind_sum (wrap (''sqlite: claim '' @ cr_Queue req @ '': '')
          (db_then io s (DbQuery 0) (Inr (claim_candidates c s req)))) (\<lambda>rows.
        bind_sum (scanMessages c io s rows) (\<lambda>candidates.
          claim_rows c io req 0 s candidates []))))"

definition transitionLeased ::
  "('t, 'h) codec \<Rightarrow> driver \<Rightarrow> ('t, 'h) Database \<Rightarrow> string \<Rightarrow>
    (('t, 'h) Database \<Rightarrow> Message \<Rightarrow> error + ('t, 'h) Database) \<Rightarrow> error option \<times> ('t, 'h) Database" where
  "transitionLeased c io s mid apply' =
    err_of (transaction io s (''sqlite: update message '' @ mid @ '': '') []
      (bind_sum (loadMessage c io s mid) (\<lambda>m.
        if msg_State m \<noteq> StateProcessing then Inl (StateError mid StateProcessing (msg_State m))
        else bind_sum (wrap (''sqlite: update message '' @ mid @ '': '') (apply' s m)) (\<lambda>tx. Inr ((), tx)))))"

definition sqlite_Acknowledge ::
  "('t, 'h) codec \<Rightarrow> driver \<Rightarrow> ('t, 'h) Database \<Rightarrow> string \<Rightarrow> time \<Rightarrow> error option \<times> ('t, 'h) Database" where
  "sqlite_Acknowledge c io s mid at =
    transitionLeased c io s mid (\<lambda>tx m.
      bind_sum (Transition m StateAcknowledged at) (\<lambda>m.
        update_message io 0 tx (msg_ID m) (\<lambda>r. r\<lparr>
          mr_state := msg_State m, mr_updated_at := cd_formatTime c (msg_UpdatedAt m),
          mr_lease_expires_at := None, mr_consumer := [] \<rparr>)))"

definition sqlite_ScheduleRetry ::
  "('t, 'h) codec \<Rightarrow> driver \<Rightarrow> ('t, 'h) Database \<Rightarrow> RetryRequest \<Rightarrow> error option \<times> ('t, 'h) Database" where
  "sqlite_ScheduleRetry c io s req =
    transitionLeased c io s (rr_ID req) (\<lambda>tx m.
      bind_sum (Transition m StateFailed (rr_Now req)) (\<lambda>m.
      bind_sum (Transition m StateRetrying (rr_Now req)) (\<lambda>m.
        update_message io 0 tx (msg_ID m) (\<lambda>r. r\<lparr>
          mr_state := msg_State m, mr_updated_at := cd_formatTime c (msg_UpdatedAt m),
          mr_available_at := cd_formatTime c (rr_AvailableAt req), mr_last_error := rr_Reason req,
          mr_lease_expires_at := None, mr_consumer := [] \<rparr>))))"

definition sqlite_Release ::
  "('t, 'h) codec \<Rightarrow> driver \<Rightarrow> ('t, 'h) Database \<Rightarrow> string \<Rightarrow> time \<Rightarrow> error option \<times> ('t, 'h) Database" where
  "sqlite_Release c io s mid at =
    transitionLeased c io s mid (\<lambda>tx m.
      bind_sum (Transition m StateQueued at) (\<lambda>m.
        update_message io 0 tx (msg_ID m) (\<lambda>r. r\<lparr>
          mr_state := msg_State m, mr_updated_at := cd_formatTime c (msg_UpdatedAt m),
          mr_available_at := cd_formatTime c at, mr_lease_expires_at := None, mr_consumer := [] \<rparr>)))"

definition sqlite_MarkDeadLettered ::
  "('t, 'h) codec \<Rightarrow> driver \<Rightarrow> ('t, 'h) Database \<Rightarrow> string \<Rightarrow> string \<Rightarrow> time \<Rightarrow>
    error option \<times> ('t, 'h) Database" where
  "sqlite_MarkDeadLettered c io s mid reason at =
    err_of (transaction io s (''sqlite: dead letter '' @ mid @ '': '') []
      (bind_sum (loadMessage c io s mid) (\<lambda>m.
       bind_sum (if msg_State m = StateProcessing then Transition m StateFailed at else Inr m) (\<lambda>m.
       bind_sum (Transition m StateDeadLettered at) (\<lambda>m.
       bind_sum (wrap (''sqlite: dead letter '' @ mid @ '': '')
         (update_message io 0 s (msg_ID m) (\<lambda>r. r\<lparr>
            mr_state := msg_State m, mr_updated_at := cd_formatTime c (msg_UpdatedAt m),
            mr_last_error := reason, mr_lease_expires_at := None, mr_consumer := [] \<rparr>))) (\<lambda>tx.
         Inr ((), tx)))))))"

definition sqlite_ExpiredLeases ::
  "('t::linorder, 'h) codec \<Rightarrow> driver \<Rightarrow> ('t, 'h) Database \<Rightarrow> time \<Rightarrow> int \<Rightarrow> error + Message list" where
  "sqlite_ExpiredLeases c io s now limit =
    (let limit = (if limit \<le> 0 then -1 else limit);
         rows = sql_limit limit (sort_key mr_seq
           (filter (\<lambda>r. mr_state r = StateProcessing \<and>
              (case mr_lease_expires_at r of None \<Rightarrow> False | Some lease \<Rightarrow> lease \<le> cd_formatTime c now))
             (db_messages s)))
     in bind_sum (wrap ''sqlite: read expired leases: '' (db_then io s (DbQuery 0) (Inr rows)))
          (\<lambda>rows. scanMessages c io s rows))"

section \<open>Dead letters\<close>

text \<open>\<open>fresh\<close> is the identifier that \<open>message.NewID\<close> would deliver.\<close>

definition sqlite_SaveDeadLetter ::
  "('t, 'h) codec \<Rightarrow> driver \<Rightarrow> ('t, 'h) Database \<Rightarrow> DeadLetter \<Rightarrow> string \<Rightarrow>
    (error + DeadLetter) \<times> ('t, 'h) Database" where
  "sqlite_SaveDeadLetter c io s entry fresh =
    (let entry = (if dl_ID entry = [] then entry\<lparr>dl_ID := fresh\<rparr> else entry) in
     autocommit s (bind_sum (cd_encodeHeaders c (dl_Headers entry)) (\<lambda>headers.
       case db_then io s (DbExec 0)
         (if list_ex (\<lambda>r. dr_id r = dl_ID entry) (db_dead_letters s)
          then Inl (SqliteError codeConstraintPrimary
                 ''constraint failed: UNIQUE constraint failed: dead_letters.id (1555)'')
          else Inr (s\<lparr>db_dead_letters := db_dead_letters s @
            [\<lparr> dr_id = dl_ID entry, dr_message_id = dl_MessageID entry, dr_queue = dl_Queue entry,
               dr_exchange = dl_Exchange entry, dr_routing_key = dl_RoutingKey entry,
               dr_schema_name = dl_Schema entry, dr_payload = dl_Payload entry, dr_headers = headers,
               dr_reason = dl_Reason entry, dr_error_kind = dl_ErrorKind entry,
               dr_attempts = dl_Attempts entry,
               dr_published_at = cd_formatTime c (dl_PublishedAt entry),
               dr_first_failed_at = cd_formatTime c (dl_FirstFailedAt entry),
               dr_dead_lettered_at = cd_formatTime c (dl_DeadLetteredAt entry),
               dr_replayed_as = dl_ReplayedAs entry,
               dr_replayed_at = cd_formatTime c (dl_ReplayedAt entry),
               dr_replay_count = dl_ReplayCount entry \<rparr>]\<rparr>)) of
         Inl err \<Rightarrow> Inl (if isUniqueViolation err then ErrConflict
                       else ErrWrap (''sqlite: save dead letter '' @ dl_ID entry @ '': '') err)
       | Inr s' \<Rightarrow> Inr (entry, s'))))"

definition scanDeadLetter ::
  "('t, 'h) codec \<Rightarrow> driver \<Rightarrow> ('t, 'h) Database \<Rightarrow> nat \<Rightarrow> ('t, 'h) dead_row \<Rightarrow> error + DeadLetter" where
  "scanDeadLetter c io s k r =
    db_then io s (DbScan k)
      (bind_sum (cd_decodeHeaders c (dr_headers r)) (\<lambda>headers.
       bind_sum (cd_parseTime c (dr_published_at r)) (\<lambda>published.
       bind_sum (cd_parseTime c (dr_first_failed_at r)) (\<lambda>first.
       bind_sum (cd_parseTime c (dr_dead_lettered_at r)) (\<lambda>dead.
       bind_sum (cd_parseTime c (dr_replayed_at r)) (\<lambda>replayed.
         Inr \<lparr> dl_ID = dr_id r, dl_MessageID = dr_message_id r, dl_Queue = dr_queue r,
               dl_Exchange = dr_exchange r, dl_RoutingKey = dr_routing_key r,
               dl_Schema = dr_schema_name r, dl_Payload = dr_payload r, dl_Headers = headers,
               dl_Reason = dr_reason r, dl_ErrorKind = dr_error_kind r, dl_Attempts = dr_attempts r,
               dl_PublishedAt = published, dl_FirstFailedAt = first, dl_DeadLetteredAt = dead,
               dl_ReplayedAs = dr_replayed_as r, dl_ReplayedAt = replayed,
               dl_ReplayCount = dr_replay_count r \<rparr>))))))"

text \<open>\<open>ORDER BY dead_lettered_at DESC, id DESC LIMIT ? OFFSET ?\<close>; identifiers are unique, so the
  reversed ascending order is the descending one.\<close>

definition sqlite_DeadLetters ::
  "('t::linorder, 'h) codec \<Rightarrow> driver \<Rightarrow> ('t, 'h) Database \<Rightarrow> DeadLetterFilter \<Rightarrow> error + DeadLetter list" where
  "sqlite_DeadLetters c io s filter' =
    (let f = Normalise filter';
         rows = (if df_Queue f \<noteq> [] then filter (\<lambda>r. dr_queue r = df_Queue f) (db_dead_letters s)
                 else db_dead_letters s);
         rows = rev (sort_key (\<lambda>r. (dr_dead_lettered_at r, dr_id r)) rows);
         rows = sql_limit (df_Limit f) (drop (nat (df_Offset f)) rows)
     in bind_sum (wrap ''sqlite: list dead letters: '' (db_then io s (DbQuery 0) (Inr rows)))
          (\<lambda>rows. scan_rows io s (scanDeadLetter c io s) 0 rows))"

definition sqlite_DeadLetter ::
  "('t, 'h) codec \<Rightarrow> driver \<Rightarrow> ('t, 'h) Database \<Rightarrow> string \<Rightarrow> error + DeadLetter" where
  "sqlite_DeadLetter c io s did =
    (case db_then io s (DbQuery 0)
        (case filter (\<lambda>r. dr_id r = did) (db_dead_letters s) of
           [] \<Rightarrow> Inl ErrNoRows | r # _ \<Rightarrow> scanDeadLetter c io s 0 r) of
       Inl err \<Rightarrow> Inl (translateNoRows err)
     | Inr entry \<Rightarrow> Inr entry)"

text \<open>A statement whose \<open>RowsAffected\<close> decides between success and \<open>ErrNotFound\<close>.\<close>

definition exec_affecting ::
  "driver \<Rightarrow> ('t, 'h) Database \<Rightarrow> string \<Rightarrow> int \<Rightarrow> ('t, 'h) Database \<Rightarrow> error option \<times> ('t, 'h) Database" where
  "exec_affecting io s pre affected s' =
    (case db_answer io s (DbExec 0) of
       Some err \<Rightarrow> (Some (ErrWrap pre err), s)
     | None \<Rightarrow> (case db_answer io s DbAffected of
         Some err \<Rightarrow> (Some (ErrWrap pre err), s')
       | None \<Rightarrow> (if affected = 0 then Some ErrNotFound else None, s')))"

definition sqlite_MarkDeadLetterReplayed ::
  "('t, 'h) codec \<Rightarrow> driver \<Rightarrow> ('t, 'h) Database \<Rightarrow> string \<Rightarrow> string \<Rightarrow> time \<Rightarrow>
    error option \<times> ('t, 'h) Database" where
  "sqlite_MarkDeadLetterReplayed c io s did replayedAs at =
    exec_affecting io s (''sqlite: mark dead letter replayed '' @ did @ '': '')
      (int (length (filter (\<lambda>r. dr_id r = did) (db_dead_letters s))))
      (s\<lparr>db_dead_letters := map (\<lambda>r. if dr_id r = did
           then r\<lparr> dr_replayed_as := replayedAs, dr_replayed_at := cd_formatTime c at,
                   dr_replay_count := dr_replay_count r + 1 \<rparr>
           else r) (db_dead_letters s)\<rparr>)"

definition sqlite_DeleteDeadLetter ::
  "driver \<Rightarrow> ('t, 'h) Database \<Rightarrow> string \<Rightarrow> error option \<times> ('t, 'h) Database" where
  "sqlite_DeleteDeadLetter io s did =
    exec_affecting io s (''sqlite: delete dead letter '' @ did @ '': '')
      (int (length (filter (\<lambda>r. dr_id r = did) (db_dead_letters s))))
      (s\<lparr>db_dead_letters := filter (\<lambda>r. dr_id r \<noteq> did) (db_dead_letters s)\<rparr>)"

definition sqlite_CountDeadLetters :: "driver \<Rightarrow> ('t, 'h) Database \<Rightarrow> string \<Rightarrow> error + int" where
  "sqlite_CountDeadLetters io s queue =
    wrap ''sqlite: count dead letters: '' (query_row io s 0
      [int (length (if queue \<noteq> [] then filter (\<lambda>r. dr_queue r = queue) (db_dead_letters s)
                    else db_dead_letters s))] Inr)"

section \<open>History\<close>

definition sqlite_AppendHistory ::
  "('t, 'h) codec \<Rightarrow> driver \<Rightarrow> ('t, 'h) Database \<Rightarrow> HistoryEvent \<Rightarrow> error option \<times> ('t, 'h) Database" where
  "sqlite_AppendHistory c io s event =
    err_of (autocommit s (wrap (''sqlite: append history for '' @ he_MessageID event @ '': '')
      (db_then io s (DbExec 0) (Inr ((), s\<lparr> db_history := db_history s @
         [\<lparr> hr_id = db_history_seq s + 1, hr_message_id = he_MessageID event, hr_queue = he_Queue event,
            hr_from_state = he_From event, hr_to_state = he_To event, hr_consumer = he_Consumer event,
            hr_detail = he_Detail event, hr_at = cd_formatTime c (he_At event) \<rparr>],
         db_history_seq := db_history_seq s + 1 \<rparr>)))))"

definition scan_history ::
  "('t, 'h) codec \<Rightarrow> driver \<Rightarrow> ('t, 'h) Database \<Rightarrow> nat \<Rightarrow> 't history_row \<Rightarrow> error + HistoryEvent" where
  "scan_history c io s k r =
    bind_sum (wrap ''sqlite: scan history: '' (db_then io s (DbScan k) (Inr ()))) (\<lambda>_.
    bind_sum (cd_parseTime c (hr_at r)) (\<lambda>at.
      Inr \<lparr> he_MessageID = hr_message_id r, he_Queue = hr_queue r, he_From = hr_from_state r,
            he_To = hr_to_state r, he_Consumer = hr_consumer r, he_Detail = hr_detail r, he_At = at \<rparr>))"

definition sqlite_History ::
  "('t, 'h) codec \<Rightarrow> driver \<Rightarrow> ('t, 'h) Database \<Rightarrow> string \<Rightarrow> error + HistoryEvent list" where
  "sqlite_History c io s mid =
    bind_sum (wrap (''sqlite: read history for '' @ mid @ '': '') (db_then io s (DbQuery 0)
        (Inr (sort_key hr_id (filter (\<lambda>r. hr_message_id r = mid) (db_history s))))))
      (\<lambda>rows. scan_rows io s (scan_history c io s) 0 rows)"

section \<open>Topology\<close>

text \<open>\<open>INSERT ... ON CONFLICT(name) DO UPDATE SET\<close>: an existing row keeps the columns that the
  statement does not set.\<close>

definition upsert :: "('r \<Rightarrow> bool) \<Rightarrow> ('r \<Rightarrow> 'r) \<Rightarrow> 'r \<Rightarrow> 'r list \<Rightarrow> 'r list" where
  "upsert conflicts change row rows =
    (if list_ex conflicts rows then map (\<lambda>r. if conflicts r then change r else r) rows else rows @ [row])"

definition sqlite_SaveExchange ::
  "('t, 'h) codec \<Rightarrow> driver \<Rightarrow> ('t, 'h) Database \<Rightarrow> Exchange \<Rightarrow> error option \<times> ('t, 'h) Database" where
  "sqlite_SaveExchange c io s exchange =
    (let spec = ex_Spec exchange in
     err_of (autocommit s (wrap (''sqlite: save exchange '' @ xs_Name spec @ '': '')
       (db_then io s (DbExec 0) (Inr ((), s\<lparr>db_exchanges :=
          upsert (\<lambda>r. xr_name r = xs_Name spec)
            (\<lambda>r. r\<lparr>xr_kind := xs_Kind spec, xr_durable := xs_Durable spec\<rparr>)
            \<lparr> xr_name = xs_Name spec, xr_kind = xs_Kind spec, xr_durable = xs_Durable spec,
              xr_created_at = cd_formatTime c (ex_CreatedAt exchange) \<rparr>
            (db_exchanges s)\<rparr>))))))"

definition scan_exchange ::
  "('t, 'h) codec \<Rightarrow> driver \<Rightarrow> ('t, 'h) Database \<Rightarrow> nat \<Rightarrow> 't exchange_row \<Rightarrow> error + Exchange" where
  "scan_exchange c io s k r =
    bind_sum (wrap ''sqlite: scan exchange: '' (db_then io s (DbScan k) (Inr ()))) (\<lambda>_.
    bind_sum (cd_parseTime c (xr_created_at r)) (\<lambda>created.
      Inr \<lparr> ex_Spec = \<lparr>xs_Name = xr_name r, xs_Kind = xr_kind r, xs_Durable = xr_durable r\<rparr>,
            ex_CreatedAt = created \<rparr>))"

definition sqlite_Exchanges ::
  "('t, 'h) codec \<Rightarrow> driver \<Rightarrow> ('t, 'h) Database \<Rightarrow> error + Exchange list" where
  "sqlite_Exchanges c io s =
    bind_sum (wrap ''sqlite: list exchanges: ''
        (db_then io s (DbQuery 0) (Inr (sort_key xr_name (db_exchanges s)))))
      (\<lambda>rows. scan_rows io s (scan_exchange c io s) 0 rows)"

text \<open>\<open>Duration.Milliseconds\<close>: the quotient is rounded towards zero.\<close>

definition Milliseconds :: "duration \<Rightarrow> int" where
  "Milliseconds d = sgn d * (\<bar>d\<bar> div millisecond)"

definition sqlite_SaveQueue ::
  "('t, 'h) codec \<Rightarrow> driver \<Rightarrow> ('t, 'h) Database \<Rightarrow> Queue \<Rightarrow> error option \<times> ('t, 'h) Database" where
  "sqlite_SaveQueue c io s queue =
    (let spec = q_Spec queue in
     err_of (autocommit s (wrap (''sqlite: save queue '' @ qs_Name spec @ '': '')
       (db_then io s (DbExec 0) (Inr ((), s\<lparr>db_queues :=
          upsert (\<lambda>r. qr_name r = qs_Name spec)
            (\<lambda>r. r\<lparr> qr_durable := qs_Durable spec, qr_max_attempts := qs_MaxAttempts spec,
                    qr_visibility_timeout_ms := Milliseconds (qs_VisibilityTimeout spec),
                    qr_schema_name := qs_Schema spec \<rparr>)
            \<lparr> qr_name = qs_Name spec, qr_durable = qs_Durable spec,
              qr_max_attempts = qs_MaxAttempts spec,
              qr_visibility_timeout_ms = Milliseconds (qs_VisibilityTimeout spec),
              qr_schema_name = qs_Schema spec,
              qr_created_at = cd_formatTime c (q_CreatedAt queue) \<rparr>
            (db_queues s)\<rparr>))))))"

definition scan_queue ::
  "('t, 'h) codec \<Rightarrow> driver \<Rightarrow> ('t, 'h) Database \<Rightarrow> nat \<Rightarrow> 't queue_row \<Rightarrow> error + Queue" where
  "scan_queue c io s k r =
    bind_sum (wrap ''sqlite: scan queue: '' (db_then io s (DbScan k) (Inr ()))) (\<lambda>_.
    bind_sum (cd_parseTime c (qr_created_at r)) (\<lambda>created.
      Inr \<lparr> q_Spec = \<lparr> qs_Name = qr_name r, qs_Durable = qr_durable r,
                       qs_MaxAttempts = qr_max_attempts r,
                       qs_VisibilityTimeout = qr_visibility_timeout_ms r * millisecond,
                       qs_Schema = qr_schema_name r \<rparr>,
            q_CreatedAt = created \<rparr>))"

definition sqlite_Queues ::
  "('t, 'h) codec \<Rightarrow> driver \<Rightarrow> ('t, 'h) Database \<Rightarrow> error + Queue list" where
  "sqlite_Queues c io s =
    bind_sum (wrap ''sqlite: list queues: ''
        (db_then io s (DbQuery 0) (Inr (sort_key qr_name (db_queues s)))))
      (\<lambda>rows. scan_rows io s (scan_queue c io s) 0 rows)"

definition sqlite_DeleteQueue ::
  "driver \<Rightarrow> ('t, 'h) Database \<Rightarrow> string \<Rightarrow> error option \<times> ('t, 'h) Database" where
  "sqlite_DeleteQueue io s name =
    (let pre = ''sqlite: delete queue '' @ name @ '': '' in
     err_of (transaction io s pre []
       (bind_sum (wrap pre (db_then io s (DbExec 0)
           (Inr (s\<lparr>db_queues := filter (\<lambda>r. qr_name r \<noteq> name) (db_queues s)\<rparr>)))) (\<lambda>tx.
        bind_sum (wrap pre (db_then io s DbAffected
           (Inr (length (filter (\<lambda>r. qr_name r = name) (db_queues s)))))) (\<lambda>affected.
          if affected = 0 then Inl ErrNotFound
          else wrap (''sqlite: delete queue messages '' @ name @ '': '') (db_then io s (DbExec 1)
            (Inr ((), tx\<lparr>db_messages := filter (\<lambda>r. mr_queue r \<noteq> name) (db_messages tx)\<rparr>))))))))"

definition sqlite_SaveBinding ::
  "('t, 'h) codec \<Rightarrow> driver \<Rightarrow> ('t, 'h) Database \<Rightarrow> Binding \<Rightarrow> error option \<times> ('t, 'h) Database" where
  "sqlite_SaveBinding c io s binding =
    (let spec = b_Spec binding in
     err_of (autocommit s (wrap ''sqlite: save binding: ''
       (db_then io s (DbExec 0) (Inr ((), s\<lparr>db_bindings :=
          upsert (\<lambda>r. br_exchange r = bs_Exchange spec \<and> br_queue r = bs_Queue spec \<and>
                      br_routing_key r = bs_RoutingKey spec)
            (\<lambda>r. r)
            \<lparr> br_exchange = bs_Exchange spec, br_queue = bs_Queue spec,
              br_routing_key = bs_RoutingKey spec,
              br_created_at = cd_formatTime c (b_CreatedAt binding) \<rparr>
            (db_bindings s)\<rparr>))))))"

definition scan_binding ::
  "('t, 'h) codec \<Rightarrow> driver \<Rightarrow> ('t, 'h) Database \<Rightarrow> nat \<Rightarrow> 't binding_row \<Rightarrow> error + Binding" where
  "scan_binding c io s k r =
    bind_sum (wrap ''sqlite: scan binding: '' (db_then io s (DbScan k) (Inr ()))) (\<lambda>_.
    bind_sum (cd_parseTime c (br_created_at r)) (\<lambda>created.
      Inr \<lparr> b_Spec = \<lparr> bs_Exchange = br_exchange r, bs_Queue = br_queue r,
                       bs_RoutingKey = br_routing_key r \<rparr>,
            b_CreatedAt = created \<rparr>))"

definition sqlite_Bindings ::
  "('t, 'h) codec \<Rightarrow> driver \<Rightarrow> ('t, 'h) Database \<Rightarrow> error + Binding list" where
  "sqlite_Bindings c io s =
    bind_sum (wrap ''sqlite: list bindings: '' (db_then io s (DbQuery 0)
        (Inr (sort_key (\<lambda>r. (br_exchange r, br_queue r, br_routing_key r)) (db_bindings s)))))
      (\<lambda>rows. scan_rows io s (scan_binding c io s) 0 rows)"

definition sqlite_DeleteBinding ::
  "driver \<Rightarrow> ('t, 'h) Database \<Rightarrow> BindingSpec \<Rightarrow> error option \<times> ('t, 'h) Database" where
  "sqlite_DeleteBinding io s spec =
    (let hit = (\<lambda>r. br_exchange r = bs_Exchange spec \<and> br_queue r = bs_Queue spec \<and>
                    br_routing_key r = bs_RoutingKey spec)
     in exec_affecting io s ''sqlite: delete binding: ''
          (int (length (filter hit (db_bindings s))))
          (s\<lparr>db_bindings := filter (\<lambda>r. \<not> hit r) (db_bindings s)\<rparr>))"

section \<open>The interface table\<close>

definition sqlite_Close :: "driver \<Rightarrow> ('t, 'h) Database \<Rightarrow> error option \<times> ('t, 'h) Database" where
  "sqlite_Close io s = (io DbClose, s\<lparr>db_open := False\<rparr>)"

definition sqlite_store :: "('t::linorder, 'h) codec \<Rightarrow> driver \<Rightarrow> ('t, 'h) Database store_ops" where
  "sqlite_store c io =
    \<lparr> so_SaveExchange = sqlite_SaveExchange c io, so_Exchanges = sqlite_Exchanges c io,
      so_SaveQueue = sqlite_SaveQueue c io, so_Queues = sqlite_Queues c io,
      so_DeleteQueue = sqlite_DeleteQueue io, so_SaveBinding = sqlite_SaveBinding c io,
      so_Bindings = sqlite_Bindings c io, so_DeleteBinding = sqlite_DeleteBinding io,
      so_Append = sqlite_Append c io, so_Message = sqlite_Message c io, so_Claim = sqlite_Claim c io,
      so_Acknowledge = sqlite_Acknowledge c io, so_ScheduleRetry = sqlite_ScheduleRetry c io,
      so_Release = sqlite_Release c io, so_MarkDeadLettered = sqlite_MarkDeadLettered c io,
      so_ExpiredLeases = sqlite_ExpiredLeases c io, so_Depth = sqlite_Depth io,
      so_Purge = sqlite_Purge io,
      so_SaveDeadLetter = sqlite_SaveDeadLetter c io, so_DeadLetters = sqlite_DeadLetters c io,
      so_DeadLetter = sqlite_DeadLetter c io,
      so_MarkDeadLetterReplayed = sqlite_MarkDeadLetterReplayed c io,
      so_DeleteDeadLetter = sqlite_DeleteDeadLetter io,
      so_CountDeadLetters = sqlite_CountDeadLetters io,
      so_AppendHistory = sqlite_AppendHistory c io, so_History = sqlite_History c io,
      so_Close = sqlite_Close io \<rparr>"

end
