(* ===== verification/StoreSpec.thy ===== *)
theory StoreSpec
  imports Storage
begin

text \<open>
  What a store promises, independently of how it is built: all messages ever appended in one list
  in arrival order, the dead letters in one list, and every operation a direct statement about
  those lists. \<open>exec\<close> runs one call of the interface and \<open>run\<close> a sequence of calls; a store
  refines the specification when every sequence of calls returns the same results from both.
\<close>

section \<open>Calls of the interface\<close>

datatype store_op =
    OpSaveExchange Exchange | OpExchanges
  | OpSaveQueue Queue | OpQueues | OpDeleteQueue string
  | OpSaveBinding Binding | OpBindings | OpDeleteBinding BindingSpec
  | OpAppend "Message list" | OpMessage string | OpClaim ClaimRequest
  | OpAcknowledge string time | OpScheduleRetry RetryRequest | OpRelease string time
  | OpMarkDeadLettered string string time | OpExpiredLeases time int
  | OpDepth string | OpPurge string
  | OpSaveDeadLetter DeadLetter string | OpDeadLetters DeadLetterFilter | OpDeadLetter string
  | OpMarkDeadLetterReplayed string string time | OpDeleteDeadLetter string
  | OpCountDeadLetters string
  | OpAppendHistory HistoryEvent | OpHistory string
  | OpClose

datatype store_result =
    ResErr "error option"
  | ResExchanges "error + Exchange list"
  | ResQueues "error + Queue list"
  | ResBindings "error + Binding list"
  | ResMessage "error + Message"
  | ResMessages "error + Message list"
  | ResDepth "error + Depth"
  | ResInt "error + int"
  | ResDeadLetter "error + DeadLetter"
  | ResDeadLetters "error + DeadLetter list"
  | ResHistory "error + HistoryEvent list"

fun exec :: "'s store_ops \<Rightarrow> 's \<Rightarrow> store_op \<Rightarrow> store_result \<times> 's" where
  "exec ops s (OpSaveExchange e) = apfst ResErr (so_SaveExchange ops s e)"
| "exec ops s OpExchanges = (ResExchanges (so_Exchanges ops s), s)"
| "exec ops s (OpSaveQueue q) = apfst ResErr (so_SaveQueue ops s q)"
| "exec ops s OpQueues = (ResQueues (so_Queues ops s), s)"
| "exec ops s (OpDeleteQueue n) = apfst ResErr (so_DeleteQueue ops s n)"
| "exec ops s (OpSaveBinding b) = apfst ResErr (so_SaveBinding ops s b)"
| "exec ops s OpBindings = (ResBindings (so_Bindings ops s), s)"
| "exec ops s (OpDeleteBinding b) = apfst ResErr (so_DeleteBinding ops s b)"
| "exec ops s (OpAppend ms) = apfst ResErr (so_Append ops s ms)"
| "exec ops s (OpMessage i) = (ResMessage (so_Message ops s i), s)"
| "exec ops s (OpClaim req) = apfst ResMessages (so_Claim ops s req)"
| "exec ops s (OpAcknowledge i t) = apfst ResErr (so_Acknowledge ops s i t)"
| "exec ops s (OpScheduleRetry req) = apfst ResErr (so_ScheduleRetry ops s req)"
| "exec ops s (OpRelease i t) = apfst ResErr (so_Release ops s i t)"
| "exec ops s (OpMarkDeadLettered i r t) = apfst ResErr (so_MarkDeadLettered ops s i r t)"
| "exec ops s (OpExpiredLeases t l) = (ResMessages (so_ExpiredLeases ops s t l), s)"
| "exec ops s (OpDepth q) = (ResDepth (so_Depth ops s q), s)"
| "exec ops s (OpPurge q) = apfst ResInt (so_Purge ops s q)"
| "exec ops s (OpSaveDeadLetter d i) = apfst ResDeadLetter (so_SaveDeadLetter ops s d i)"
| "exec ops s (OpDeadLetters f) = (ResDeadLetters (so_DeadLetters ops s f), s)"
| "exec ops s (OpDeadLetter i) = (ResDeadLetter (so_DeadLetter ops s i), s)"
| "exec ops s (OpMarkDeadLetterReplayed i r t) =
    apfst ResErr (so_MarkDeadLetterReplayed ops s i r t)"
| "exec ops s (OpDeleteDeadLetter i) = apfst ResErr (so_DeleteDeadLetter ops s i)"
| "exec ops s (OpCountDeadLetters q) = (ResInt (so_CountDeadLetters ops s q), s)"
| "exec ops s (OpAppendHistory h) = apfst ResErr (so_AppendHistory ops s h)"
| "exec ops s (OpHistory i) = (ResHistory (so_History ops s i), s)"
| "exec ops s OpClose = apfst ResErr (so_Close ops s)"

fun run :: "'s store_ops \<Rightarrow> 's \<Rightarrow> store_op list \<Rightarrow> store_result list \<times> 's" where
  "run ops s [] = ([], s)"
| "run ops s (op # rest) =
    (let (r, s') = exec ops s op; (rs, s'') = run ops s' rest in (r # rs, s''))"

section \<open>The specification\<close>

record Entry =
  en_msg :: Message
  en_lease :: time
  en_consumer :: string

record SpecStore =
  sp_closed :: bool
  sp_exchanges :: "(string, Exchange) gomap"
  sp_queues :: "(string, Queue) gomap"
  sp_bindings :: "(string, Binding) gomap"
  sp_entries :: "Entry list"
  sp_dead :: "DeadLetter list"
  sp_history :: "string \<Rightarrow> HistoryEvent list"

definition spec_New :: SpecStore where
  "spec_New = \<lparr> sp_closed = False, sp_exchanges = [], sp_queues = [], sp_bindings = [],
     sp_entries = [], sp_dead = [], sp_history = (\<lambda>_. []) \<rparr>"

abbreviation (input) en_ID :: "Entry \<Rightarrow> string" where "en_ID e \<equiv> msg_ID (en_msg e)"
abbreviation (input) en_Queue :: "Entry \<Rightarrow> string" where "en_Queue e \<equiv> msg_Queue (en_msg e)"
abbreviation (input) en_State :: "Entry \<Rightarrow> State" where "en_State e \<equiv> msg_State (en_msg e)"

definition entry_at :: "Entry list \<Rightarrow> string \<Rightarrow> Entry option" where
  "entry_at es mid = find (\<lambda>e. en_ID e = mid) es"

definition set_entry :: "Entry list \<Rightarrow> string \<Rightarrow> Entry \<Rightarrow> Entry list" where
  "set_entry es mid e' = map (\<lambda>e. if en_ID e = mid then e' else e) es"

definition ready :: "Message \<Rightarrow> time \<Rightarrow> bool" where
  "ready m now \<longleftrightarrow> msg_State m \<in> {StateQueued, StateRetrying} \<and> msg_AvailableAt m \<le> now"

definition claimed_msg :: "ClaimRequest \<Rightarrow> Message \<Rightarrow> Message" where
  "claimed_msg req m = m\<lparr> msg_State := StateProcessing, msg_UpdatedAt := cr_Now req,
     msg_Attempts := msg_Attempts m + 1 \<rparr>"

definition claimed_entry :: "ClaimRequest \<Rightarrow> Entry \<Rightarrow> Entry" where
  "claimed_entry req e = \<lparr> en_msg = claimed_msg req (en_msg e),
     en_lease = cr_Now req + cr_Lease req, en_consumer = cr_Consumer req \<rparr>"

text \<open>The entries a claim takes: the first \<open>Limit\<close> ready messages of the queue, oldest first.\<close>

definition selection :: "SpecStore \<Rightarrow> ClaimRequest \<Rightarrow> Entry list" where
  "selection a req = take (nat (cr_Limit req))
     (filter (\<lambda>e. en_Queue e = cr_Queue req \<and> ready (en_msg e) (cr_Now req)) (sp_entries a))"

definition spec_Claim :: "SpecStore \<Rightarrow> ClaimRequest \<Rightarrow> (error + Message list) \<times> SpecStore" where
  "spec_Claim a req =
    (if sp_closed a then (Inl ErrStoreClosed, a)
     else if cr_Limit req < 0 then (Inl (Panic ''makeslice: cap out of range''), a)
     else (Inr (map (\<lambda>e. claimed_msg req (en_msg e)) (selection a req)),
           a\<lparr>sp_entries := fold (\<lambda>e es. set_entry es (en_ID e) (claimed_entry req e))
               (selection a req) (sp_entries a)\<rparr>))"

definition spec_Append :: "SpecStore \<Rightarrow> Message list \<Rightarrow> error option \<times> SpecStore" where
  "spec_Append a ms =
    (if sp_closed a then (Some ErrStoreClosed, a)
     else if list_ex (\<lambda>m. entry_at (sp_entries a) (msg_ID m) \<noteq> None) ms then (Some ErrConflict, a)
     else (None, a\<lparr>sp_entries := sp_entries a @
             map (\<lambda>m. \<lparr>en_msg = m, en_lease = zero_time, en_consumer = []\<rparr>) ms\<rparr>))"

definition spec_Message :: "SpecStore \<Rightarrow> string \<Rightarrow> error + Message" where
  "spec_Message a mid =
    (case entry_at (sp_entries a) mid of None \<Rightarrow> Inl ErrNotFound | Some e \<Rightarrow> Inr (en_msg e))"

text \<open>A change of one message; the lease ends with it.\<close>

definition spec_update ::
  "SpecStore \<Rightarrow> string \<Rightarrow> (Message \<Rightarrow> error + Message) \<Rightarrow> error option \<times> SpecStore" where
  "spec_update a mid f =
    (case entry_at (sp_entries a) mid of
       None \<Rightarrow> (Some ErrNotFound, a)
     | Some e \<Rightarrow> (case f (en_msg e) of
         Inl err \<Rightarrow> (Some err, a)
       | Inr m \<Rightarrow> (None, a\<lparr>sp_entries := set_entry (sp_entries a) mid
                          \<lparr>en_msg = m, en_lease = zero_time, en_consumer = []\<rparr>\<rparr>)))"

definition if_leased :: "Message \<Rightarrow> Message \<Rightarrow> error + Message" where
  "if_leased m m' =
    (if msg_State m = StateProcessing then Inr m'
     else Inl (StateError (msg_ID m) StateProcessing (msg_State m)))"

definition acked_msg :: "time \<Rightarrow> Message \<Rightarrow> Message" where
  "acked_msg at m = m\<lparr>msg_State := StateAcknowledged, msg_UpdatedAt := at\<rparr>"

definition retry_msg :: "RetryRequest \<Rightarrow> Message \<Rightarrow> Message" where
  "retry_msg req m = m\<lparr> msg_State := StateRetrying, msg_UpdatedAt := rr_Now req,
     msg_AvailableAt := rr_AvailableAt req, msg_LastError := rr_Reason req \<rparr>"

definition released_msg :: "time \<Rightarrow> Message \<Rightarrow> Message" where
  "released_msg at m = m\<lparr>msg_State := StateQueued, msg_UpdatedAt := at, msg_AvailableAt := at\<rparr>"

definition buried_msg :: "string \<Rightarrow> time \<Rightarrow> Message \<Rightarrow> Message" where
  "buried_msg reason at m =
    m\<lparr>msg_State := StateDeadLettered, msg_UpdatedAt := at, msg_LastError := reason\<rparr>"

lemmas msg_change_defs = claimed_msg_def acked_msg_def retry_msg_def released_msg_def buried_msg_def

definition spec_Acknowledge :: "SpecStore \<Rightarrow> string \<Rightarrow> time \<Rightarrow> error option \<times> SpecStore" where
  "spec_Acknowledge a mid at = spec_update a mid (\<lambda>m. if_leased m (acked_msg at m))"

definition spec_ScheduleRetry :: "SpecStore \<Rightarrow> RetryRequest \<Rightarrow> error option \<times> SpecStore" where
  "spec_ScheduleRetry a req = spec_update a (rr_ID req) (\<lambda>m. if_leased m (retry_msg req m))"

definition spec_Release :: "SpecStore \<Rightarrow> string \<Rightarrow> time \<Rightarrow> error option \<times> SpecStore" where
  "spec_Release a mid at = spec_update a mid (\<lambda>m. if_leased m (released_msg at m))"

definition spec_MarkDeadLettered ::
  "SpecStore \<Rightarrow> string \<Rightarrow> string \<Rightarrow> time \<Rightarrow> error option \<times> SpecStore" where
  "spec_MarkDeadLettered a mid reason at = spec_update a mid (\<lambda>m.
     if msg_State m \<in> {StateProcessing, StateFailed} then Inr (buried_msg reason at m)
     else Inl (InvalidTransitionError (msg_State m) StateDeadLettered))"

definition expired :: "time \<Rightarrow> Entry \<Rightarrow> bool" where
  "expired now e \<longleftrightarrow> en_State e = StateProcessing \<and> en_lease e \<noteq> zero_time \<and> en_lease e \<le> now"

definition spec_ExpiredLeases :: "SpecStore \<Rightarrow> time \<Rightarrow> int \<Rightarrow> error + Message list" where
  "spec_ExpiredLeases a now limit =
    (let all = sort_key msg_ID (map en_msg (filter (expired now) (sp_entries a)))
     in Inr (if limit > 0 then take (nat limit) all else all))"

definition count_state :: "SpecStore \<Rightarrow> string \<Rightarrow> State set \<Rightarrow> int" where
  "count_state a q S = int (length (filter (\<lambda>e. en_Queue e = q \<and> en_State e \<in> S) (sp_entries a)))"

definition spec_Depth :: "SpecStore \<Rightarrow> string \<Rightarrow> error + Depth" where
  "spec_Depth a q =
    (if mget (sp_queues a) q = None then Inl ErrNotFound
     else Inr \<lparr> d_Ready = count_state a q {StateQueued},
                d_InFlight = count_state a q {StateProcessing},
                d_Scheduled = count_state a q {StateRetrying, StateFailed},
                d_Total = count_state a q {StateQueued, StateProcessing, StateRetrying, StateFailed} \<rparr>)"

definition unsettled :: "string \<Rightarrow> Entry \<Rightarrow> bool" where
  "unsettled q e \<longleftrightarrow> en_Queue e = q \<and> \<not> State_Terminal (en_State e)"

definition spec_Purge :: "SpecStore \<Rightarrow> string \<Rightarrow> (error + int) \<times> SpecStore" where
  "spec_Purge a q =
    (if mget (sp_queues a) q = None then (Inl ErrNotFound, a)
     else (Inr (int (length (filter (unsettled q) (sp_entries a)))),
           a\<lparr>sp_entries := filter (\<lambda>e. \<not> unsettled q e) (sp_entries a)\<rparr>))"

definition spec_DeleteQueue :: "SpecStore \<Rightarrow> string \<Rightarrow> error option \<times> SpecStore" where
  "spec_DeleteQueue a n =
    (if mget (sp_queues a) n = None then (Some ErrNotFound, a)
     else (None, a\<lparr> sp_queues := mdel (sp_queues a) n,
                    sp_entries := filter (\<lambda>e. en_Queue e \<noteq> n) (sp_entries a) \<rparr>))"

definition dead_at :: "DeadLetter list \<Rightarrow> string \<Rightarrow> DeadLetter option" where
  "dead_at ds did = find (\<lambda>d. dl_ID d = did) ds"

definition spec_SaveDeadLetter ::
  "SpecStore \<Rightarrow> DeadLetter \<Rightarrow> string \<Rightarrow> (error + DeadLetter) \<times> SpecStore" where
  "spec_SaveDeadLetter a d fresh =
    (let d = d\<lparr>dl_ID := if dl_ID d = [] then fresh else dl_ID d\<rparr> in
     if sp_closed a then (Inl ErrStoreClosed, a)
     else if dead_at (sp_dead a) (dl_ID d) \<noteq> None then (Inl ErrConflict, a)
     else (Inr d, a\<lparr>sp_dead := sp_dead a @ [d]\<rparr>))"

text \<open>A page: the matching dead letters from the newest, from \<open>Offset\<close> on, at most \<open>Limit\<close>.\<close>

definition spec_DeadLetters :: "SpecStore \<Rightarrow> DeadLetterFilter \<Rightarrow> error + DeadLetter list" where
  "spec_DeadLetters a f =
    (let f = Normalise f in
     Inr (take (nat (df_Limit f)) (drop (nat (df_Offset f))
       (filter (\<lambda>d. df_Queue f = [] \<or> dl_Queue d = df_Queue f) (rev (sp_dead a))))))"

definition spec_DeadLetter :: "SpecStore \<Rightarrow> string \<Rightarrow> error + DeadLetter" where
  "spec_DeadLetter a did =
    (case dead_at (sp_dead a) did of None \<Rightarrow> Inl ErrNotFound | Some d \<Rightarrow> Inr d)"

definition spec_MarkDeadLetterReplayed ::
  "SpecStore \<Rightarrow> string \<Rightarrow> string \<Rightarrow> time \<Rightarrow> error option \<times> SpecStore" where
  "spec_MarkDeadLetterReplayed a did as at =
    (if dead_at (sp_dead a) did = None then (Some ErrNotFound, a)
     else (None, a\<lparr>sp_dead := map (\<lambda>d. if dl_ID d = did
        then d\<lparr>dl_ReplayedAs := as, dl_ReplayedAt := at, dl_ReplayCount := dl_ReplayCount d + 1\<rparr>
        else d) (sp_dead a)\<rparr>))"

definition spec_DeleteDeadLetter :: "SpecStore \<Rightarrow> string \<Rightarrow> error option \<times> SpecStore" where
  "spec_DeleteDeadLetter a did =
    (if dead_at (sp_dead a) did = None then (Some ErrNotFound, a)
     else (None, a\<lparr>sp_dead := filter (\<lambda>d. dl_ID d \<noteq> did) (sp_dead a)\<rparr>))"

definition spec_CountDeadLetters :: "SpecStore \<Rightarrow> string \<Rightarrow> error + int" where
  "spec_CountDeadLetters a q =
    Inr (int (length (filter (\<lambda>d. q = [] \<or> dl_Queue d = q) (sp_dead a))))"

definition spec_save :: "SpecStore \<Rightarrow> SpecStore \<Rightarrow> error option \<times> SpecStore" where
  "spec_save a a' = (if sp_closed a then (Some ErrStoreClosed, a) else (None, a'))"

definition spec_store :: "SpecStore store_ops" where
  "spec_store =
    \<lparr> so_SaveExchange = (\<lambda>a e. spec_save a
        (a\<lparr>sp_exchanges := mput (sp_exchanges a) (xs_Name (ex_Spec e)) e\<rparr>)),
      so_Exchanges = (\<lambda>a. Inr (sort_key (\<lambda>e. xs_Name (ex_Spec e)) (mvals (sp_exchanges a)))),
      so_SaveQueue = (\<lambda>a q. spec_save a
        (a\<lparr>sp_queues := mput (sp_queues a) (qs_Name (q_Spec q)) q\<rparr>)),
      so_Queues = (\<lambda>a. Inr (sort_key (\<lambda>q. qs_Name (q_Spec q)) (mvals (sp_queues a)))),
      so_DeleteQueue = spec_DeleteQueue,
      so_SaveBinding = (\<lambda>a b. spec_save a
        (a\<lparr>sp_bindings := mput (sp_bindings a) (BindingSpec_key (b_Spec b)) b\<rparr>)),
      so_Bindings = (\<lambda>a. Inr (sort_key (\<lambda>b. BindingSpec_key (b_Spec b)) (mvals (sp_bindings a)))),
      so_DeleteBinding = (\<lambda>a b.
        if mget (sp_bindings a) (BindingSpec_key b) = None then (Some ErrNotFound, a)
        else (None, a\<lparr>sp_bindings := mdel (sp_bindings a) (BindingSpec_key b)\<rparr>)),
      so_Append = spec_Append, so_Message = spec_Message, so_Claim = spec_Claim,
      so_Acknowledge = spec_Acknowledge, so_ScheduleRetry = spec_ScheduleRetry,
      so_Release = spec_Release, so_MarkDeadLettered = spec_MarkDeadLettered,
      so_ExpiredLeases = spec_ExpiredLeases, so_Depth = spec_Depth, so_Purge = spec_Purge,
      so_SaveDeadLetter = spec_SaveDeadLetter, so_DeadLetters = spec_DeadLetters,
      so_DeadLetter = spec_DeadLetter,
      so_MarkDeadLetterReplayed = spec_MarkDeadLetterReplayed,
      so_DeleteDeadLetter = spec_DeleteDeadLetter,
      so_CountDeadLetters = spec_CountDeadLetters,
      so_AppendHistory = (\<lambda>a h. spec_save a (a\<lparr>sp_history := (sp_history a)
        (he_MessageID h := sp_history a (he_MessageID h) @ [h])\<rparr>)),
      so_History = (\<lambda>a i. Inr (sp_history a i)),
      so_Close = (\<lambda>a. (None, a\<lparr>sp_closed := True\<rparr>)) \<rparr>"

section \<open>Refinement\<close>

text \<open>The messages a caller may append: distinct identifiers and a state from before delivery, as
  the engine's \<open>Publish\<close>, \<open>park\<close> and \<open>ReplayDeadLetter\<close> append them.\<close>

definition appendable :: "Message list \<Rightarrow> bool" where
  "appendable ms \<longleftrightarrow> distinct (map msg_ID ms) \<and>
    list_all (\<lambda>m. msg_State m \<in> {StateCreated, StateQueued, StateFailed, StateRetrying}) ms"

fun op_ok :: "store_op \<Rightarrow> bool" where
  "op_ok (OpAppend ms) = appendable ms"
| "op_ok (OpDeleteQueue n) = False"
| "op_ok _ = True"

locale store_refinement =
  fixes ops :: "'s store_ops"
    and init :: 's
    and sim :: "'s \<Rightarrow> SpecStore \<Rightarrow> bool"
  assumes sim_init: "sim init spec_New"
    and sim_exec: "sim s a \<Longrightarrow> op_ok op \<Longrightarrow> fst (exec ops s op) = fst (exec spec_store a op) \<and>
      sim (snd (exec ops s op)) (snd (exec spec_store a op))"
begin

lemma sim_run:
  "sim s a \<Longrightarrow> list_all op_ok calls \<Longrightarrow> fst (run ops s calls) = fst (run spec_store a calls) \<and>
    sim (snd (run ops s calls)) (snd (run spec_store a calls))"
proof (induction calls arbitrary: s a)
  case Nil
  then show ?case by simp
next
  case (Cons op rest)
  from Cons.prems have "op_ok op" and "list_all op_ok rest" by simp_all
  with sim_exec [OF Cons.prems(1) \<open>op_ok op\<close>] Cons.IH
  show ?case by (simp add: split_def Let_def)
qed

lemma run_results: "list_all op_ok calls \<Longrightarrow> fst (run ops init calls) = fst (run spec_store spec_New calls)"
  using sim_run [OF sim_init] by blast

end

end
