(* ===== verification/StoreContract.thy ===== *)
theory StoreContract
  imports StoreSpec
begin

text \<open>
  What the engine relies on of a store (\<open>internal/storage/store.go\<close>), as the locale
  \<open>message_store\<close>. A store is seen through its \<open>View\<close>: the message and the lease under an
  identifier, the dead letters, the history, and whether it is closed. Each law says what a call
  returns and how it changes the view; the invariant is the store's own. The order of messages is
  not part of the view: a claim may pick any ready messages of the queue as long as it does not
  stop short of its limit. \<open>stamp\<close> is how the store records a lease; one that ends at the zero
  time may count as no lease.
\<close>

section \<open>Views\<close>

record View =
  v_closed :: bool
  v_msgs :: "string \<Rightarrow> Message option"
  v_lease :: "string \<Rightarrow> time option"
  v_dead :: "string \<Rightarrow> DeadLetter option"
  v_events :: "string \<Rightarrow> HistoryEvent list"

lemma view_eqI:
  "v_closed v = v_closed w \<Longrightarrow> (\<And>i. v_msgs v i = v_msgs w i) \<Longrightarrow> (\<And>i. v_lease v i = v_lease w i) \<Longrightarrow>
    (\<And>i. v_dead v i = v_dead w i) \<Longrightarrow> (\<And>i. v_events v i = v_events w i) \<Longrightarrow> v = (w :: View)"
  by (cases v; cases w) auto

definition view_Append :: "View \<Rightarrow> Message list \<Rightarrow> error option \<times> View" where
  "view_Append v ms =
    (if v_closed v then (Some ErrStoreClosed, v)
     else if list_ex (\<lambda>m. v_msgs v (msg_ID m) \<noteq> None) ms then (Some ErrConflict, v)
     else (None, v\<lparr> v_msgs := (\<lambda>i. case find (\<lambda>m. msg_ID m = i) ms of Some m \<Rightarrow> Some m | None \<Rightarrow> v_msgs v i),
                    v_lease := (\<lambda>i. if i \<in> msg_ID ` set ms then None else v_lease v i) \<rparr>))"

definition view_update :: "View \<Rightarrow> string \<Rightarrow> (Message \<Rightarrow> error + Message) \<Rightarrow> error option \<times> View" where
  "view_update v mid f =
    (case v_msgs v mid of
       None \<Rightarrow> (Some ErrNotFound, v)
     | Some m \<Rightarrow> (case f m of
         Inl err \<Rightarrow> (Some err, v)
       | Inr m' \<Rightarrow> (None, v\<lparr> v_msgs := (v_msgs v)(mid \<mapsto> m'), v_lease := (v_lease v)(mid := None) \<rparr>)))"

definition bury :: "string \<Rightarrow> time \<Rightarrow> Message \<Rightarrow> error + Message" where
  "bury reason at m =
    (if msg_State m \<in> {StateProcessing, StateFailed} then Inr (buried_msg reason at m)
     else Inl (InvalidTransitionError (msg_State m) StateDeadLettered))"

text \<open>The messages a claim may take from a view, and the view after it took them.\<close>

definition claimable_from :: "View \<Rightarrow> ClaimRequest \<Rightarrow> string \<Rightarrow> bool" where
  "claimable_from v req i \<longleftrightarrow> (case v_msgs v i of None \<Rightarrow> False
     | Some m \<Rightarrow> msg_Queue m = cr_Queue req \<and> ready m (cr_Now req))"

definition view_claimed :: "View \<Rightarrow> ClaimRequest \<Rightarrow> time option \<Rightarrow> string set \<Rightarrow> View" where
  "view_claimed v req lease I =
    v\<lparr> v_msgs := (\<lambda>i. if i \<in> I then map_option (claimed_msg req) (v_msgs v i) else v_msgs v i),
       v_lease := (\<lambda>i. if i \<in> I then lease else v_lease v i) \<rparr>"

definition view_SaveDeadLetter :: "View \<Rightarrow> DeadLetter \<Rightarrow> string \<Rightarrow> (error + DeadLetter) \<times> View" where
  "view_SaveDeadLetter v d fresh =
    (let d = d\<lparr>dl_ID := if dl_ID d = [] then fresh else dl_ID d\<rparr> in
     if v_closed v then (Inl ErrStoreClosed, v)
     else if v_dead v (dl_ID d) \<noteq> None then (Inl ErrConflict, v)
     else (Inr d, v\<lparr>v_dead := (v_dead v)(dl_ID d \<mapsto> d)\<rparr>))"

definition replayed_dead :: "string \<Rightarrow> time \<Rightarrow> DeadLetter \<Rightarrow> DeadLetter" where
  "replayed_dead as at d =
    d\<lparr>dl_ReplayedAs := as, dl_ReplayedAt := at, dl_ReplayCount := dl_ReplayCount d + 1\<rparr>"

definition view_MarkReplayed :: "View \<Rightarrow> string \<Rightarrow> string \<Rightarrow> time \<Rightarrow> error option \<times> View" where
  "view_MarkReplayed v did as at =
    (case v_dead v did of
       None \<Rightarrow> (Some ErrNotFound, v)
     | Some d \<Rightarrow> (None, v\<lparr>v_dead := (v_dead v)(did \<mapsto> replayed_dead as at d)\<rparr>))"

definition view_DeleteDead :: "View \<Rightarrow> string \<Rightarrow> error option \<times> View" where
  "view_DeleteDead v did =
    (case v_dead v did of
       None \<Rightarrow> (Some ErrNotFound, v) | Some d \<Rightarrow> (None, v\<lparr>v_dead := (v_dead v)(did := None)\<rparr>))"

definition view_AppendHistory :: "View \<Rightarrow> HistoryEvent \<Rightarrow> error option \<times> View" where
  "view_AppendHistory v h =
    (if v_closed v then (Some ErrStoreClosed, v)
     else (None, v\<lparr>v_events := (v_events v)(he_MessageID h := v_events v (he_MessageID h) @ [h])\<rparr>))"

definition lease_expired :: "View \<Rightarrow> time \<Rightarrow> string \<Rightarrow> bool" where
  "lease_expired v now i \<longleftrightarrow> (case v_msgs v i of None \<Rightarrow> False
     | Some m \<Rightarrow> msg_State m = StateProcessing \<and> (case v_lease v i of None \<Rightarrow> False | Some t \<Rightarrow> t \<le> now))"

text \<open>The calls that take messages away; their other effects are outside the view.\<close>

definition view_shrinks :: "View \<Rightarrow> View \<Rightarrow> bool" where
  "view_shrinks v v' \<longleftrightarrow> (\<exists>keep. v' = v\<lparr> v_msgs := (\<lambda>i. if keep i then v_msgs v i else None),
     v_lease := (\<lambda>i. if keep i then v_lease v i else None) \<rparr>)"

section \<open>The contract\<close>

locale message_store =
  fixes ops :: "'s store_ops"
    and inv :: "'s \<Rightarrow> bool"
    and view :: "'s \<Rightarrow> View"
    and stamp :: "time \<Rightarrow> time option"
  assumes stamp: "t \<noteq> zero_time \<Longrightarrow> stamp t = Some t"
    and msgs_ID: "inv s \<Longrightarrow> v_msgs (view s) i = Some m \<Longrightarrow> msg_ID m = i"
    and dead_ID: "inv s \<Longrightarrow> v_dead (view s) i = Some d \<Longrightarrow> dl_ID d = i"
    and Message_law: "inv s \<Longrightarrow> so_Message ops s i =
      (case v_msgs (view s) i of None \<Rightarrow> Inl ErrNotFound | Some m \<Rightarrow> Inr m)"
    and DeadLetter_law: "inv s \<Longrightarrow> so_DeadLetter ops s i =
      (case v_dead (view s) i of None \<Rightarrow> Inl ErrNotFound | Some d \<Rightarrow> Inr d)"
    and History_law: "inv s \<Longrightarrow> so_History ops s i = Inr (v_events (view s) i)"
    and Append_law: "inv s \<Longrightarrow> appendable ms \<Longrightarrow> inv (snd (so_Append ops s ms)) \<and>
      apsnd view (so_Append ops s ms) = view_Append (view s) ms"
    and Acknowledge_law: "inv s \<Longrightarrow> inv (snd (so_Acknowledge ops s i t)) \<and>
      apsnd view (so_Acknowledge ops s i t) = view_update (view s) i (\<lambda>m. if_leased m (acked_msg t m))"
    and ScheduleRetry_law: "inv s \<Longrightarrow> inv (snd (so_ScheduleRetry ops s req)) \<and>
      apsnd view (so_ScheduleRetry ops s req) =
        view_update (view s) (rr_ID req) (\<lambda>m. if_leased m (retry_msg req m))"
    and Release_law: "inv s \<Longrightarrow> inv (snd (so_Release ops s i t)) \<and>
      apsnd view (so_Release ops s i t) = view_update (view s) i (\<lambda>m. if_leased m (released_msg t m))"
    and MarkDeadLettered_law: "inv s \<Longrightarrow> inv (snd (so_MarkDeadLettered ops s i reason t)) \<and>
      apsnd view (so_MarkDeadLettered ops s i reason t) = view_update (view s) i (bury reason t)"
    and Claim_inv: "inv s \<Longrightarrow> inv (snd (so_Claim ops s creq))"
    and Claim_error: "inv s \<Longrightarrow> so_Claim ops s creq = (Inl err, s') \<Longrightarrow>
      view s' = view s \<and> (v_closed (view s) \<or> cr_Limit creq < 0)"
    and Claim_law: "inv s \<Longrightarrow> so_Claim ops s creq = (Inr ms, s') \<Longrightarrow>
      distinct (map msg_ID ms) \<and> int (length ms) \<le> max 0 (cr_Limit creq) \<and>
      (\<forall>i \<in> msg_ID ` set ms. claimable_from (view s) creq i) \<and>
      (\<forall>m \<in> set ms. v_msgs (view s') (msg_ID m) = Some m) \<and>
      view s' = view_claimed (view s) creq (stamp (cr_Now creq + cr_Lease creq)) (msg_ID ` set ms) \<and>
      (int (length ms) < cr_Limit creq \<longrightarrow> (\<forall>i. claimable_from (view s) creq i \<longrightarrow> i \<in> msg_ID ` set ms))"
    and ExpiredLeases_law: "inv s \<Longrightarrow> 0 < limit \<Longrightarrow> \<exists>ms. so_ExpiredLeases ops s now limit = Inr ms \<and>
      distinct (map msg_ID ms) \<and> int (length ms) \<le> limit \<and>
      (\<forall>m \<in> set ms. v_msgs (view s) (msg_ID m) = Some m \<and> lease_expired (view s) now (msg_ID m)) \<and>
      (int (length ms) < limit \<longrightarrow> (\<forall>i. lease_expired (view s) now i \<longrightarrow> i \<in> msg_ID ` set ms))"
    and SaveDeadLetter_law: "inv s \<Longrightarrow> inv (snd (so_SaveDeadLetter ops s d fresh)) \<and>
      apsnd view (so_SaveDeadLetter ops s d fresh) = view_SaveDeadLetter (view s) d fresh"
    and MarkReplayed_law: "inv s \<Longrightarrow> inv (snd (so_MarkDeadLetterReplayed ops s i as t)) \<and>
      apsnd view (so_MarkDeadLetterReplayed ops s i as t) = view_MarkReplayed (view s) i as t"
    and DeleteDead_law: "inv s \<Longrightarrow> inv (snd (so_DeleteDeadLetter ops s i)) \<and>
      apsnd view (so_DeleteDeadLetter ops s i) = view_DeleteDead (view s) i"
    and AppendHistory_law: "inv s \<Longrightarrow> inv (snd (so_AppendHistory ops s h)) \<and>
      apsnd view (so_AppendHistory ops s h) = view_AppendHistory (view s) h"
    and Purge_law: "inv s \<Longrightarrow> inv (snd (so_Purge ops s q)) \<and> view_shrinks (view s) (view (snd (so_Purge ops s q)))"
    and DeleteQueue_law: "inv s \<Longrightarrow> inv (snd (so_DeleteQueue ops s q)) \<and>
      view_shrinks (view s) (view (snd (so_DeleteQueue ops s q)))"
    and topology_law: "inv s \<Longrightarrow> inv (snd (so_SaveExchange ops s x)) \<and> view (snd (so_SaveExchange ops s x)) = view s"
      "inv s \<Longrightarrow> inv (snd (so_SaveQueue ops s qu)) \<and> view (snd (so_SaveQueue ops s qu)) = view s"
      "inv s \<Longrightarrow> inv (snd (so_SaveBinding ops s b)) \<and> view (snd (so_SaveBinding ops s b)) = view s"
      "inv s \<Longrightarrow> inv (snd (so_DeleteBinding ops s bs)) \<and> view (snd (so_DeleteBinding ops s bs)) = view s"

end
