(* ===== verification/SqliteLaws.thy ===== *)
theory SqliteLaws
  imports Sqlite StoreContract
begin

text \<open>
  The SQLite store behind a driver that works, on columns that keep the values as they are: what
  every operation returns and does to the rows, and the invariant of the tables. Then what holds of
  every driver: an operation that returns an error has changed nothing.
\<close>

section \<open>A driver that works\<close>

definition reliable :: driver where
  "reliable = (\<lambda>_. None)"

definition plain_codec :: "(time, Headers) codec" where
  "plain_codec = \<lparr> cd_formatTime = (\<lambda>t. t), cd_parseTime = Inr, cd_encodeHeaders = Inr, cd_decodeHeaders = Inr \<rparr>"

lemma plain_codec_sel [simp]:
  "cd_formatTime plain_codec t = t" "cd_parseTime plain_codec t = Inr t"
  "cd_encodeHeaders plain_codec h = Inr h" "cd_decodeHeaders plain_codec h = Inr h"
  by (simp_all add: plain_codec_def)

named_theorems sqlite_simps "calls of a driver that works"

lemma answer_reliable [sqlite_simps]: "db_open s \<Longrightarrow> db_answer reliable s call = None"
  by (simp add: db_answer_def reliable_def)

lemma then_reliable [sqlite_simps]: "db_open s \<Longrightarrow> db_then reliable s call next = next"
  by (simp add: db_then_def answer_reliable)

lemma wrap_simps [simp]: "wrap pre (Inr x) = Inr x" "wrap pre (Inl err) = Inl (ErrWrap pre err)"
  by (simp_all add: wrap_def)

lemma bind_sum_simps [simp]: "bind_sum (Inr x) f = f x" "bind_sum (Inl err) f = Inl err"
  by (simp_all add: bind_sum_def)

lemma transaction_reliable [sqlite_simps]:
  "db_open s \<Longrightarrow> transaction reliable s b c body =
    (case body of Inl err \<Rightarrow> (Inl err, s) | Inr (x, tx) \<Rightarrow> (Inr x, tx))"
  by (auto simp: transaction_def sqlite_simps split: sum.split)

lemma err_of_simps [simp]: "err_of (Inl err, s) = (Some err, s)" "err_of (Inr x, s) = (None, s)"
  by (simp_all add: err_of_def)

lemma autocommit_simps [simp]: "autocommit s (Inl err) = (Inl err, s)" "autocommit s (Inr (x, s')) = (Inr x, s')"
  by (simp_all add: autocommit_def)

lemma query_row_reliable [sqlite_simps]:
  "db_open s \<Longrightarrow> query_row reliable s k (r # rs) scan = scan r"
  by (simp add: query_row_def sqlite_simps)

lemma exec_affecting_reliable [sqlite_simps]:
  "db_open s \<Longrightarrow> exec_affecting reliable s pre n s' = (if n = 0 then Some ErrNotFound else None, s')"
  by (simp add: exec_affecting_def sqlite_simps)

lemma scan_rows_reliable:
  assumes "db_open s" "\<And>k r. scan k r = Inr (f r)"
  shows "scan_rows reliable s scan k rows = Inr (map f rows)"
  using assms by (induction rows arbitrary: k) (simp_all add: sqlite_simps)

text \<open>The first row of a selection.\<close>

lemma case_filter_find:
  "(case filter P xs of [] \<Rightarrow> a | r # _ \<Rightarrow> f r) = (case find P xs of None \<Rightarrow> a | Some r \<Rightarrow> f r)"
  by (induction xs) auto

lemma find_filter_length: "find P xs = None \<longleftrightarrow> length (filter P xs) = 0"
  by (auto simp: find_None_iff filter_empty_conv)

section \<open>Messages\<close>

type_synonym plain_db = "(time, Headers) Database"
type_synonym plain_row = "(time, Headers) message_row"

definition row_msg :: "plain_row \<Rightarrow> Message" where
  "row_msg r = \<lparr> msg_ID = mr_id r, msg_Exchange = mr_exchange r, msg_RoutingKey = mr_routing_key r,
     msg_Queue = mr_queue r, msg_Schema = mr_schema_name r, msg_Payload = mr_payload r,
     msg_Headers = mr_headers r, msg_State = mr_state r, msg_Attempts = mr_attempts r,
     msg_MaxAttempts = mr_max_attempts r, msg_LastError = mr_last_error r,
     msg_CreatedAt = mr_created_at r, msg_UpdatedAt = mr_updated_at r,
     msg_AvailableAt = mr_available_at r \<rparr>"

lemma row_msg_sel [simp]:
  "msg_ID (row_msg r) = mr_id r" "msg_Queue (row_msg r) = mr_queue r" "msg_State (row_msg r) = mr_state r"
  "msg_AvailableAt (row_msg r) = mr_available_at r" "msg_Attempts (row_msg r) = mr_attempts r"
  by (simp_all add: row_msg_def)

abbreviation row_at :: "plain_db \<Rightarrow> string \<Rightarrow> plain_row option" where
  "row_at s i \<equiv> find (\<lambda>r. mr_id r = i) (db_messages s)"

lemma scanMessage_plain [sqlite_simps]:
  "db_open s \<Longrightarrow> scanMessage plain_codec reliable s k r = Inr (row_msg r)"
  by (simp add: scanMessage_def sqlite_simps row_msg_def)

lemma scanMessages_plain [sqlite_simps]:
  "db_open s \<Longrightarrow> scanMessages plain_codec reliable s rows = Inr (map row_msg rows)"
  unfolding scanMessages_def by (rule scan_rows_reliable) (simp_all add: sqlite_simps)

lemma loadMessage_plain [sqlite_simps]:
  "db_open s \<Longrightarrow> loadMessage plain_codec reliable s i =
    (case row_at s i of None \<Rightarrow> Inl ErrNotFound | Some r \<Rightarrow> Inr (row_msg r))"
  by (simp add: loadMessage_def message_rows_def case_filter_find sqlite_simps translateNoRows_def split: option.split)

lemma Message_plain [sqlite_simps]:
  "db_open s \<Longrightarrow> sqlite_Message plain_codec reliable s i =
    (case row_at s i of None \<Rightarrow> Inl ErrNotFound | Some r \<Rightarrow> Inr (row_msg r))"
  by (simp add: sqlite_Message_def message_rows_def case_filter_find sqlite_simps translateNoRows_def split: option.split)

text \<open>A change of one message: the rows after it, and its lease ends.\<close>

definition row_change :: "Message \<Rightarrow> time option \<Rightarrow> string \<Rightarrow> plain_row \<Rightarrow> plain_row" where
  "row_change m lease consumer r = r\<lparr> mr_state := msg_State m, mr_attempts := msg_Attempts m,
     mr_last_error := msg_LastError m, mr_updated_at := msg_UpdatedAt m,
     mr_available_at := msg_AvailableAt m, mr_lease_expires_at := lease, mr_consumer := consumer \<rparr>"

definition put_row :: "plain_db \<Rightarrow> string \<Rightarrow> (plain_row \<Rightarrow> plain_row) \<Rightarrow> plain_db" where
  "put_row s i f = s\<lparr>db_messages := map (\<lambda>r. if mr_id r = i then f r else r) (db_messages s)\<rparr>"

definition row_update :: "plain_db \<Rightarrow> string \<Rightarrow> (Message \<Rightarrow> error + Message) \<Rightarrow> error option \<times> plain_db" where
  "row_update s i f =
    (case row_at s i of
       None \<Rightarrow> (Some ErrNotFound, s)
     | Some r \<Rightarrow> (case f (row_msg r) of
         Inl err \<Rightarrow> (Some err, s)
       | Inr m \<Rightarrow> (None, put_row s i (row_change m None []))))"

lemma put_row_cong:
  assumes d: "distinct (map mr_id (db_messages s))" and r: "row_at s i = Some r" and e: "f r = g r"
  shows "put_row s i f = put_row s i g"
proof -
  have "f r' = g r'" if "r' \<in> set (db_messages s)" "mr_id r' = i" for r'
    using that r e find_distinct_key [OF d that(1)] by simp
  then show ?thesis by (simp add: put_row_def)
qed

lemma update_message_plain [sqlite_simps]: "db_open s \<Longrightarrow> update_message reliable k s i f = Inr (put_row s i f)"
  by (simp add: update_message_def sqlite_simps put_row_def)

lemma row_at_ID: "row_at s i = Some r \<Longrightarrow> mr_id r = i"
  by (auto simp: find_Some_iff)

lemma leased_plain:
  assumes o: "db_open s" and d: "distinct (map mr_id (db_messages s))"
    and ap: "\<And>r. row_at s i = Some r \<Longrightarrow> mr_state r = StateProcessing \<Longrightarrow>
      \<exists>f. ap s (row_msg r) = Inr (put_row s i f) \<and> f r = row_change (change (row_msg r)) None [] r"
  shows "transitionLeased plain_codec reliable s i ap = row_update s i (\<lambda>m. if_leased m (change m))"
proof (cases "row_at s i")
  case None
  then show ?thesis by (simp add: transitionLeased_def row_update_def sqlite_simps o)
next
  case (Some r)
  show ?thesis
  proof (cases "mr_state r = StateProcessing")
    case True
    then obtain f where "ap s (row_msg r) = Inr (put_row s i f)"
      "f r = row_change (change (row_msg r)) None [] r" using ap [OF Some] by blast
    moreover from this(2) have "put_row s i f = put_row s i (row_change (change (row_msg r)) None [])"
      by (rule put_row_cong [OF d Some])
    ultimately show ?thesis
      using Some True by (simp add: transitionLeased_def row_update_def if_leased_def sqlite_simps o)
  next
    case False
    then show ?thesis
      using Some row_at_ID [OF Some] by (simp add: transitionLeased_def row_update_def if_leased_def sqlite_simps o)
  qed
qed

lemma Transition_ok: "CanTransitionTo (msg_State m) next \<Longrightarrow> Transition m next t = Inr (m\<lparr>msg_State := next, msg_UpdatedAt := t\<rparr>)"
  by (auto simp: Transition_def dest: CanTransitionTo_valid)

lemmas leased_simps = Transition_ok CanTransitionTo_iff msg_change_defs row_change_def row_msg_def

lemma Acknowledge_plain:
  assumes o: "db_open s" and d: "distinct (map mr_id (db_messages s))"
  shows "sqlite_Acknowledge plain_codec reliable s i t = row_update s i (\<lambda>m. if_leased m (acked_msg t m))"
  unfolding sqlite_Acknowledge_def
  by (rule leased_plain [OF o d], drule row_at_ID)
    (simp add: leased_simps update_message_plain [OF o], intro exI conjI, rule refl, simp)

lemma ScheduleRetry_plain:
  assumes o: "db_open s" and d: "distinct (map mr_id (db_messages s))"
  shows "sqlite_ScheduleRetry plain_codec reliable s req = row_update s (rr_ID req) (\<lambda>m. if_leased m (retry_msg req m))"
  unfolding sqlite_ScheduleRetry_def
  by (rule leased_plain [OF o d], drule row_at_ID)
    (simp add: leased_simps update_message_plain [OF o], intro exI conjI, rule refl, simp)

lemma Release_plain:
  assumes o: "db_open s" and d: "distinct (map mr_id (db_messages s))"
  shows "sqlite_Release plain_codec reliable s i t = row_update s i (\<lambda>m. if_leased m (released_msg t m))"
  unfolding sqlite_Release_def
  by (rule leased_plain [OF o d], drule row_at_ID)
    (simp add: leased_simps update_message_plain [OF o], intro exI conjI, rule refl, simp)

lemma MarkDeadLettered_plain:
  assumes o: "db_open s" and d: "distinct (map mr_id (db_messages s))"
  shows "sqlite_MarkDeadLettered plain_codec reliable s i reason t = row_update s i (bury reason t)"
proof (cases "row_at s i")
  case None
  then show ?thesis by (simp add: sqlite_MarkDeadLettered_def row_update_def sqlite_simps o)
next
  case (Some r)
  show ?thesis
  proof (cases "mr_state r \<in> {StateProcessing, StateFailed}")
    case True
    let ?m = "buried_msg reason t (row_msg r)"
    have "put_row s i (\<lambda>r. r\<lparr> mr_state := StateDeadLettered, mr_updated_at := t, mr_last_error := reason,
        mr_lease_expires_at := None, mr_consumer := [] \<rparr>) = put_row s i (row_change ?m None [])"
      by (rule put_row_cong [OF d Some]) (simp add: leased_simps)
    then show ?thesis
      using Some True row_at_ID [OF Some]
      by (auto simp: sqlite_MarkDeadLettered_def row_update_def bury_def Transition_ok CanTransitionTo_iff sqlite_simps o)
  next
    case False
    then have "Transition (row_msg r) StateDeadLettered t = Inl (InvalidTransitionError (mr_state r) StateDeadLettered)"
      by (auto simp: Transition_def state_simps allStates_def)
    with False Some show ?thesis
      by (auto simp: sqlite_MarkDeadLettered_def row_update_def bury_def sqlite_simps o)
  qed
qed

subsection \<open>Append\<close>

definition fresh_row :: "int \<Rightarrow> Message \<Rightarrow> plain_row" where
  "fresh_row n m = \<lparr> mr_seq = n, mr_id = msg_ID m, mr_queue = msg_Queue m, mr_exchange = msg_Exchange m,
     mr_routing_key = msg_RoutingKey m, mr_schema_name = msg_Schema m, mr_payload = msg_Payload m,
     mr_headers = msg_Headers m, mr_state = msg_State m, mr_attempts = msg_Attempts m,
     mr_max_attempts = msg_MaxAttempts m, mr_last_error = msg_LastError m, mr_created_at = msg_CreatedAt m,
     mr_updated_at = msg_UpdatedAt m, mr_available_at = msg_AvailableAt m, mr_lease_expires_at = None,
     mr_consumer = [] \<rparr>"

fun fresh_rows :: "int \<Rightarrow> Message list \<Rightarrow> plain_row list" where
  "fresh_rows n [] = []"
| "fresh_rows n (m # ms) = fresh_row (n + 1) m # fresh_rows (n + 1) ms"

lemma fresh_row_sel [simp]:
  "mr_id (fresh_row n m) = msg_ID m" "mr_seq (fresh_row n m) = n" "row_msg (fresh_row n m) = m"
  "mr_lease_expires_at (fresh_row n m) = None"
  by (simp_all add: fresh_row_def row_msg_def)

lemma fresh_rows_map:
  "map mr_id (fresh_rows n ms) = map msg_ID ms" "map row_msg (fresh_rows n ms) = ms"
  "map mr_seq (fresh_rows n ms) = map (\<lambda>k. n + 1 + int k) [0..<length ms]"
  by (induction ms arbitrary: n) (simp_all add: upt_conv_Cons map_Suc_upt [symmetric] del: upt_Suc)

definition appended :: "plain_db \<Rightarrow> Message list \<Rightarrow> plain_db" where
  "appended s ms = s\<lparr> db_messages := db_messages s @ fresh_rows (db_message_seq s) ms,
     db_message_seq := db_message_seq s + int (length ms) \<rparr>"

lemma conflict_unique [simp]:
  "isUniqueViolation (SqliteError codeConstraintUnique t)" "isUniqueViolation (SqliteError codeConstraintPrimary t)"
  by (simp_all add: isUniqueViolation_def)

lemma append_rows_plain:
  assumes "db_open s" "distinct (map msg_ID ms)"
  shows "append_rows plain_codec reliable k s ms =
    (if list_ex (\<lambda>m. row_at s (msg_ID m) \<noteq> None) ms then Inl ErrConflict else Inr (appended s ms))"
  using assms
proof (induction ms arbitrary: s k)
  case Nil
  then show ?case by (simp add: appended_def)
next
  case (Cons m ms)
  let ?s = "s\<lparr> db_messages := db_messages s @ [fresh_row (db_message_seq s + 1) m],
     db_message_seq := db_message_seq s + 1 \<rparr>"
  have hit: "list_ex (\<lambda>r. mr_id r = msg_ID m) (db_messages s) \<longleftrightarrow> row_at s (msg_ID m) \<noteq> None"
    by (auto simp: list_ex_iff find_None_iff)
  have ins: "insert_message plain_codec reliable k s m (msg_Headers m) =
      (if row_at s (msg_ID m) \<noteq> None then Inl (SqliteError codeConstraintUnique
         ''constraint failed: UNIQUE constraint failed: messages.id (2067)'') else Inr ?s)"
    using Cons.prems(1) unfolding insert_message_def hit by (simp add: sqlite_simps fresh_row_def)
  show ?case
  proof (cases "row_at s (msg_ID m) = None")
    case True
    have "row_at ?s (msg_ID m') = row_at s (msg_ID m')" if "m' \<in> set ms" for m'
      using that Cons.prems(2) by (auto simp: find_append split: option.split)
    then have "list_ex (\<lambda>m. row_at ?s (msg_ID m) \<noteq> None) ms = list_ex (\<lambda>m. row_at s (msg_ID m) \<noteq> None) ms"
      by (auto simp: list_ex_iff)
    moreover have "appended ?s ms = appended s (m # ms)" by (simp add: appended_def)
    ultimately show ?thesis using Cons.IH [of ?s "Suc k"] Cons.prems True by (simp add: ins)
  next
    case False
    then show ?thesis by (simp add: ins)
  qed
qed

lemma Append_plain:
  assumes "db_open s" "distinct (map msg_ID ms)"
  shows "sqlite_Append plain_codec reliable s ms =
    (if list_ex (\<lambda>m. row_at s (msg_ID m) \<noteq> None) ms then (Some ErrConflict, s) else (None, appended s ms))"
  using append_rows_plain [OF assms, of 0] assms(1)
  by (cases "ms = []") (simp_all add: sqlite_Append_def sqlite_simps appended_def del: append_rows.simps)

subsection \<open>Claim\<close>

definition lease_row :: "ClaimRequest \<Rightarrow> plain_row \<Rightarrow> plain_row" where
  "lease_row req r = row_change (claimed_msg req (row_msg r)) (Some (cr_Now req + cr_Lease req)) (cr_Consumer req) r"

definition lease_rows :: "ClaimRequest \<Rightarrow> string set \<Rightarrow> plain_db \<Rightarrow> plain_db" where
  "lease_rows req I s = s\<lparr>db_messages := map (\<lambda>r. if mr_id r \<in> I then lease_row req r else r) (db_messages s)\<rparr>"

lemma row_change_sel [simp]:
  "mr_id (row_change m l c r) = mr_id r" "mr_seq (row_change m l c r) = mr_seq r"
  "mr_queue (row_change m l c r) = mr_queue r" "mr_lease_expires_at (row_change m l c r) = l"
  by (simp_all add: row_change_def)

lemma lease_row_sel [simp]:
  "mr_id (lease_row req r) = mr_id r" "mr_seq (lease_row req r) = mr_seq r"
  "mr_lease_expires_at (lease_row req r) = Some (cr_Now req + cr_Lease req)"
  "row_msg (lease_row req r) = claimed_msg req (row_msg r)"
  by (simp_all add: lease_row_def) (simp add: row_change_def row_msg_def claimed_msg_def)

lemma claim_rows_plain:
  assumes "db_open tx" "distinct (map mr_id (db_messages tx))" "distinct (map mr_id cs)"
    "set cs \<subseteq> set (db_messages tx)" "\<forall>r \<in> set cs. mr_state r \<in> {StateQueued, StateRetrying}"
  shows "claim_rows plain_codec reliable req k tx (map row_msg cs) claimed =
    Inr (claimed @ map (\<lambda>r. claimed_msg req (row_msg r)) cs, lease_rows req (mr_id ` set cs) tx)"
  using assms
proof (induction cs arbitrary: tx k claimed)
  case Nil
  then show ?case by (simp add: lease_rows_def)
next
  case (Cons c cs)
  let ?m = "claimed_msg req (row_msg c)"
  let ?f = "\<lambda>r. r\<lparr> mr_state := StateProcessing, mr_attempts := mr_attempts c + 1, mr_updated_at := cr_Now req,
     mr_lease_expires_at := Some (cr_Now req + cr_Lease req), mr_consumer := cr_Consumer req \<rparr>"
  let ?tx = "put_row tx (mr_id c) (lease_row req)"
  have at: "row_at tx (mr_id c) = Some c" using Cons.prems(2,4) find_distinct_key by (metis list.set_intros(1) subsetD)
  have put: "put_row tx (mr_id c) ?f = ?tx"
    by (rule put_row_cong [OF Cons.prems(2) at]) (simp add: lease_row_def row_change_def claimed_msg_def row_msg_def)
  have "claim_rows plain_codec reliable req k tx (row_msg c # map row_msg cs) claimed =
      claim_rows plain_codec reliable req (Suc k) ?tx (map row_msg cs) (claimed @ [?m])"
    using Cons.prems(1,5) unfolding put [symmetric]
    by (auto simp: Transition_ok CanTransitionTo_iff sqlite_simps Let_def claimed_msg_def row_msg_def)
  also have "\<dots> = Inr ((claimed @ [?m]) @ map (\<lambda>r. claimed_msg req (row_msg r)) cs,
      lease_rows req (mr_id ` set cs) ?tx)"
  proof (rule Cons.IH)
    have ids: "map mr_id (db_messages ?tx) = map mr_id (db_messages tx)" by (simp add: put_row_def)
    then show "distinct (map mr_id (db_messages ?tx))" using Cons.prems(2) by simp
    show "set cs \<subseteq> set (db_messages ?tx)"
    proof
      fix r assume r: "r \<in> set cs"
      then have "r \<in> set (db_messages tx)" "mr_id r \<noteq> mr_id c" using Cons.prems(3,4) by (auto simp: image_iff)
      then show "r \<in> set (db_messages ?tx)" by (force simp: put_row_def image_iff)
    qed
  qed (use Cons.prems in \<open>simp_all add: put_row_def\<close>)
  also have "lease_rows req (mr_id ` set cs) ?tx = lease_rows req (mr_id ` set (c # cs)) tx"
    using Cons.prems(3) by (auto simp: lease_rows_def put_row_def)
  finally show ?case by simp
qed

definition claim_selection :: "plain_db \<Rightarrow> ClaimRequest \<Rightarrow> plain_row list" where
  "claim_selection s req = take (nat (cr_Limit req)) (sort_key (\<lambda>r. (mr_available_at r, mr_seq r))
     (filter (\<lambda>r. mr_queue r = cr_Queue req \<and> ready (row_msg r) (cr_Now req)) (db_messages s)))"

lemma claim_selection_set: "set (claim_selection s req) \<subseteq> set (db_messages s)"
  unfolding claim_selection_def by (rule subset_trans [OF set_take_subset]) auto

lemma claim_selection_distinct:
  assumes "distinct (map mr_id (db_messages s))"
  shows "distinct (map mr_id (claim_selection s req))"
proof -
  let ?rs = "filter (\<lambda>r. mr_queue r = cr_Queue req \<and> ready (row_msg r) (cr_Now req)) (db_messages s)"
  let ?ss = "sort_key (\<lambda>r. (mr_available_at r, mr_seq r)) ?rs"
  have "mset (map mr_id ?ss) = mset (map mr_id ?rs)" by (simp only: mset_map mset_sort)
  moreover have "distinct (map mr_id ?rs)" using assms by (rule distinct_map_filter)
  ultimately have "distinct (map mr_id ?ss)" using mset_eq_imp_distinct_iff by blast
  then show ?thesis by (simp add: claim_selection_def take_map [symmetric])
qed

lemma Claim_plain:
  assumes o: "db_open s" and d: "distinct (map mr_id (db_messages s))"
  shows "sqlite_Claim plain_codec reliable s req =
    (let cs = claim_selection s req in
     (Inr (map (\<lambda>r. claimed_msg req (row_msg r)) cs), lease_rows req (mr_id ` set cs) s))"
proof (cases "cr_Limit req \<le> 0")
  case True
  then show ?thesis by (simp add: sqlite_Claim_def claim_selection_def lease_rows_def)
next
  case False
  have cs: "claim_candidates plain_codec s req = claim_selection s req"
    using False by (simp add: claim_candidates_def claim_selection_def sql_limit_def ready_def conj_ac cong: filter_cong)
  have "\<forall>r \<in> set (claim_selection s req). mr_state r \<in> {StateQueued, StateRetrying}"
    unfolding claim_selection_def by (auto dest!: in_set_takeD simp: ready_def)
  note rows = claim_rows_plain [OF o d claim_selection_distinct [OF d] claim_selection_set this, of req 0 "[]"]
  show ?thesis using False by (simp add: sqlite_Claim_def sqlite_simps o cs rows Let_def)
qed

definition expired_row :: "time \<Rightarrow> plain_row \<Rightarrow> bool" where
  "expired_row now r \<longleftrightarrow> mr_state r = StateProcessing \<and>
    (case mr_lease_expires_at r of None \<Rightarrow> False | Some t \<Rightarrow> t \<le> now)"

lemma ExpiredLeases_plain:
  assumes o: "db_open s" and seq: "sorted (map mr_seq (db_messages s))"
  shows "sqlite_ExpiredLeases plain_codec reliable s now limit =
    (let all = map row_msg (filter (expired_row now) (db_messages s))
     in Inr (if limit \<le> 0 then all else take (nat limit) all))"
proof -
  have "sort_key mr_seq (filter P (db_messages s)) = filter P (db_messages s)" for P
    using seq by (intro sort_key_id_if_sorted) (simp add: sorted_filter)
  then show ?thesis
    by (simp add: sqlite_ExpiredLeases_def sqlite_simps o sql_limit_def expired_row_def [abs_def] take_map cong: option.case_cong)
qed

section \<open>Dead letters and history\<close>

type_synonym plain_dead = "(time, Headers) dead_row"

definition row_dead :: "plain_dead \<Rightarrow> DeadLetter" where
  "row_dead r = \<lparr> dl_ID = dr_id r, dl_MessageID = dr_message_id r, dl_Queue = dr_queue r,
     dl_Exchange = dr_exchange r, dl_RoutingKey = dr_routing_key r, dl_Schema = dr_schema_name r,
     dl_Payload = dr_payload r, dl_Headers = dr_headers r, dl_Reason = dr_reason r,
     dl_ErrorKind = dr_error_kind r, dl_Attempts = dr_attempts r, dl_PublishedAt = dr_published_at r,
     dl_FirstFailedAt = dr_first_failed_at r, dl_DeadLetteredAt = dr_dead_lettered_at r,
     dl_ReplayedAs = dr_replayed_as r, dl_ReplayedAt = dr_replayed_at r,
     dl_ReplayCount = dr_replay_count r \<rparr>"

definition dead_row_of :: "DeadLetter \<Rightarrow> plain_dead" where
  "dead_row_of d = \<lparr> dr_id = dl_ID d, dr_message_id = dl_MessageID d, dr_queue = dl_Queue d,
     dr_exchange = dl_Exchange d, dr_routing_key = dl_RoutingKey d, dr_schema_name = dl_Schema d,
     dr_payload = dl_Payload d, dr_headers = dl_Headers d, dr_reason = dl_Reason d,
     dr_error_kind = dl_ErrorKind d, dr_attempts = dl_Attempts d, dr_published_at = dl_PublishedAt d,
     dr_first_failed_at = dl_FirstFailedAt d, dr_dead_lettered_at = dl_DeadLetteredAt d,
     dr_replayed_as = dl_ReplayedAs d, dr_replayed_at = dl_ReplayedAt d,
     dr_replay_count = dl_ReplayCount d \<rparr>"

lemma dead_row_roundtrip [simp]: "row_dead (dead_row_of d) = d" "dr_id (dead_row_of d) = dl_ID d"
  by (simp_all add: row_dead_def dead_row_of_def)

lemma row_dead_ID [simp]: "dl_ID (row_dead r) = dr_id r"
  by (simp add: row_dead_def)

abbreviation dead_row_at :: "plain_db \<Rightarrow> string \<Rightarrow> plain_dead option" where
  "dead_row_at s i \<equiv> find (\<lambda>r. dr_id r = i) (db_dead_letters s)"

lemma scanDeadLetter_plain [sqlite_simps]:
  "db_open s \<Longrightarrow> scanDeadLetter plain_codec reliable s k r = Inr (row_dead r)"
  by (simp add: scanDeadLetter_def sqlite_simps row_dead_def)

lemma DeadLetter_plain:
  "db_open s \<Longrightarrow> sqlite_DeadLetter plain_codec reliable s i =
    (case dead_row_at s i of None \<Rightarrow> Inl ErrNotFound | Some r \<Rightarrow> Inr (row_dead r))"
  by (simp add: sqlite_DeadLetter_def case_filter_find sqlite_simps translateNoRows_def split: option.split)

lemma SaveDeadLetter_plain:
  assumes "db_open s"
  shows "sqlite_SaveDeadLetter plain_codec reliable s d fresh =
    (let d = d\<lparr>dl_ID := if dl_ID d = [] then fresh else dl_ID d\<rparr> in
     if dead_row_at s (dl_ID d) \<noteq> None then (Inl ErrConflict, s)
     else (Inr d, s\<lparr>db_dead_letters := db_dead_letters s @ [dead_row_of d]\<rparr>))"
proof -
  have hit: "list_ex (\<lambda>r. dr_id r = i) (db_dead_letters s) \<longleftrightarrow> dead_row_at s i \<noteq> None" for i
    by (auto simp: list_ex_iff find_None_iff)
  have "(if dl_ID d = [] then d\<lparr>dl_ID := fresh\<rparr> else d) = d\<lparr>dl_ID := if dl_ID d = [] then fresh else dl_ID d\<rparr>"
    by simp
  then show ?thesis
    unfolding sqlite_SaveDeadLetter_def hit by (simp add: sqlite_simps assms Let_def dead_row_of_def)
qed

lemma MarkReplayed_plain:
  assumes "db_open s"
  shows "sqlite_MarkDeadLetterReplayed plain_codec reliable s i as t =
    (if dead_row_at s i = None then Some ErrNotFound else None,
     s\<lparr>db_dead_letters := map (\<lambda>r. if dr_id r = i
        then dead_row_of (replayed_dead as t (row_dead r)) else r) (db_dead_letters s)\<rparr>)"
  unfolding sqlite_MarkDeadLetterReplayed_def find_filter_length
  by (simp add: sqlite_simps assms dead_row_of_def row_dead_def replayed_dead_def cong: if_cong)

lemma DeleteDead_plain:
  assumes "db_open s"
  shows "sqlite_DeleteDeadLetter reliable s i =
    (if dead_row_at s i = None then Some ErrNotFound else None,
     s\<lparr>db_dead_letters := filter (\<lambda>r. dr_id r \<noteq> i) (db_dead_letters s)\<rparr>)"
  unfolding sqlite_DeleteDeadLetter_def find_filter_length by (simp add: sqlite_simps assms)

lemma CountDead_plain:
  "db_open s \<Longrightarrow> sqlite_CountDeadLetters reliable s q =
    Inr (int (length (filter (\<lambda>r. q = [] \<or> dr_queue r = q) (db_dead_letters s))))"
  by (simp add: sqlite_CountDeadLetters_def sqlite_simps)

definition row_event :: "time history_row \<Rightarrow> HistoryEvent" where
  "row_event r = \<lparr> he_MessageID = hr_message_id r, he_Queue = hr_queue r, he_From = hr_from_state r,
     he_To = hr_to_state r, he_Consumer = hr_consumer r, he_Detail = hr_detail r, he_At = hr_at r \<rparr>"

definition events_of :: "plain_db \<Rightarrow> string \<Rightarrow> HistoryEvent list" where
  "events_of s i = map row_event (filter (\<lambda>r. hr_message_id r = i) (db_history s))"

lemma History_plain:
  assumes o: "db_open s" and seq: "sorted (map hr_id (db_history s))"
  shows "sqlite_History plain_codec reliable s i = Inr (events_of s i)"
proof -
  have "sort_key hr_id (filter P (db_history s)) = filter P (db_history s)" for P
    using seq by (intro sort_key_id_if_sorted) (simp add: sorted_filter)
  moreover have "scan_rows reliable s (scan_history plain_codec reliable s) 0 rows = Inr (map row_event rows)" for rows
    by (rule scan_rows_reliable) (simp_all add: o scan_history_def sqlite_simps row_event_def)
  ultimately show ?thesis by (simp add: sqlite_History_def events_of_def sqlite_simps o)
qed

lemma AppendHistory_plain:
  assumes "db_open s"
  shows "fst (sqlite_AppendHistory plain_codec reliable s h) = None"
    "events_of (snd (sqlite_AppendHistory plain_codec reliable s h)) i =
      (if i = he_MessageID h then events_of s i @ [h] else events_of s i)"
  by (simp_all add: sqlite_AppendHistory_def sqlite_simps assms events_of_def row_event_def)

end
