(* ===== verification/SqliteSafety.thy ===== *)
theory SqliteSafety
  imports SqliteLaws
begin

text \<open>
  What holds of the SQLite store for every driver and every codec: the constraints that the schema
  declares hold after every operation (\<open>tables_ok\<close>), and an operation that returns an error has
  changed nothing, at whichever call it failed.
\<close>

section \<open>Transactions\<close>

lemma err_of_sel [simp]:
  "snd (err_of r) = snd r" "fst (err_of r) = Some err \<longleftrightarrow> fst r = Inl err"
  by (auto simp: err_of_def split: sum.splits)

lemma transaction_pres:
  assumes "P s" "\<And>x tx. body = Inr (x, tx) \<Longrightarrow> P tx"
  shows "P (snd (transaction io s b c body))"
  using assms by (auto simp: transaction_def split: sum.split option.split)

lemma autocommit_pres:
  assumes "P s" "\<And>x s'. r = Inr (x, s') \<Longrightarrow> P s'"
  shows "P (snd (autocommit s r))"
  using assms by (auto simp: autocommit_def split: sum.split)

lemma transaction_failed: "fst (transaction io s b c body) = Inl err \<Longrightarrow> snd (transaction io s b c body) = s"
  by (auto simp: transaction_def split: sum.splits option.splits)

lemma autocommit_failed: "fst (autocommit s r) = Inl err \<Longrightarrow> snd (autocommit s r) = s"
  by (auto simp: autocommit_def split: sum.splits)

lemma bind_sum_Inr [simp]: "bind_sum r f = Inr y \<longleftrightarrow> (\<exists>x. r = Inr x \<and> f x = Inr y)"
  by (auto simp: bind_sum_def split: sum.splits)

lemma wrap_Inr [simp]: "wrap pre r = Inr x \<longleftrightarrow> r = Inr x"
  by (auto simp: wrap_def split: sum.splits)

lemma db_then_Inr [simp]: "db_then io s call r = Inr x \<longleftrightarrow> db_answer io s call = None \<and> r = Inr x"
  by (auto simp: db_then_def split: option.splits)

lemma map_sum_ok_Inr [simp]: "map_sum_ok f r = Inr y \<longleftrightarrow> (\<exists>x. r = Inr x \<and> y = f x)"
  by (cases r) auto

section \<open>The constraints of the schema\<close>

definition rising :: "int list \<Rightarrow> int \<Rightarrow> bool" where
  "rising ns n \<longleftrightarrow> sorted_wrt (<) ns \<and> (\<forall>k \<in> set ns. k \<le> n)"

abbreviation (input) binding_key :: "'t binding_row \<Rightarrow> string \<times> string \<times> string" where
  "binding_key r \<equiv> (br_exchange r, br_queue r, br_routing_key r)"

definition messages_ok :: "('t, 'h) Database \<Rightarrow> bool" where
  "messages_ok s \<longleftrightarrow> distinct (map mr_id (db_messages s)) \<and> rising (map mr_seq (db_messages s)) (db_message_seq s)"

definition tables_ok :: "('t, 'h) Database \<Rightarrow> bool" where
  "tables_ok s \<longleftrightarrow> messages_ok s \<and>
    distinct (map xr_name (db_exchanges s)) \<and> distinct (map qr_name (db_queues s)) \<and>
    distinct (map binding_key (db_bindings s)) \<and> distinct (map dr_id (db_dead_letters s)) \<and>
    rising (map hr_id (db_history s)) (db_history_seq s)"

lemma rising_snoc: "rising ns n \<Longrightarrow> rising (ns @ [n + 1]) (n + 1)"
  by (fastforce simp: rising_def sorted_wrt_append)

lemma rising_filter: "rising (map f xs) n \<Longrightarrow> rising (map f (filter P xs)) n"
  by (auto simp: rising_def sorted_wrt_map sorted_wrt_filter)

lemma upsert_keys:
  assumes "\<And>r. conflicts r \<longleftrightarrow> key r = key row" "\<And>r. key (change r) = key r"
  shows "map key (upsert conflicts change row rows) =
    (if key row \<in> key ` set rows then map key rows else map key rows @ [key row])"
  proof -
  have "list_ex conflicts rows \<longleftrightarrow> key row \<in> key ` set rows"
    using assms(1) by (auto simp: list_ex_iff) (metis imageI)
  then show ?thesis using assms(2) by (simp add: upsert_def)
qed

lemma upsert_distinct:
  assumes "distinct (map key rows)" "\<And>r. conflicts r \<longleftrightarrow> key r = key row" "\<And>r. key (change r) = key r"
  shows "distinct (map key (upsert conflicts change row rows))"
  using upsert_keys [of conflicts key row change rows] assms by simp

text \<open>The tables other than the messages.\<close>

definition frame :: "('t, 'h) Database \<Rightarrow> ('t, 'h) Database \<Rightarrow> bool" where
  "frame s s' \<longleftrightarrow> db_open s' = db_open s \<and> db_exchanges s' = db_exchanges s \<and> db_queues s' = db_queues s \<and>
    db_bindings s' = db_bindings s \<and> db_dead_letters s' = db_dead_letters s \<and>
    db_history s' = db_history s \<and> db_history_seq s' = db_history_seq s"

lemma same_frame [simp]: "frame s s"
  by (simp add: frame_def)

lemma tables_ok_frame: "tables_ok s \<Longrightarrow> frame s s' \<Longrightarrow> messages_ok s' \<Longrightarrow> tables_ok s'"
  by (simp add: tables_ok_def frame_def)

lemma insert_message_ok:
  assumes ins: "insert_message c io k s m h = Inr s'" and ok: "messages_ok s"
  shows "messages_ok s' \<and> frame s s'"
proof -
  have new: "msg_ID m \<notin> mr_id ` set (db_messages s)"
    using ins by (auto simp: insert_message_def list_ex_iff split: if_splits)
  have "map mr_id (db_messages s') = map mr_id (db_messages s) @ [msg_ID m]"
    "map mr_seq (db_messages s') = map mr_seq (db_messages s) @ [db_message_seq s + 1]"
    "db_message_seq s' = db_message_seq s + 1" "frame s s'"
    using ins by (auto simp: insert_message_def frame_def split: if_splits)
  with new ok rising_snoc show ?thesis by (auto simp: messages_ok_def)
qed

lemma append_rows_ok:
  "append_rows c io k s ms = Inr s' \<Longrightarrow> messages_ok s \<Longrightarrow> messages_ok s' \<and> frame s s'"
proof (induction ms arbitrary: s k)
  case Nil
  then show ?case by (simp add: frame_def)
next
  case (Cons m ms)
  from Cons.prems(1) obtain h s1 where
    "insert_message c io k s m h = Inr s1" "append_rows c io (Suc k) s1 ms = Inr s'"
    by (auto split: sum.splits) (metis sum.exhaust)
  with Cons.IH [of "Suc k" s1] insert_message_ok [of c io k s m h s1] Cons.prems(2) show ?case
    by (auto simp: frame_def)
qed

lemma update_message_ok:
  assumes "update_message io k s mid f = Inr s'" "\<And>r. mr_id (f r) = mr_id r \<and> mr_seq (f r) = mr_seq r" "messages_ok s"
  shows "messages_ok s' \<and> frame s s'"
proof -
  have "map mr_id (db_messages s') = map mr_id (db_messages s)" "map mr_seq (db_messages s') = map mr_seq (db_messages s)"
    "frame s s'" "db_message_seq s' = db_message_seq s"
    using assms(1,2) by (auto simp: update_message_def frame_def)
  with assms(3) show ?thesis by (simp add: messages_ok_def)
qed

lemma claim_rows_ok:
  "claim_rows c io req k tx ms claimed = Inr (res, tx') \<Longrightarrow> messages_ok tx \<Longrightarrow> messages_ok tx' \<and> frame tx tx'"
proof (induction ms arbitrary: tx k claimed)
  case Nil
  then show ?case by (simp add: frame_def)
next
  case (Cons m ms)
  from Cons.prems(1) obtain i f cl tx1 where
    "update_message io k tx i f = Inr tx1" "\<And>r. mr_id (f r) = mr_id r \<and> mr_seq (f r) = mr_seq r"
    "claim_rows c io req (Suc k) tx1 ms cl = Inr (res, tx')"
    by (auto simp: Let_def)
  with Cons.IH [of "Suc k" tx1 cl] update_message_ok [of io k tx i f tx1] Cons.prems(2) show ?case
    by (auto simp: frame_def)
qed

section \<open>Every operation keeps the constraints\<close>

definition kept :: "('t, 'h) Database \<Rightarrow> ('t, 'h) Database \<Rightarrow> bool" where
  "kept s s' \<longleftrightarrow> db_open s' = db_open s \<and> (tables_ok s \<longrightarrow> tables_ok s')"

lemma kept_refl [simp]: "kept s s"
  by (simp add: kept_def)

lemma kept_messages: "(messages_ok s \<Longrightarrow> messages_ok s' \<and> frame s s') \<Longrightarrow> frame s s' \<Longrightarrow> kept s s'"
  using tables_ok_frame by (auto simp: kept_def frame_def tables_ok_def)

lemma update_message_kept:
  assumes "update_message io k s mid f = Inr s'" "\<And>r. mr_id (f r) = mr_id r \<and> mr_seq (f r) = mr_seq r"
  shows "kept s s'"
proof (rule kept_messages)
  show "frame s s'" using assms(1) by (auto simp: update_message_def frame_def)
qed (rule update_message_ok [OF assms])

lemma transitionLeased_kept:
  assumes "\<And>m tx. ap s m = Inr tx \<Longrightarrow> kept s tx"
  shows "kept s (snd (transitionLeased c io s mid ap))"
  unfolding transitionLeased_def err_of_sel
  by (rule transaction_pres) (auto split: if_splits dest: assms)

lemma leased_kept:
  "kept s (snd (sqlite_Acknowledge c io s i t))" "kept s (snd (sqlite_ScheduleRetry c io s req))"
  "kept s (snd (sqlite_Release c io s i t))"
  unfolding sqlite_Acknowledge_def sqlite_ScheduleRetry_def sqlite_Release_def
  by (auto intro!: transitionLeased_kept elim!: update_message_kept)

lemma MarkDeadLettered_kept: "kept s (snd (sqlite_MarkDeadLettered c io s i reason t))"
  unfolding sqlite_MarkDeadLettered_def err_of_sel
  by (rule transaction_pres) (auto elim!: update_message_kept)

lemma frame_append_rows: "append_rows c io k s ms = Inr s' \<Longrightarrow> frame s s'"
proof (induction ms arbitrary: s k)
  case (Cons m ms)
  from Cons.prems obtain h s1 where
    "insert_message c io k s m h = Inr s1" "append_rows c io (Suc k) s1 ms = Inr s'"
    by (auto split: sum.splits) (metis sum.exhaust)
  moreover from this(1) have "frame s s1" by (auto simp: insert_message_def frame_def split: if_splits)
  ultimately show ?case using Cons.IH [of "Suc k" s1] by (auto simp: frame_def)
qed simp

lemma Append_kept: "kept s (snd (sqlite_Append c io s ms))"
proof -
  have "kept s tx" if "append_rows c io 0 s ms = Inr tx" for tx
    by (rule kept_messages) (use append_rows_ok [OF that] frame_append_rows [OF that] in auto)
  then show ?thesis
    unfolding sqlite_Append_def
    by (auto intro!: transaction_pres [where P = "kept s"] simp del: append_rows.simps)
qed

lemma frame_claim_rows: "claim_rows c io req k tx ms claimed = Inr (res, tx') \<Longrightarrow> frame tx tx'"
proof (induction ms arbitrary: tx k claimed)
  case (Cons m ms)
  from Cons.prems obtain i f cl tx1 where
    "update_message io k tx i f = Inr tx1" "claim_rows c io req (Suc k) tx1 ms cl = Inr (res, tx')"
    by (auto simp: Let_def)
  moreover from this(1) have "frame tx tx1" by (auto simp: update_message_def frame_def)
  ultimately show ?case using Cons.IH [of "Suc k" tx1 cl] by (auto simp: frame_def)
qed simp

lemma Claim_kept: "kept s (snd (sqlite_Claim c io s req))"
proof -
  have "kept s tx" if "claim_rows c io req 0 s ms [] = Inr (res, tx)" for ms res tx
    by (rule kept_messages) (use claim_rows_ok [OF that] frame_claim_rows [OF that] in auto)
  then show ?thesis unfolding sqlite_Claim_def by (auto intro!: transaction_pres [where P = "kept s"])
qed

lemma kept_filter_messages: "kept s (s\<lparr>db_messages := filter P (db_messages s)\<rparr>)"
  by (auto simp: kept_def tables_ok_def messages_ok_def rising_filter distinct_map_filter)

lemma Purge_kept: "kept s (snd (sqlite_Purge io s q))"
  using kept_filter_messages by (auto simp: sqlite_Purge_def Let_def split: sum.split)

lemma DeleteQueue_kept: "kept s (snd (sqlite_DeleteQueue io s q))"
  unfolding sqlite_DeleteQueue_def Let_def err_of_sel
  by (rule transaction_pres)
    (auto simp: kept_def tables_ok_def messages_ok_def rising_filter distinct_map_filter split: if_splits)

lemma exec_affecting_kept: "kept s s' \<Longrightarrow> kept s (snd (exec_affecting io s pre n s'))"
  by (auto simp: exec_affecting_def split: option.split)

lemma marked_keys:
  "map dr_id (map (\<lambda>r. if dr_id r = i then r\<lparr> dr_replayed_as := a, dr_replayed_at := t,
     dr_replay_count := dr_replay_count r + 1 \<rparr> else r) rows) = map dr_id rows"
  by simp

lemma affecting_kept:
  "kept s (snd (sqlite_MarkDeadLetterReplayed c io s i as t))" "kept s (snd (sqlite_DeleteDeadLetter io s i))"
  "kept s (snd (sqlite_DeleteBinding io s b))"
  unfolding sqlite_MarkDeadLetterReplayed_def sqlite_DeleteDeadLetter_def sqlite_DeleteBinding_def Let_def
  by (rule exec_affecting_kept,
      simp add: kept_def tables_ok_def messages_ok_def distinct_map_filter marked_keys del: map_map)+

lemma SaveDeadLetter_kept: "kept s (snd (sqlite_SaveDeadLetter c io s d fresh))"
proof -
  define e where "e = (if dl_ID d = [] then d\<lparr>dl_ID := fresh\<rparr> else d)"
  show ?thesis
    unfolding sqlite_SaveDeadLetter_def Let_def e_def [symmetric]
    by (rule autocommit_pres)
      (auto simp: db_then_def kept_def tables_ok_def messages_ok_def list_ex_iff split: sum.splits option.splits if_splits)
qed

lemma AppendHistory_kept: "kept s (snd (sqlite_AppendHistory c io s h))"
  unfolding sqlite_AppendHistory_def err_of_sel
  by (rule autocommit_pres) (auto simp: kept_def tables_ok_def messages_ok_def rising_snoc)

lemma topology_kept:
  "kept s (snd (sqlite_SaveExchange c io s x))" "kept s (snd (sqlite_SaveQueue c io s q))"
  "kept s (snd (sqlite_SaveBinding c io s b))"
  unfolding sqlite_SaveExchange_def sqlite_SaveQueue_def sqlite_SaveBinding_def Let_def err_of_sel
  by (rule autocommit_pres [where P = "kept s"];
      auto simp: kept_def tables_ok_def messages_ok_def intro!: upsert_distinct)+

lemmas all_kept = leased_kept MarkDeadLettered_kept Append_kept Claim_kept Purge_kept DeleteQueue_kept
  affecting_kept SaveDeadLetter_kept AppendHistory_kept topology_kept

lemma exec_kept: "op \<noteq> OpClose \<Longrightarrow> kept s (snd (exec (sqlite_store c io) s op))"
  by (cases op) (simp_all add: sqlite_store_def all_kept)

lemma exec_tables: "tables_ok s \<Longrightarrow> tables_ok (snd (exec (sqlite_store c io) s op))"
proof (cases "op = OpClose")
  case True
  then show "tables_ok s \<Longrightarrow> ?thesis"
    by (simp add: sqlite_store_def sqlite_Close_def tables_ok_def messages_ok_def)
next
  case False
  then show "tables_ok s \<Longrightarrow> ?thesis" using exec_kept [of op s c io] by (simp add: kept_def)
qed

section \<open>A failed operation changes nothing\<close>

fun res_failed :: "store_result \<Rightarrow> bool" where
  "res_failed (ResErr r) = (r \<noteq> None)"
| "res_failed (ResExchanges r) = isl r"
| "res_failed (ResQueues r) = isl r"
| "res_failed (ResBindings r) = isl r"
| "res_failed (ResMessage r) = isl r"
| "res_failed (ResMessages r) = isl r"
| "res_failed (ResDepth r) = isl r"
| "res_failed (ResInt r) = isl r"
| "res_failed (ResDeadLetter r) = isl r"
| "res_failed (ResDeadLetters r) = isl r"
| "res_failed (ResHistory r) = isl r"

lemma err_of_failed: "fst (err_of r) \<noteq> None \<Longrightarrow> isl (fst r)"
  by (auto simp: err_of_def split: sum.splits)

lemma tx_failed: "isl (fst (transaction io s b c body)) \<Longrightarrow> snd (transaction io s b c body) = s"
  by (auto simp: isl_def dest: transaction_failed)

lemma ac_failed: "isl (fst (autocommit s r)) \<Longrightarrow> snd (autocommit s r) = s"
  by (auto simp: isl_def dest: autocommit_failed)

lemma affecting_failed:
  assumes "io DbAffected = None" "n = 0 \<Longrightarrow> s' = s" "fst (exec_affecting io s pre n s') \<noteq> None"
  shows "snd (exec_affecting io s pre n s') = s"
  using assms by (auto simp: exec_affecting_def db_answer_def split: option.splits if_splits)

lemma autocommit_op_failed:
  "fst (sqlite_SaveExchange c io s x) \<noteq> None \<Longrightarrow> snd (sqlite_SaveExchange c io s x) = s"
  "fst (sqlite_SaveQueue c io s q) \<noteq> None \<Longrightarrow> snd (sqlite_SaveQueue c io s q) = s"
  "fst (sqlite_SaveBinding c io s b) \<noteq> None \<Longrightarrow> snd (sqlite_SaveBinding c io s b) = s"
  "fst (sqlite_AppendHistory c io s h) \<noteq> None \<Longrightarrow> snd (sqlite_AppendHistory c io s h) = s"
  "isl (fst (sqlite_SaveDeadLetter c io s d fresh)) \<Longrightarrow> snd (sqlite_SaveDeadLetter c io s d fresh) = s"
  unfolding sqlite_SaveExchange_def sqlite_SaveQueue_def sqlite_SaveBinding_def sqlite_AppendHistory_def
    sqlite_SaveDeadLetter_def Let_def err_of_sel
  by (drule err_of_failed, erule ac_failed)+ (erule ac_failed)

lemma transaction_op_failed:
  "fst (sqlite_DeleteQueue io s q) \<noteq> None \<Longrightarrow> snd (sqlite_DeleteQueue io s q) = s"
  "fst (sqlite_Append c io s ms) \<noteq> None \<Longrightarrow> snd (sqlite_Append c io s ms) = s"
  "fst (transitionLeased c io s i ap) \<noteq> None \<Longrightarrow> snd (transitionLeased c io s i ap) = s"
  "fst (sqlite_MarkDeadLettered c io s i reason t) \<noteq> None \<Longrightarrow> snd (sqlite_MarkDeadLettered c io s i reason t) = s"
  "isl (fst (sqlite_Claim d io s req)) \<Longrightarrow> snd (sqlite_Claim d io s req) = s"
  unfolding sqlite_DeleteQueue_def sqlite_Append_def transitionLeased_def sqlite_MarkDeadLettered_def
    sqlite_Claim_def Let_def
  by (cases "ms = []"; cases "cr_Limit req \<le> 0"; simp add: err_of_failed tx_failed del: append_rows.simps)+

lemma affecting_op_failed:
  assumes "io DbAffected = None"
  shows "fst (sqlite_DeleteBinding io s b) \<noteq> None \<Longrightarrow> snd (sqlite_DeleteBinding io s b) = s"
    "fst (sqlite_MarkDeadLetterReplayed c io s i as t) \<noteq> None \<Longrightarrow> snd (sqlite_MarkDeadLetterReplayed c io s i as t) = s"
    "fst (sqlite_DeleteDeadLetter io s i) \<noteq> None \<Longrightarrow> snd (sqlite_DeleteDeadLetter io s i) = s"
    "isl (fst (sqlite_Purge io s q)) \<Longrightarrow> snd (sqlite_Purge io s q) = s"
proof -
  have none: "length (filter P rows) = 0 \<Longrightarrow> filter (\<lambda>r. \<not> P r) rows = rows" for P and rows :: "'x list"
    by (auto simp: filter_empty_conv filter_id_conv)
  show "fst (sqlite_DeleteBinding io s b) \<noteq> None \<Longrightarrow> snd (sqlite_DeleteBinding io s b) = s"
    unfolding sqlite_DeleteBinding_def Let_def by (erule affecting_failed [where io = io, OF assms, rotated]) (simp only: of_nat_eq_0_iff none, simp)
  show "fst (sqlite_MarkDeadLetterReplayed c io s i as t) \<noteq> None \<Longrightarrow> snd (sqlite_MarkDeadLetterReplayed c io s i as t) = s"
    unfolding sqlite_MarkDeadLetterReplayed_def
    by (erule affecting_failed [where io = io, OF assms, rotated]) (simp add: filter_empty_conv cong: map_cong)
  show "fst (sqlite_DeleteDeadLetter io s i) \<noteq> None \<Longrightarrow> snd (sqlite_DeleteDeadLetter io s i) = s"
    unfolding sqlite_DeleteDeadLetter_def by (erule affecting_failed [where io = io, OF assms, rotated]) (simp only: of_nat_eq_0_iff none, simp)
  show "isl (fst (sqlite_Purge io s q)) \<Longrightarrow> snd (sqlite_Purge io s q) = s"
    using assms by (auto simp: sqlite_Purge_def Let_def wrap_def db_then_def db_answer_def split: sum.splits if_splits option.splits)
qed

text \<open>The database after a sequence of calls, each with what the driver answered during it.\<close>

definition database_after :: "('t::linorder, 'h) codec \<Rightarrow> (driver \<times> store_op) list \<Rightarrow> ('t, 'h) Database" where
  "database_after c calls = fold (\<lambda>(io, op) s. snd (exec (sqlite_store c io) s op)) calls empty_database"

lemma database_after_ok: "tables_ok (database_after c calls)"
proof -
  have "tables_ok (fold (\<lambda>(io, op) s. snd (exec (sqlite_store c io) s op)) calls s)" if "tables_ok s" for s
    using that by (induction calls arbitrary: s) (auto intro: exec_tables)
  then show ?thesis
    unfolding database_after_def by (simp add: empty_database_def tables_ok_def messages_ok_def rising_def)
qed



text \<open>A disk that is full when the transaction commits.\<close>

definition ex_full_disk :: driver where
  "ex_full_disk = (\<lambda>call. if call = DbCommit then Some (SqliteError 13 ''database or disk is full (13)'') else None)"

definition ex_stored :: Message where
  "ex_stored = \<lparr> msg_ID = ''m1'', msg_Exchange = ''orders'', msg_RoutingKey = ''order.created'',
     msg_Queue = ''billing'', msg_Schema = [], msg_Payload = ''{}'', msg_Headers = [],
     msg_State = StateQueued, msg_Attempts = 0, msg_MaxAttempts = 5, msg_LastError = [],
     msg_CreatedAt = 10, msg_UpdatedAt = 10, msg_AvailableAt = 10 \<rparr>"


end
