(* ===== verification/Float64.thy ===== *)
theory Float64
  imports Prelude Complex_Main "HOL-Library.Log_Nat"
begin

text \<open>
  IEEE 754 double precision, as much of it as the retry policy uses: the values (the sign of zero
  left out, which no comparison and no conversion sees), round to nearest even on rationals, the
  arithmetic and comparisons on top of it, \<open>math.Frexp\<close>, \<open>math.Ldexp\<close> and \<open>math.Pow\<close> of the Go
  library for integral exponents that are not negative, and the conversions from and to \<open>int64\<close>.
\<close>

datatype f64 = FNaN | PInf | NInf | Fin rat

section \<open>Rounding\<close>

definition two_powi :: "int \<Rightarrow> rat" where
  "two_powi k = (if 0 \<le> k then 2 ^ nat k else 1 / 2 ^ nat (- k))"

text \<open>The binary exponent of a positive rational: \<open>2 ^ k \<le> x < 2 ^ (k + 1)\<close>.\<close>

definition exponent :: "rat \<Rightarrow> int" where
  "exponent x =
    (let (a, b) = quotient_of x; k = bitlen a - bitlen b
     in if two_powi k \<le> x then k else k - 1)"

definition round_half_even :: "rat \<Rightarrow> int" where
  "round_half_even x =
    (let f = \<lfloor>x\<rfloor>; d = x - of_int f
     in if d < 1 / 2 then f else if d > 1 / 2 then f + 1 else if even f then f else f + 1)"

text \<open>The rounding of a positive rational: 53 significant bits, fewer below the normal range.\<close>

definition round_pos :: "rat \<Rightarrow> rat" where
  "round_pos x =
    (let e = max (exponent x - 52) (- 1074)
     in of_int (round_half_even (x / two_powi e)) * two_powi e)"

definition rnd :: "rat \<Rightarrow> rat" where
  "rnd x = (if x = 0 then 0 else if 0 < x then round_pos x else - round_pos (- x))"

definition f_round :: "rat \<Rightarrow> f64" where
  "f_round x =
    (let r = rnd x in if two_powi 1024 \<le> r then PInf else if r \<le> - two_powi 1024 then NInf else Fin r)"

section \<open>Arithmetic and comparison\<close>

definition f_inf :: "bool \<Rightarrow> f64" where
  "f_inf negative = (if negative then NInf else PInf)"

fun f_mul :: "f64 \<Rightarrow> f64 \<Rightarrow> f64" where
  "f_mul FNaN y = FNaN"
| "f_mul x FNaN = FNaN"
| "f_mul (Fin x) (Fin y) = f_round (x * y)"
| "f_mul (Fin x) PInf = (if x = 0 then FNaN else f_inf (x < 0))"
| "f_mul (Fin x) NInf = (if x = 0 then FNaN else f_inf (0 < x))"
| "f_mul PInf (Fin y) = (if y = 0 then FNaN else f_inf (y < 0))"
| "f_mul NInf (Fin y) = (if y = 0 then FNaN else f_inf (0 < y))"
| "f_mul PInf PInf = PInf"
| "f_mul PInf NInf = NInf"
| "f_mul NInf PInf = NInf"
| "f_mul NInf NInf = PInf"

fun f_add :: "f64 \<Rightarrow> f64 \<Rightarrow> f64" where
  "f_add FNaN y = FNaN"
| "f_add x FNaN = FNaN"
| "f_add (Fin x) (Fin y) = f_round (x + y)"
| "f_add (Fin x) y = y"
| "f_add x (Fin y) = x"
| "f_add PInf PInf = PInf"
| "f_add NInf NInf = NInf"
| "f_add PInf NInf = FNaN"
| "f_add NInf PInf = FNaN"

fun f_neg :: "f64 \<Rightarrow> f64" where
  "f_neg FNaN = FNaN"
| "f_neg PInf = NInf"
| "f_neg NInf = PInf"
| "f_neg (Fin x) = Fin (- x)"

definition f_sub :: "f64 \<Rightarrow> f64 \<Rightarrow> f64" where
  "f_sub x y = f_add x (f_neg y)"

fun f_less :: "f64 \<Rightarrow> f64 \<Rightarrow> bool" where
  "f_less FNaN y = False"
| "f_less x FNaN = False"
| "f_less (Fin x) (Fin y) = (x < y)"
| "f_less NInf y = (y \<noteq> NInf)"
| "f_less x PInf = (x \<noteq> PInf)"
| "f_less x y = False"

fun f_eq :: "f64 \<Rightarrow> f64 \<Rightarrow> bool" where
  "f_eq FNaN y = False"
| "f_eq x y = (x = y)"

definition f_le :: "f64 \<Rightarrow> f64 \<Rightarrow> bool" where
  "f_le x y = (f_less x y \<or> f_eq x y)"

definition IsInf :: "f64 \<Rightarrow> bool" where
  "IsInf x = (x = PInf \<or> x = NInf)"

definition of_int64 :: "int \<Rightarrow> f64" where
  "of_int64 n = f_round (of_int n)"

text \<open>The conversion to \<open>int64\<close> truncates; out of range and for a NaN the language leaves the result
  to the implementation, which is the argument \<open>oor\<close>.\<close>

definition truncate :: "rat \<Rightarrow> int" where
  "truncate x = (if 0 \<le> x then \<lfloor>x\<rfloor> else - \<lfloor>- x\<rfloor>)"

fun to_int64 :: "(f64 \<Rightarrow> int) \<Rightarrow> f64 \<Rightarrow> int" where
  "to_int64 oor (Fin x) =
    (if - (2 ^ 63) \<le> truncate x \<and> truncate x < 2 ^ 63 then truncate x else oor (Fin x))"
| "to_int64 oor x = oor x"

section \<open>math.Pow\<close>

text \<open>\<open>math.Frexp\<close> on a finite number other than zero.\<close>

definition Frexp :: "rat \<Rightarrow> rat \<times> int" where
  "Frexp x = (let e = exponent \<bar>x\<bar> + 1 in (x / two_powi e, e))"

definition Ldexp :: "f64 \<Rightarrow> int \<Rightarrow> f64" where
  "Ldexp fr e = (case fr of
     Fin x \<Rightarrow> if x = 0 then Fin 0
       else if exponent \<bar>x\<bar> + e < - 1075 then Fin 0
       else if exponent \<bar>x\<bar> + e > 1023 then f_inf (x < 0)
       else f_round (x * two_powi e)
   | _ \<Rightarrow> fr)"

text \<open>The loop of \<open>math.Pow\<close> that multiplies the answer \<open>a1 * 2 ^ ae\<close> by \<open>(x1 * 2 ^ xe) ^ i\<close>.\<close>

fun pow_loop :: "nat \<Rightarrow> f64 \<Rightarrow> int \<Rightarrow> f64 \<Rightarrow> int \<Rightarrow> f64 \<times> int" where
  "pow_loop i x1 xe a1 ae =
    (if i = 0 then (a1, ae)
     else if xe < - 4096 \<or> 4096 < xe then (a1, ae + xe)
     else let (a1, ae) = (if odd i then (f_mul a1 x1, ae + xe) else (a1, ae));
              x1 = f_mul x1 x1;
              xe = xe * 2;
              (x1, xe) = (if f_less x1 (Fin (1 / 2)) then (f_add x1 x1, xe - 1) else (x1, xe))
          in pow_loop (i div 2) x1 xe a1 ae)"

declare pow_loop.simps [simp del]

definition math_Pow :: "f64 \<Rightarrow> nat \<Rightarrow> f64" where
  "math_Pow x y =
    (if y = 0 \<or> x = Fin 1 then Fin 1
     else if y = 1 then x
     else case x of
       FNaN \<Rightarrow> FNaN
     | PInf \<Rightarrow> PInf
     | NInf \<Rightarrow> f_inf (odd y)
     | Fin q \<Rightarrow>
         if q = 0 then Fin 0
         else if 2 ^ 63 \<le> y
         then (if q = - 1 then Fin 1 else if \<bar>q\<bar> < 1 then Fin 0 else PInf)
         else let (x1, xe) = Frexp q; (a1, ae) = pow_loop y (Fin x1) xe (Fin 1) 0
              in Ldexp a1 ae)"

section \<open>Rounding is monotone and exact on short numbers\<close>

lemma two_powi_add: "two_powi (j + k) = two_powi j * two_powi k"
proof -
  have *: "two_powi j = 2 powi j" for j
    by (simp add: two_powi_def power_int_def inverse_eq_divide power_one_over)
  show ?thesis unfolding * by (simp add: power_int_add)
qed

lemma two_powi_pos [simp]: "0 < two_powi k"
  by (simp add: two_powi_def)

lemma two_powi_nz [simp]: "two_powi k \<noteq> 0"
  using two_powi_pos [of k] by linarith

lemma two_powi_0 [simp]: "two_powi 0 = 1"
  by (simp add: two_powi_def)

lemma two_powi_1 [simp]: "two_powi 1 = 2"
  by (simp add: two_powi_def)

lemma two_powi_nat: "two_powi (int n) = 2 ^ n"
  by (simp add: two_powi_def)

lemma two_powi_mono: "j \<le> k \<Longrightarrow> two_powi j \<le> two_powi k"
proof -
  assume "j \<le> k"
  then have "two_powi k = two_powi j * two_powi (k - j)" by (simp flip: two_powi_add)
  moreover have "1 \<le> two_powi (k - j)" using \<open>j \<le> k\<close> by (simp add: two_powi_def)
  ultimately show ?thesis by simp
qed

lemma two_powi_less_iff: "two_powi j < two_powi k \<longleftrightarrow> j < k"
proof -
  have "two_powi j < two_powi k" if "j < k" for j k
  proof -
    have "two_powi j < two_powi (j + 1)" by (simp add: two_powi_add)
    also have "\<dots> \<le> two_powi k" using that by (intro two_powi_mono) simp
    finally show ?thesis .
  qed
  then show ?thesis using two_powi_mono [of k j] by (metis linorder_not_less)
qed

lemma two_powi_int: "0 \<le> k \<Longrightarrow> two_powi k = of_int (2 ^ nat k)"
  by (simp add: two_powi_def)

lemma exponent_bounds:
  assumes "0 < x"
  shows "two_powi (exponent x) \<le> x" and "x < two_powi (exponent x + 1)"
proof -
  obtain a b where q: "quotient_of x = (a, b)" by fastforce
  have b: "0 < b" using quotient_of_denom_pos [OF q] .
  have x: "x = of_int a / of_int b" using quotient_of_div [OF q] .
  have a: "0 < a" using assms b unfolding x by (simp add: zero_less_divide_iff)
  let ?A = "bitlen a" and ?B = "bitlen b"
  have len: "1 \<le> bitlen n" if "0 < n" for n using that bitlen_bounds [of n] by (cases "bitlen n \<le> 0") auto
  have pow: "two_powi (bitlen n - 1) \<le> of_int n \<and> of_int n < two_powi (bitlen n)" if "0 < n" for n
  proof -
    have "2 ^ nat (bitlen n - 1) \<le> n" "n < 2 ^ nat (bitlen n)" using bitlen_bounds [OF that] by simp_all
    then have "(of_int (2 ^ nat (bitlen n - 1)) :: rat) \<le> of_int n" "(of_int n :: rat) < of_int (2 ^ nat (bitlen n))"
      by linarith+
    then show ?thesis using len [OF that] by (simp add: two_powi_int)
  qed
  have bpos: "(0::rat) < of_int b" using b by simp
  have up: "x < two_powi (?A - ?B + 1)"
  proof -
    have "two_powi ?A = two_powi (?A - ?B + 1) * two_powi (?B - 1)" by (simp flip: two_powi_add)
    also have "\<dots> \<le> two_powi (?A - ?B + 1) * of_int b"
      using pow [OF b] by (intro mult_left_mono) (simp_all add: less_imp_le)
    finally show ?thesis using pow [OF a] bpos by (simp add: x pos_divide_less_eq)
  qed
  have low: "two_powi (?A - ?B - 1) \<le> x"
  proof -
    have "two_powi (?A - ?B - 1) * of_int b \<le> two_powi (?A - ?B - 1) * two_powi ?B"
      using pow [OF b] by (intro mult_left_mono) (simp_all add: less_imp_le)
    also have "\<dots> = two_powi (?A - 1)" by (simp flip: two_powi_add)
    finally show ?thesis using pow [OF a] bpos by (simp add: x pos_le_divide_eq)
  qed
  show "two_powi (exponent x) \<le> x" and "x < two_powi (exponent x + 1)"
    using up low by (auto simp: exponent_def q Let_def)
qed

lemma exponent_unique:
  assumes "0 < x" "two_powi k \<le> x" "x < two_powi (k + 1)"
  shows "exponent x = k"
proof -
  have "two_powi (exponent x) < two_powi (k + 1)" "two_powi k < two_powi (exponent x + 1)"
    using exponent_bounds [OF assms(1)] assms by linarith+
  then show ?thesis unfolding two_powi_less_iff by simp
qed

lemma exponent_two_powi [simp]: "exponent (two_powi k) = k"
  by (rule exponent_unique) (simp_all add: two_powi_less_iff)

lemma exponent_mono: "0 < x \<Longrightarrow> x \<le> y \<Longrightarrow> exponent x \<le> exponent y"
proof -
  assume "0 < x" "x \<le> y"
  then have "two_powi (exponent x) < two_powi (exponent y + 1)"
    using exponent_bounds [of x] exponent_bounds [of y] by linarith
  then show ?thesis unfolding two_powi_less_iff by simp
qed

lemma round_half_even_int [simp]: "round_half_even (of_int n) = n"
  by (simp add: round_half_even_def)

lemma round_half_even_bounds: "\<lfloor>x\<rfloor> \<le> round_half_even x" "round_half_even x \<le> \<lceil>x\<rceil>"
proof -
  show "\<lfloor>x\<rfloor> \<le> round_half_even x" by (simp add: round_half_even_def Let_def)
  show "round_half_even x \<le> \<lceil>x\<rceil>"
  proof (cases "x = of_int \<lfloor>x\<rfloor>")
    case True
    then have "round_half_even x = \<lfloor>x\<rfloor>" using round_half_even_int [of "\<lfloor>x\<rfloor>"] by simp
    then show ?thesis using floor_le_ceiling [of x] by simp
  next
    case False
    then have "\<lceil>x\<rceil> = \<lfloor>x\<rfloor> + 1" by (simp add: ceiling_altdef)
    then show ?thesis by (simp add: round_half_even_def Let_def)
  qed
qed

lemma round_half_even_mono: "x \<le> y \<Longrightarrow> round_half_even x \<le> round_half_even y"
proof -
  assume xy: "x \<le> y"
  show ?thesis
  proof (cases "\<lfloor>x\<rfloor> = \<lfloor>y\<rfloor>")
    case True
    with xy show ?thesis by (auto simp: round_half_even_def Let_def)
  next
    case False
    with xy have "\<lfloor>x\<rfloor> + 1 \<le> \<lfloor>y\<rfloor>" using floor_mono [OF xy] by simp
    moreover have "round_half_even x \<le> \<lfloor>x\<rfloor> + 1" by (simp add: round_half_even_def Let_def)
    ultimately show ?thesis using round_half_even_bounds(1) [of y] by linarith
  qed
qed

definition unit_exp :: "rat \<Rightarrow> int" where
  "unit_exp x = max (exponent x - 52) (- 1074)"

lemma round_pos_unit:
  "round_pos x = of_int (round_half_even (x / two_powi (unit_exp x))) * two_powi (unit_exp x)"
  by (simp add: round_pos_def unit_exp_def Let_def)

lemma two_powi_divide: "two_powi j / two_powi k = two_powi (j - k)"
  using two_powi_add [of "j - k" k] by (simp add: field_simps)

text \<open>A power of two that the unit divides bounds the rounding from both sides.\<close>

lemma round_le_power:
  assumes "x \<le> two_powi k" and "unit_exp x \<le> k"
  shows "round_pos x \<le> two_powi k"
proof -
  let ?e = "unit_exp x"
  have "x / two_powi ?e \<le> two_powi (k - ?e)"
    using assms(1) by (simp add: divide_right_mono less_imp_le flip: two_powi_divide)
  then have "round_half_even (x / two_powi ?e) \<le> round_half_even (two_powi (k - ?e))"
    by (rule round_half_even_mono)
  also have "\<dots> = 2 ^ nat (k - ?e)" using assms(2) by (simp only: two_powi_int round_half_even_int)
  finally have "(of_int (round_half_even (x / two_powi ?e)) :: rat) \<le> of_int (2 ^ nat (k - ?e))"
    by linarith
  then have "of_int (round_half_even (x / two_powi ?e)) \<le> two_powi (k - ?e)"
    using assms(2) by (simp add: two_powi_int)
  then have "round_pos x \<le> two_powi (k - ?e) * two_powi ?e"
    unfolding round_pos_unit by (intro mult_right_mono) (simp_all add: less_imp_le)
  then show ?thesis by (simp flip: two_powi_add)
qed

lemma round_ge_power:
  assumes "two_powi k \<le> x" and "unit_exp x \<le> k"
  shows "two_powi k \<le> round_pos x"
proof -
  let ?e = "unit_exp x"
  have "two_powi (k - ?e) \<le> x / two_powi ?e"
    using assms(1) by (simp add: divide_right_mono less_imp_le flip: two_powi_divide)
  then have "round_half_even (two_powi (k - ?e)) \<le> round_half_even (x / two_powi ?e)"
    by (rule round_half_even_mono)
  moreover have "round_half_even (two_powi (k - ?e)) = 2 ^ nat (k - ?e)"
    using assms(2) by (simp only: two_powi_int round_half_even_int)
  ultimately have "(of_int (2 ^ nat (k - ?e)) :: rat) \<le> of_int (round_half_even (x / two_powi ?e))"
    by linarith
  then have "two_powi (k - ?e) \<le> of_int (round_half_even (x / two_powi ?e))"
    using assms(2) by (simp add: two_powi_int)
  then have "two_powi (k - ?e) * two_powi ?e \<le> round_pos x"
    unfolding round_pos_unit by (intro mult_right_mono) (simp_all add: less_imp_le)
  then show ?thesis by (simp flip: two_powi_add)
qed

lemma round_pos_mono:
  assumes "0 < x" and "x \<le> y"
  shows "round_pos x \<le> round_pos y"
proof (cases "unit_exp x = unit_exp y")
  case True
  have "x / two_powi (unit_exp y) \<le> y / two_powi (unit_exp y)"
    using assms(2) by (simp add: divide_right_mono less_imp_le)
  then have "round_half_even (x / two_powi (unit_exp y)) \<le> round_half_even (y / two_powi (unit_exp y))"
    by (rule round_half_even_mono)
  then show ?thesis
    unfolding round_pos_unit True by (intro mult_right_mono) (simp_all add: less_imp_le)
next
  case False
  have less: "exponent x < exponent y" and unit: "unit_exp y = exponent y - 52" "unit_exp x < exponent y - 52"
    using exponent_mono [OF assms] False by (auto simp: unit_exp_def)
  have "x \<le> two_powi (exponent y)"
    using exponent_bounds(2) [OF assms(1)] two_powi_mono [of "exponent x + 1" "exponent y"] less by simp
  then have "round_pos x \<le> two_powi (exponent y)" using unit by (intro round_le_power) simp_all
  also have "\<dots> \<le> round_pos y"
    using assms unit by (intro round_ge_power exponent_bounds(1)) simp_all
  finally show ?thesis .
qed

lemma round_pos_nonneg: "0 < x \<Longrightarrow> 0 \<le> round_pos x"
proof -
  assume "0 < x"
  then have "0 \<le> x / two_powi (unit_exp x)" by (simp add: less_imp_le)
  then have "0 \<le> \<lfloor>x / two_powi (unit_exp x)\<rfloor>" by (simp only: zero_le_floor)
  then have "0 \<le> round_half_even (x / two_powi (unit_exp x))"
    using round_half_even_bounds(1) [of "x / two_powi (unit_exp x)"] by linarith
  then show ?thesis unfolding round_pos_unit by (simp add: less_imp_le)
qed

lemma rnd_mono: "x \<le> y \<Longrightarrow> rnd x \<le> rnd y"
proof -
  assume xy: "x \<le> y"
  consider "0 < x" | "x \<le> 0" "0 \<le> y" | "y < 0" by linarith
  then show ?thesis
  proof cases
    case 1
    with xy round_pos_mono [of x y] show ?thesis by (simp add: rnd_def)
  next
    case 2
    then have "rnd x \<le> 0" "0 \<le> rnd y"
      using round_pos_nonneg [of "- x"] round_pos_nonneg [of y] by (simp_all add: rnd_def)
    then show ?thesis by linarith
  next
    case 3
    with xy round_pos_mono [of "- y" "- x"] show ?thesis by (simp add: rnd_def)
  qed
qed

lemma rnd_minus: "rnd (- x) = - rnd x"
  by (auto simp: rnd_def)

lemma rnd_exact:
  assumes "0 < x" and "unit_exp x \<le> e" and "x = of_int m * two_powi e"
  shows "rnd x = x"
proof -
  let ?u = "unit_exp x"
  have "x / two_powi ?u = of_int m * two_powi (e - ?u)"
    by (subst assms(3)) (simp flip: two_powi_divide)
  also have "\<dots> = of_int (m * 2 ^ nat (e - ?u))" using assms(2) by (simp add: two_powi_int)
  finally have q: "x / two_powi ?u = of_int (m * 2 ^ nat (e - ?u))" .
  have "rnd x = of_int (m * 2 ^ nat (e - ?u)) * two_powi ?u"
    using assms(1) unfolding rnd_def round_pos_unit q round_half_even_int by simp
  also have "\<dots> = x" unfolding q [symmetric] by simp
  finally show ?thesis .
qed

lemma rnd_two_powi: "- 1074 \<le> k \<Longrightarrow> rnd (two_powi k) = two_powi k"
  by (rule rnd_exact [where m = 1]) (simp_all add: unit_exp_def)

lemma rnd_int:
  assumes "\<bar>n\<bar> \<le> 2 ^ 53"
  shows "rnd (of_int n) = of_int n"
proof -
  have pos: "rnd (of_int n) = of_int n" if "0 < n" "n \<le> 2 ^ 53" for n
  proof (cases "n = 2 ^ 53")
    case True
    have "two_powi 53 = of_int (2 ^ 53)" by (simp add: two_powi_def)
    with True rnd_two_powi [of 53] show ?thesis by simp
  next
    case False
    then have "of_int n < two_powi 53" using that by (simp add: two_powi_def of_int_less_iff [of n, symmetric])
    then have "exponent (of_int n) < 53"
      using exponent_bounds(1) [of "of_int n"] that(1) two_powi_less_iff [of "exponent (of_int n)" 53] by simp
    with that(1) show ?thesis by (intro rnd_exact [where e = 0 and m = n]) (simp_all add: unit_exp_def)
  qed
  show ?thesis
    using pos [of n] pos [of "- n"] assms rnd_minus [of "of_int (- n)"]
    by (cases n "0::int" rule: linorder_cases) (simp_all add: rnd_def)
qed

section \<open>Powers\<close>

lemma two_powi_neg_Suc: "two_powi (- j - 1) = two_powi (- j) / 2"
  using two_powi_add [of "- j" "- 1"] by (simp add: two_powi_def [of "- 1"])

lemma f_round_small: "0 \<le> x \<Longrightarrow> x \<le> 1 \<Longrightarrow> f_round x = Fin (rnd x) \<and> 0 \<le> rnd x \<and> rnd x \<le> 1"
proof -
  assume "0 \<le> x" "x \<le> 1"
  then have "rnd 0 \<le> rnd x" "rnd x \<le> rnd 1" by (simp_all add: rnd_mono)
  then have r: "0 \<le> rnd x" "rnd x \<le> 1" using rnd_int [of 1] by (simp_all add: rnd_def [of 0])
  have "two_powi 0 < two_powi 1024" unfolding two_powi_less_iff by simp
  then have "(1::rat) < two_powi 1024" by simp
  with r show ?thesis by (simp add: f_round_def Let_def)
qed

lemma rnd_ge_power: "- 1074 \<le> k \<Longrightarrow> two_powi k \<le> x \<Longrightarrow> two_powi k \<le> rnd x"
  using rnd_mono [of "two_powi k" x] by (simp add: rnd_two_powi)

text \<open>Squaring keeps the mantissa in \<open>[1/2, 1]\<close> and the exponent positive.\<close>

lemma square_step:
  assumes "1 / 2 \<le> q" "q \<le> 1" "1 \<le> (xe :: int)"
  obtains q' xe' where "1 / 2 \<le> q'" "q' \<le> 1" "1 \<le> xe'"
    and "(if f_less (f_mul (Fin q) (Fin q)) (Fin (1 / 2))
          then (f_add (f_mul (Fin q) (Fin q)) (f_mul (Fin q) (Fin q)), xe * 2 - 1)
          else (f_mul (Fin q) (Fin q), xe * 2)) = (Fin q', xe')"
proof -
  have "(1 / 2) * (1 / 2) \<le> q * q" "q * q \<le> 1 * 1" using assms by (intro mult_mono; simp)+
  then have sq: "1 / 4 \<le> q * q" "q * q \<le> 1" by simp_all
  then have m: "f_mul (Fin q) (Fin q) = Fin (rnd (q * q))" "rnd (q * q) \<le> 1"
    using f_round_small [of "q * q"] by simp_all
  have "1 / 4 \<le> rnd (q * q)" using rnd_ge_power [of "- 2" "q * q"] sq by (simp add: two_powi_def)
  show ?thesis
  proof (cases "rnd (q * q) < 1 / 2")
    case True
    let ?d = "rnd (q * q) + rnd (q * q)"
    have d: "1 / 2 \<le> ?d" "?d \<le> 1" using True \<open>1 / 4 \<le> rnd (q * q)\<close> by simp_all
    then have "f_add (Fin (rnd (q * q))) (Fin (rnd (q * q))) = Fin (rnd ?d)" "rnd ?d \<le> 1"
      using f_round_small [of ?d] by simp_all
    moreover have "1 / 2 \<le> rnd ?d" using rnd_ge_power [of "- 1" ?d] d(1) by (simp add: two_powi_def)
    ultimately show ?thesis using True m assms(3) by (intro that [of "rnd ?d" "xe * 2 - 1"]) simp_all
  next
    case False
    then show ?thesis using m assms(3) by (intro that [of "rnd (q * q)" "xe * 2"]) simp_all
  qed
qed

lemma pow_loop_ge:
  assumes "i < 2 ^ n" and "j + int n \<le> 1074" and "0 \<le> j"
    and "1 / 2 \<le> q" "q \<le> 1" "1 \<le> xe" and "two_powi (- j) \<le> p" "p \<le> 1" "j \<le> ae"
  shows "\<exists>j' p' ae'. pow_loop i (Fin q) xe (Fin p) ae = (Fin p', ae') \<and> 0 \<le> j' \<and> j' \<le> 1074 \<and>
    two_powi (- j') \<le> p' \<and> p' \<le> 1 \<and> j' \<le> ae'"
  using assms
proof (induction n arbitrary: i j q xe p ae)
  case 0
  then show ?case by (subst pow_loop.simps) auto
next
  case (Suc n)
  show ?case
  proof (cases "i = 0 \<or> 4096 < xe")
    case True
    then show ?thesis using Suc.prems by (subst pow_loop.simps) (auto intro!: exI [of _ j])
  next
    case False
    obtain q' xe' where sq: "1 / 2 \<le> q'" "q' \<le> 1" "1 \<le> xe'"
      "(if f_less (f_mul (Fin q) (Fin q)) (Fin (1 / 2))
          then (f_add (f_mul (Fin q) (Fin q)) (f_mul (Fin q) (Fin q)), xe * 2 - 1)
          else (f_mul (Fin q) (Fin q), xe * 2)) = (Fin q', xe')"
      by (rule square_step [OF Suc.prems(4-6)])
    have half: "i div 2 < 2 ^ n" using Suc.prems(1) by simp
    have pow: "0 < two_powi (- j)" by simp
    have pq: "two_powi (- j - 1) \<le> p * q" "p * q \<le> 1"
    proof -
      have "two_powi (- j) * (1 / 2) \<le> p * q"
        using Suc.prems(4,7) pow by (intro mult_mono) linarith+
      then show "two_powi (- j - 1) \<le> p * q" by (simp add: two_powi_neg_Suc)
      show "p * q \<le> 1"
        using Suc.prems(4,5,7,8) pow mult_mono [of p 1 q 1] by simp
    qed
    have "0 \<le> p * q" using pq(1) two_powi_pos [of "- j - 1"] by linarith
    then have mul: "f_mul (Fin p) (Fin q) = Fin (rnd (p * q))" "rnd (p * q) \<le> 1"
      using f_round_small [of "p * q"] pq(2) by simp_all
    have low: "two_powi (- (j + 1)) \<le> rnd (p * q)"
      using rnd_ge_power [of "- j - 1" "p * q"] pq(1) Suc.prems(2) by simp
    have odd_ih: "\<exists>j' p' ae'. pow_loop (i div 2) (Fin q') xe' (Fin (rnd (p * q))) (ae + xe) = (Fin p', ae') \<and>
        0 \<le> j' \<and> j' \<le> 1074 \<and> two_powi (- j') \<le> p' \<and> p' \<le> 1 \<and> j' \<le> ae'"
      using Suc.prems mul(2) low sq(1-3) by (intro Suc.IH [OF half, of "j + 1"]) simp_all
    have even_ih: "\<exists>j' p' ae'. pow_loop (i div 2) (Fin q') xe' (Fin p) ae = (Fin p', ae') \<and>
        0 \<le> j' \<and> j' \<le> 1074 \<and> two_powi (- j') \<le> p' \<and> p' \<le> 1 \<and> j' \<le> ae'"
      using Suc.prems sq(1-3) by (intro Suc.IH [OF half, of j]) simp_all
    have "pow_loop i (Fin q) xe (Fin p) ae =
        (if odd i then pow_loop (i div 2) (Fin q') xe' (Fin (rnd (p * q))) (ae + xe)
         else pow_loop (i div 2) (Fin q') xe' (Fin p) ae)"
      using False Suc.prems(6) sq(4) mul(1)
      by (subst pow_loop.simps) (simp add: Let_def del: f_mul.simps f_less.simps f_add.simps)
    then show ?thesis using odd_ih even_ih by (cases "odd i") (simp_all only: if_True if_False not_False_eq_True)
  qed
qed

text \<open>A power of a number that is at least one is at least one, or infinite.\<close>

lemma math_Pow_ge_1:
  assumes "x = PInf \<or> (\<exists>q. x = Fin q \<and> 1 \<le> q)"
  shows "math_Pow x y = PInf \<or> (\<exists>r. math_Pow x y = Fin r \<and> 1 \<le> r)"
proof (cases "y = 0 \<or> x = Fin 1 \<or> y = 1 \<or> x = PInf \<or> 2 ^ 63 \<le> y")
  case True
  then show ?thesis using assms by (auto simp: math_Pow_def)
next
  case False
  then obtain q where q: "x = Fin q" "1 \<le> q" "y < 2 ^ 63" "y \<noteq> 0" "y \<noteq> 1" "q \<noteq> 1" using assms by auto
  let ?e = "exponent q + 1"
  have "0 \<le> exponent q" using exponent_mono [of 1 q] exponent_two_powi [of 0] q(2) by simp
  have qe: "q / two_powi ?e \<le> 1" "1 / 2 \<le> q / two_powi ?e"
    using exponent_bounds [of q] q(2) by (simp_all add: two_powi_add field_simps)
  obtain j p ae where l: "pow_loop y (Fin (q / two_powi ?e)) ?e (Fin 1) 0 = (Fin p, ae)"
    "0 \<le> j" "j \<le> 1074" "two_powi (- j) \<le> p" "p \<le> 1" "j \<le> ae"
    using pow_loop_ge [OF q(3), of 0 "q / two_powi ?e" ?e 1 0] qe \<open>0 \<le> exponent q\<close> by auto
  have "0 < p" using l(4) two_powi_pos [of "- j"] by linarith
  have "- j \<le> exponent p" using exponent_mono [of "two_powi (- j)" p] l(4) by simp
  have "two_powi 0 \<le> p * two_powi ae"
  proof -
    have "two_powi 0 \<le> two_powi (ae - j)" using l(6) by (intro two_powi_mono) simp
    also have "\<dots> = two_powi (- j) * two_powi ae" by (simp flip: two_powi_add)
    also have "\<dots> \<le> p * two_powi ae" using l(4) by (intro mult_right_mono) (simp_all add: less_imp_le)
    finally show ?thesis .
  qed
  then have "1 \<le> rnd (p * two_powi ae)" using rnd_ge_power [of 0 "p * two_powi ae"] by simp
  then have "f_round (p * two_powi ae) = PInf \<or> (\<exists>r. f_round (p * two_powi ae) = Fin r \<and> 1 \<le> r)"
    using two_powi_pos [of 1024] by (auto simp: f_round_def Let_def)
  then have "Ldexp (Fin p) ae = PInf \<or> (\<exists>r. Ldexp (Fin p) ae = Fin r \<and> 1 \<le> r)"
    using \<open>0 < p\<close> \<open>- j \<le> exponent p\<close> l(6) by (auto simp: Ldexp_def f_inf_def)
  then show ?thesis using q l(1) by (simp add: math_Pow_def Frexp_def Let_def)
qed

text \<open>Powers of two are exact.\<close>

lemma pow_loop_two:
  assumes "1 \<le> xe" and "(xe - 1) * int i \<le> 4095" and "0 \<le> j" and "j + int i \<le> 1073"
  shows "\<exists>j' ae'. pow_loop i (Fin (1 / 2)) xe (Fin (two_powi (- j))) ae = (Fin (two_powi (- j')), ae') \<and>
    ae' - j' = ae - j + (xe - 1) * int i"
  using assms
proof (induction i arbitrary: xe j ae rule: less_induct)
  case (less i)
  show ?case
  proof (cases "i = 0")
    case True
    then show ?thesis by (subst pow_loop.simps) auto
  next
    case False
    then have "(xe - 1) * 1 \<le> (xe - 1) * int i" using less.prems(1) by (intro mult_left_mono) auto
    from order_trans [OF this less.prems(2)] have xe: "xe \<le> 4096" by simp
    have sq: "f_mul (Fin (1 / 2)) (Fin (1 / 2)) = Fin (1 / 4)" "f_add (Fin (1 / 4)) (Fin (1 / 4)) = Fin (1 / 2)"
      using f_round_small [of "1 / 4"] f_round_small [of "1 / 2"] rnd_two_powi [of "- 2"] rnd_two_powi [of "- 1"]
      by (simp_all add: two_powi_def)
    have "two_powi (- j - 1) \<le> two_powi 0" using less.prems(3) by (intro two_powi_mono) simp
    then have mul: "f_mul (Fin (two_powi (- j))) (Fin (1 / 2)) = Fin (two_powi (- j - 1))"
      using f_round_small [of "two_powi (- j - 1)"] rnd_two_powi [of "- j - 1"] less.prems(3,4) False
      by (simp add: two_powi_neg_Suc less_imp_le)
    have half: "i div 2 < i" using False by simp
    have i2: "int i = 2 * int (i div 2) + (if odd i then 1 else 0)" by presburger
    have step: "(xe * 2 - 1 - 1) * int (i div 2) \<le> 4095"
    proof -
      have "(xe * 2 - 1 - 1) * int (i div 2) = (xe - 1) * (2 * int (i div 2))" by (simp add: algebra_simps)
      also have "\<dots> \<le> (xe - 1) * int i" using less.prems(1) i2 by (intro mult_left_mono) auto
      finally show ?thesis using less.prems(2) by linarith
    qed
    let ?j = "if odd i then j + 1 else j" and ?ae = "if odd i then ae + xe else ae"
    have jb: "0 \<le> ?j" "?j + int (i div 2) \<le> 1073" using less.prems(3,4) False i2 by (auto split: if_splits)
    have "1 \<le> xe * 2 - 1" using less.prems(1) by simp
    note ih = less.IH [OF half this step jb, of ?ae]
    have "pow_loop i (Fin (1 / 2)) xe (Fin (two_powi (- j))) ae =
        pow_loop (i div 2) (Fin (1 / 2)) (xe * 2 - 1) (Fin (two_powi (- ?j))) ?ae"
      using False xe less.prems(1) sq mul
      by (subst pow_loop.simps) (simp add: Let_def del: f_mul.simps f_add.simps)
    moreover have "?ae - ?j + (xe * 2 - 1 - 1) * int (i div 2) = ae - j + (xe - 1) * int i"
      unfolding i2 by (simp add: algebra_simps)
    ultimately show ?thesis using ih by (simp only:)
  qed
qed

lemma math_Pow_two:
  assumes "y < 1024"
  shows "math_Pow (Fin 2) y = Fin (2 ^ y)"
proof (cases "y = 0 \<or> y = 1")
  case True
  then show ?thesis by (auto simp: math_Pow_def)
next
  case False
  have e2: "exponent 2 = 1" using exponent_two_powi [of 1] by simp
  obtain j ae where l: "pow_loop y (Fin (1 / 2)) 2 (Fin 1) 0 = (Fin (two_powi (- j)), ae)" "ae - j = int y"
    using pow_loop_two [of 2 y 0 0] assms by auto
  have "two_powi (- j) * two_powi ae = 2 ^ y"
    using l(2) by (simp add: two_powi_nat flip: two_powi_add)
  moreover have "(2::rat) ^ y < two_powi 1024"
    using assms two_powi_less_iff [of "int y" 1024] by (simp add: two_powi_nat)
  moreover have "rnd (2 ^ y) = 2 ^ y" using rnd_two_powi [of "int y"] by (simp add: two_powi_nat)
  moreover have "\<not> (2::rat) ^ y \<le> - two_powi 1024"
    using two_powi_pos [of 1024] zero_less_power [of "2::rat" y] by linarith
  ultimately have "Ldexp (Fin (two_powi (- j))) ae = Fin (2 ^ y)"
    using l(2) assms by (simp add: Ldexp_def f_round_def Let_def abs_of_pos)
  then show ?thesis
    using False assms l(1) by (simp add: math_Pow_def Frexp_def e2 Let_def two_powi_def [of 2])
qed

end
