(* ===== verification/Retry.thy ===== *)
theory Retry
  imports GoErrors Float64
begin

text \<open>
  The retry policy, \<open>internal/retry/policy.go\<close>: exponential backoff with jitter in double
  precision. The random source is the number it draws. The argument \<open>oor\<close> is the result the
  implementation gives to a conversion that is out of range (see \<open>Float64\<close>). Error texts leave out
  the formatted number.
\<close>

record Policy =
  pl_MaxAttempts :: int
  pl_InitialInterval :: duration
  pl_MaxInterval :: duration
  pl_Multiplier :: f64
  pl_JitterFraction :: f64

definition defaultMaxAttempts :: int where "defaultMaxAttempts = 3"
definition defaultInitialInterval :: duration where "defaultInitialInterval = 500 * millisecond"
definition defaultMaxInterval :: duration where "defaultMaxInterval = 5 * (60 * second)"
definition defaultMultiplier :: f64 where "defaultMultiplier = Fin 2"
definition defaultJitterFraction :: f64 where "defaultJitterFraction = f_round (2 / 10)"

definition Policy_Default :: Policy where
  "Policy_Default =
    \<lparr> pl_MaxAttempts = defaultMaxAttempts, pl_InitialInterval = defaultInitialInterval,
      pl_MaxInterval = defaultMaxInterval, pl_Multiplier = defaultMultiplier,
      pl_JitterFraction = defaultJitterFraction \<rparr>"

definition Policy_WithDefaults :: "Policy \<Rightarrow> Policy" where
  "Policy_WithDefaults p =
    (let fallback = Policy_Default;
         p = (if pl_MaxAttempts p \<le> 0 then p\<lparr>pl_MaxAttempts := pl_MaxAttempts fallback\<rparr> else p);
         p = (if pl_InitialInterval p \<le> 0
              then p\<lparr>pl_InitialInterval := pl_InitialInterval fallback\<rparr> else p);
         p = (if pl_MaxInterval p \<le> 0 then p\<lparr>pl_MaxInterval := pl_MaxInterval fallback\<rparr> else p);
         p = (if f_le (pl_Multiplier p) (Fin 0)
              then p\<lparr>pl_Multiplier := pl_Multiplier fallback\<rparr> else p)
     in if f_less (pl_JitterFraction p) (Fin 0) then p\<lparr>pl_JitterFraction := Fin 0\<rparr> else p)"

definition Policy_Validate :: "Policy \<Rightarrow> error option" where
  "Policy_Validate p =
    (if pl_MaxAttempts p < 1 then Some (ErrNew ''retry: max_attempts must be at least 1'')
     else if pl_InitialInterval p \<le> 0 then Some (ErrNew ''retry: initial_interval must be positive'')
     else if pl_MaxInterval p < pl_InitialInterval p
     then Some (ErrNew ''retry: max_interval must not be shorter than initial_interval'')
     else if f_less (pl_Multiplier p) (Fin 1)
     then Some (ErrNew ''retry: multiplier must be at least 1'')
     else if f_less (pl_JitterFraction p) (Fin 0) \<or> f_less (Fin 1) (pl_JitterFraction p)
     then Some (ErrNew ''retry: jitter_fraction must be within [0,1]'')
     else None)"

definition Policy_ShouldRetry :: "Policy \<Rightarrow> int \<Rightarrow> bool" where
  "Policy_ShouldRetry p attempts = (attempts < pl_MaxAttempts p)"

text \<open>\<open>float64(attempt - 1)\<close> is integral and not negative: the exponent of \<open>math.Pow\<close>.\<close>

definition Policy_Backoff :: "(f64 \<Rightarrow> int) \<Rightarrow> Policy \<Rightarrow> int \<Rightarrow> duration" where
  "Policy_Backoff oor p attempt =
    (let attempt = (if attempt < 1 then 1 else attempt);
         scaled = f_mul (of_int64 (pl_InitialInterval p))
                    (math_Pow (pl_Multiplier p) (nat \<lfloor>rnd (of_int (attempt - 1))\<rfloor>))
     in if f_less (of_int64 (pl_MaxInterval p)) scaled \<or> IsInf scaled then pl_MaxInterval p
        else to_int64 oor scaled)"

definition Policy_BackoffWithJitter :: "(f64 \<Rightarrow> int) \<Rightarrow> Policy \<Rightarrow> int \<Rightarrow> f64 \<Rightarrow> duration" where
  "Policy_BackoffWithJitter oor p attempt draw =
    (let base = Policy_Backoff oor p attempt in
     if f_eq (pl_JitterFraction p) (Fin 0) then base
     else let spread = f_mul (of_int64 base) (pl_JitterFraction p);
              offset = f_mul spread (f_sub (f_mul (Fin 2) draw) (Fin 1));
              jittered = to_int64 oor (f_add (of_int64 base) offset)
          in if jittered < 0 then 0
             else if jittered > pl_MaxInterval p then pl_MaxInterval p
             else jittered)"

definition Policy_NextAttemptAt :: "(f64 \<Rightarrow> int) \<Rightarrow> Policy \<Rightarrow> time \<Rightarrow> int \<Rightarrow> f64 \<Rightarrow> time" where
  "Policy_NextAttemptAt oor p now attempt draw = now + Policy_BackoffWithJitter oor p attempt draw"

section \<open>Bounds\<close>

text \<open>A policy that passes validation, whose numbers are numbers, and whose intervals convert
  exactly, as do their sums (up to 52 days).\<close>

definition sound_policy :: "Policy \<Rightarrow> bool" where
  "sound_policy p \<longleftrightarrow> Policy_Validate p = None \<and> pl_Multiplier p \<noteq> FNaN \<and>
    pl_JitterFraction p \<noteq> FNaN \<and> pl_MaxInterval p \<le> 2 ^ 52"

lemma sound_policyD:
  assumes "sound_policy p"
  shows "0 < pl_InitialInterval p" "pl_InitialInterval p \<le> pl_MaxInterval p" "pl_MaxInterval p \<le> 2 ^ 52"
    and "pl_Multiplier p = PInf \<or> (\<exists>q. pl_Multiplier p = Fin q \<and> 1 \<le> q)"
    and "\<exists>j. pl_JitterFraction p = Fin j \<and> 0 \<le> j \<and> j \<le> 1"
    and "1 \<le> pl_MaxAttempts p"
  using assms unfolding sound_policy_def Policy_Validate_def
  by (cases "pl_Multiplier p"; cases "pl_JitterFraction p"; auto split: if_splits)+

lemma of_int64_exact: "\<bar>n\<bar> \<le> 2 ^ 53 \<Longrightarrow> of_int64 n = Fin (of_int n)"
proof -
  assume n: "\<bar>n\<bar> \<le> 2 ^ 53"
  have "(2::rat) ^ 53 < two_powi 1024"
    using two_powi_less_iff [of "int 53" 1024] two_powi_nat [of 53] by simp
  moreover have "\<bar>of_int n\<bar> \<le> (2::rat) ^ 53"
    using n by (metis of_int_abs of_int_le_iff of_int_numeral of_int_power)
  ultimately show ?thesis
    using rnd_int [OF n] by (simp add: of_int64_def f_round_def Let_def abs_le_iff)
qed

lemma to_int64_bounds:
  assumes "of_int a \<le> x" "x \<le> of_int b" "0 \<le> a" "b \<le> 2 ^ 53"
  shows "a \<le> to_int64 oor (Fin x) \<and> to_int64 oor (Fin x) \<le> b"
proof -
  have "0 \<le> x" using assms(1,3) by (metis of_int_0_le_iff order_trans)
  then have tr: "Float64.truncate x = \<lfloor>x\<rfloor>" by (simp add: Float64.truncate_def)
  have "a \<le> \<lfloor>x\<rfloor>" "\<lfloor>x\<rfloor> \<le> b" using assms(1,2) by (simp_all add: le_floor_iff floor_le_iff)
  moreover have "- (2 ^ 63) \<le> f \<and> f < 2 ^ 63" if "a \<le> f" "f \<le> b" for f :: int
    using that assms(3,4) by simp
  ultimately have "- (2 ^ 63) \<le> \<lfloor>x\<rfloor> \<and> \<lfloor>x\<rfloor> < 2 ^ 63" by blast
  then show ?thesis using \<open>a \<le> \<lfloor>x\<rfloor>\<close> \<open>\<lfloor>x\<rfloor> \<le> b\<close> unfolding to_int64.simps tr by simp
qed

lemma f_round_between:
  assumes "of_int a \<le> x" "x \<le> of_int b" "\<bar>a\<bar> \<le> 2 ^ 53" "\<bar>b\<bar> \<le> 2 ^ 53"
  shows "\<exists>y. f_round x = Fin y \<and> of_int a \<le> y \<and> y \<le> of_int b"
proof -
  have r: "of_int a \<le> rnd x" "rnd x \<le> of_int b"
    using rnd_mono [OF assms(1)] rnd_mono [OF assms(2)] rnd_int [OF assms(3)] rnd_int [OF assms(4)] by simp_all
  have "(2::rat) ^ 53 < two_powi 1024"
    using two_powi_less_iff [of "int 53" 1024] two_powi_nat [of 53] by simp
  moreover have "\<bar>of_int a\<bar> \<le> (2::rat) ^ 53" "\<bar>of_int b\<bar> \<le> (2::rat) ^ 53"
    using assms(3,4) by (metis of_int_abs of_int_le_iff of_int_numeral of_int_power)+
  ultimately have "rnd x < two_powi 1024" "- two_powi 1024 < rnd x" using r by linarith+
  then show ?thesis using r by (simp add: f_round_def Let_def)
qed

lemma Backoff_bounds:
  assumes "sound_policy p"
  shows "pl_InitialInterval p \<le> Policy_Backoff oor p attempt \<and>
    Policy_Backoff oor p attempt \<le> pl_MaxInterval p"
proof -
  note D = sound_policyD [OF assms]
  define pow where "pow = math_Pow (pl_Multiplier p)
    (nat \<lfloor>rnd (of_int ((if attempt < 1 then 1 else attempt) - 1))\<rfloor>)"
  let ?I = "pl_InitialInterval p" and ?M = "pl_MaxInterval p"
  define scaled where "scaled = f_mul (of_int64 ?I) pow"
  have I: "of_int64 ?I = Fin (of_int ?I)" and M: "of_int64 ?M = Fin (of_int ?M)"
    using D(1-3) by (intro of_int64_exact; simp)+
  have boff: "Policy_Backoff oor p attempt =
      (if f_less (of_int64 ?M) scaled \<or> IsInf scaled then ?M else to_int64 oor scaled)"
    by (simp add: Policy_Backoff_def Let_def pow_def scaled_def)
  show ?thesis
  proof (cases "f_less (of_int64 ?M) scaled \<or> IsInf scaled")
    case True
    then show ?thesis using D(2) by (simp add: boff)
  next
    case False
    have "pow \<noteq> PInf" using False D(1) by (auto simp: I IsInf_def f_inf_def scaled_def)
    then obtain r where r: "pow = Fin r" "1 \<le> r"
      using math_Pow_ge_1 [OF D(4)] unfolding pow_def by metis
    have "of_int ?I * 1 \<le> of_int ?I * r" using D(1) r(2) by (intro mult_left_mono) simp_all
    then have lo: "of_int ?I \<le> rnd (of_int ?I * r)"
      using rnd_mono [of "of_int ?I" "of_int ?I * r"] rnd_int [of ?I] D(1-3) by simp
    have sc: "scaled = f_round (of_int ?I * r)" by (simp add: scaled_def I r(1))
    have "0 < rnd (of_int ?I * r)" using lo D(1) by (metis of_int_0_less_iff order_less_le_trans)
    then have "\<not> rnd (of_int ?I * r) \<le> - two_powi 1024" using two_powi_pos [of 1024] by linarith
    then have fin: "scaled = Fin (rnd (of_int ?I * r))"
      using False unfolding sc f_round_def Let_def IsInf_def by (auto split: if_splits)
    then have "rnd (of_int ?I * r) \<le> of_int ?M" using False by (simp add: M)
    then show ?thesis
      using False D(1,3) lo to_int64_bounds [of ?I "rnd (of_int ?I * r)" ?M oor] by (simp add: boff fin)
  qed
qed

lemma jitter_offset:
  assumes b: "0 \<le> base" "base \<le> 2 ^ 52" and j: "0 \<le> j" "j \<le> 1" and r: "0 \<le> r" "r \<le> 1"
  defines "c \<equiv> \<lceil>of_int base * j\<rceil>"
  shows "\<exists>x. f_add (of_int64 base)
      (f_mul (f_mul (of_int64 base) (Fin j)) (f_sub (f_mul (Fin 2) (Fin r)) (Fin 1))) = Fin x \<and>
    of_int (base - c) \<le> x \<and> x \<le> of_int (base + c)"
proof -
  let ?b = "of_int base :: rat"
  have bj: "?b * j \<le> ?b * 1" "0 \<le> ?b * j" using j b(1) mult_left_mono [of j 1 ?b] by simp_all
  then have c: "0 \<le> c" "c \<le> base" unfolding c_def by (simp_all add: ceiling_le_iff)
  obtain s where s: "f_mul (of_int64 base) (Fin j) = Fin s" "0 \<le> s" "s \<le> of_int c"
    using f_round_between [of 0 "?b * j" c] bj c b of_int64_exact [of base]
    by (auto simp: c_def)
  obtain u where u: "f_mul (Fin 2) (Fin r) = Fin u" "0 \<le> u" "u \<le> 2"
    using f_round_between [of 0 "2 * r" 2] r by auto
  obtain t where t: "f_sub (Fin u) (Fin 1) = Fin t" "- 1 \<le> t" "t \<le> 1"
    using f_round_between [of "- 1" "u - 1" 1] u by (auto simp: f_sub_def)
  have st: "- s \<le> s * t" "s * t \<le> s"
    using mult_left_mono [OF t(2) s(2)] mult_left_mono [OF t(3) s(2)] by simp_all
  obtain off where off: "f_mul (Fin s) (Fin t) = Fin off" "- of_int c \<le> off" "off \<le> of_int c"
    using f_round_between [of "- c" "s * t" c] st s(3) c b by auto
  have "\<exists>x. f_round (?b + off) = Fin x \<and> of_int (base - c) \<le> x \<and> x \<le> of_int (base + c)"
    using off c b by (intro f_round_between) simp_all
  then show ?thesis using s(1) u(1) t(1) off(1) b of_int64_exact [of base] by simp
qed

text \<open>The jittered delay stays within the fraction of the plain one, rounded up, and within the cap.\<close>

lemma BackoffWithJitter_bounds:
  fixes oor attempt
  assumes p: "sound_policy p" and draw: "0 \<le> r" "r < 1" and j: "pl_JitterFraction p = Fin j"
  defines "base \<equiv> Policy_Backoff oor p attempt"
  shows "base - \<lceil>of_int base * j\<rceil> \<le> Policy_BackoffWithJitter oor p attempt (Fin r) \<and>
    Policy_BackoffWithJitter oor p attempt (Fin r) \<le> min (pl_MaxInterval p) (base + \<lceil>of_int base * j\<rceil>)"
proof -
  note D = sound_policyD [OF p]
  have base: "0 \<le> base" "base \<le> pl_MaxInterval p" "base \<le> 2 ^ 52"
    using Backoff_bounds [OF p, of oor attempt] D(1,3) by (simp_all add: base_def)
  have j01: "0 \<le> j" "j \<le> 1" using D(5) j by auto
  let ?c = "\<lceil>of_int base * j\<rceil>"
  have bj: "of_int base * j \<le> of_int base * 1" "0 \<le> of_int base * j"
    using j01 base(1) mult_left_mono [of j 1 "of_int base"] by simp_all
  then have c: "0 \<le> ?c" "?c \<le> base" by (simp_all add: ceiling_le_iff)
  show ?thesis
  proof (cases "j = 0")
    case True
    then show ?thesis using base by (simp add: Policy_BackoffWithJitter_def Let_def j flip: base_def)
  next
    case False
    obtain x where x: "f_add (of_int64 base)
        (f_mul (f_mul (of_int64 base) (Fin j)) (f_sub (f_mul (Fin 2) (Fin r)) (Fin 1))) = Fin x"
      "of_int (base - ?c) \<le> x" "x \<le> of_int (base + ?c)"
      using jitter_offset [OF base(1,3) j01 draw(1) less_imp_le [OF draw(2)]] by blast
    define d where "d = to_int64 oor (Fin x)"
    have d: "base - ?c \<le> d" "d \<le> base + ?c"
      using to_int64_bounds [OF x(2,3), of oor] c base(3) by (simp_all add: d_def)
    have "Policy_BackoffWithJitter oor p attempt (Fin r) =
        (if d < 0 then 0 else if d > pl_MaxInterval p then pl_MaxInterval p else d)"
      using False
      by (simp only: Policy_BackoffWithJitter_def Let_def j x(1) d_def base_def [symmetric]
          f_eq.simps f64.inject if_False)
    then show ?thesis using d base c by auto
  qed
qed

corollary Jitter_capped:
  assumes "sound_policy p" "0 \<le> r" "r < 1"
  shows "0 \<le> Policy_BackoffWithJitter oor p attempt (Fin r) \<and>
    Policy_BackoffWithJitter oor p attempt (Fin r) \<le> pl_MaxInterval p"
proof -
  obtain j where j: "pl_JitterFraction p = Fin j" "0 \<le> j" "j \<le> 1" using sound_policyD(5) [OF assms(1)] by blast
  let ?b = "Policy_Backoff oor p attempt"
  have "0 \<le> ?b" using Backoff_bounds [OF assms(1), of oor attempt] sound_policyD(1) [OF assms(1)] by simp
  then have "of_int ?b * j \<le> of_int ?b" using j mult_left_mono [of j 1 "of_int ?b"] by simp
  then have "\<lceil>of_int ?b * j\<rceil> \<le> ?b" by (simp add: ceiling_le_iff)
  then show ?thesis using BackoffWithJitter_bounds [OF assms j(1), of oor attempt] by simp
qed

section \<open>The default policy\<close>

lemma Policy_Default_fields [simp]:
  "pl_MaxAttempts Policy_Default = 3" "pl_InitialInterval Policy_Default = 500000000"
  "pl_MaxInterval Policy_Default = 300000000000" "pl_Multiplier Policy_Default = Fin 2"
  by (simp_all add: Policy_Default_def defaultMaxAttempts_def defaultInitialInterval_def
      defaultMaxInterval_def defaultMultiplier_def)

lemma sound_policy_default: "sound_policy Policy_Default"
proof -
  obtain j where "pl_JitterFraction Policy_Default = Fin j" "0 \<le> j" "j \<le> 1"
    using f_round_small [of "2 / 10"] by (auto simp: Policy_Default_def defaultJitterFraction_def)
  then show ?thesis by (simp add: sound_policy_def Policy_Validate_def)
qed

lemma unit_exp_scaled: "unit_exp (500000000 * 2 ^ k) \<le> int k"
proof -
  let ?x = "500000000 * 2 ^ k :: rat"
  have "?x \<le> 2 ^ 29 * 2 ^ k" by (rule mult_right_mono) simp_all
  also have "\<dots> = 2 ^ (29 + k)" by (rule power_add [symmetric])
  also have "\<dots> = two_powi (int (29 + k))" by (rule two_powi_nat [symmetric])
  finally have "exponent ?x \<le> exponent (two_powi (int (29 + k)))"
    by (rule exponent_mono [rotated]) simp
  then have "exponent ?x \<le> int (29 + k)" by (simp only: exponent_two_powi)
  then show ?thesis unfolding unit_exp_def by linarith
qed

lemma f_round_scaled:
  "f_round (of_int (500000000 * 2 ^ k)) =
    (if two_powi 1024 \<le> of_int (500000000 * 2 ^ k) then PInf else Fin (of_int (500000000 * 2 ^ k)))"
proof -
  have x: "of_int (500000000 * 2 ^ k) = (500000000 * 2 ^ k :: rat)" by simp
  have "rnd (500000000 * 2 ^ k) = 500000000 * 2 ^ k"
    by (rule rnd_exact [OF _ unit_exp_scaled, where m = 500000000]) (simp_all add: two_powi_nat)
  moreover have "0 < (500000000 * 2 ^ k :: rat)" by simp
  then have "\<not> 500000000 * 2 ^ k \<le> - two_powi 1024" using two_powi_pos [of 1024] by linarith
  ultimately show ?thesis unfolding f_round_def x by (simp only: Let_def if_False)
qed

lemma capped_conversion:
  assumes "f_round (of_int x) = (if two_powi 1024 \<le> of_int x then PInf else Fin (of_int x))"
    and "0 \<le> x" "0 \<le> m" "m \<le> 2 ^ 53"
  shows "(if f_less (of_int64 m) (f_round (of_int x)) \<or> IsInf (f_round (of_int x)) then m
    else to_int64 oor (f_round (of_int x))) = min m x"
proof (cases "x \<le> m")
  case True
  have "of_int x \<le> (2::rat) ^ 53" using True assms(4)
    by (metis of_int_le_iff of_int_numeral of_int_power order_trans)
  moreover have "(2::rat) ^ 53 < two_powi 1024"
    using two_powi_less_iff [of "int 53" 1024] two_powi_nat [of 53] by simp
  ultimately have "f_round (of_int x) = Fin (of_int x)" using assms(1) by simp
  moreover have "to_int64 oor (Fin (of_int x)) = x"
    using to_int64_bounds [of x "of_int x" x oor] True assms(2,4) by simp
  ultimately show ?thesis
    using True assms(3,4) of_int64_exact [of m] by (simp add: IsInf_def)
next
  case False
  then show ?thesis using assms(1,3,4) of_int64_exact [of m] by (auto simp: IsInf_def)
qed

text \<open>The default delays double without rounding until the cap.\<close>

lemma Backoff_default:
  assumes "1 \<le> n" "n \<le> 1024"
  shows "Policy_Backoff oor Policy_Default (int n) = min 300000000000 (500000000 * 2 ^ (n - 1))"
proof -
  have k1: "int n - 1 = int (n - 1)" using assms(1) by simp
  have "rnd (of_int (int (n - 1))) = of_int (int (n - 1))" using assms by (intro rnd_int) simp
  then have k: "nat \<lfloor>rnd (of_int (int n - 1))\<rfloor> = n - 1" unfolding k1 by simp
  have pow: "math_Pow (Fin 2) (n - 1) = Fin (2 ^ (n - 1))" using assms by (intro math_Pow_two) simp
  have I: "of_int64 500000000 = Fin 500000000" using of_int64_exact [of 500000000] by simp
  have mul: "f_mul (Fin 500000000) (Fin (2 ^ (n - 1))) = f_round (of_int (500000000 * 2 ^ (n - 1)))"
    by simp
  have n: "(int n < 1) = False" using assms(1) by simp
  show ?thesis
    unfolding Policy_Backoff_def Let_def Policy_Default_fields n if_False k pow I mul
    by (rule capped_conversion [OF f_round_scaled]) simp_all
qed

lemma Backoff_jitter: "Policy_Backoff oor (p\<lparr>pl_JitterFraction := j\<rparr>) n = Policy_Backoff oor p n"
  by (simp add: Policy_Backoff_def Let_def cong: if_cong)

section \<open>Properties\<close>





text \<open>The default policy waits half a second after the first attempt and twice as long after each
  further one, to the nanosecond, until five minutes.\<close>

lemma Default_backoff_doubles:
  assumes "1 \<le> n" "n \<le> 1024"
  shows "Policy_Backoff oor Policy_Default (int n) = min 300000000000 (500000000 * 2 ^ (n - 1))"
  by (rule Backoff_default [OF assms])

text \<open>Filling in defaults leaves a policy that already passes validation as it is, and doing it
  twice is doing it once.\<close>

lemma WithDefaults_keeps_valid:
  "(Policy_Validate p = None \<longrightarrow> Policy_WithDefaults p = p) \<and>
    Policy_WithDefaults (Policy_WithDefaults p) = Policy_WithDefaults p"
proof -
  have "Policy_WithDefaults p = p"
    if "0 < pl_MaxAttempts p" "0 < pl_InitialInterval p" "0 < pl_MaxInterval p"
      "\<not> f_le (pl_Multiplier p) (Fin 0)" "\<not> f_less (pl_JitterFraction p) (Fin 0)" for p
    using that by (simp add: Policy_WithDefaults_def Let_def)
  note fixed = this
  have "\<not> f_less x (Fin 1) \<Longrightarrow> \<not> f_le x (Fin 0)" for x
    by (cases x) (auto simp: f_le_def)
  then have "Policy_Validate p = None \<Longrightarrow> Policy_WithDefaults p = p"
    by (intro fixed) (auto simp: Policy_Validate_def split: if_splits)
  moreover have "Policy_WithDefaults (Policy_WithDefaults p) = Policy_WithDefaults p"
    by (rule fixed) (simp_all add: Policy_WithDefaults_def Let_def f_le_def)
  ultimately show ?thesis by blast
qed

text \<open>Validation lets a NaN multiplier pass, and from the second attempt on the delay of such a
  policy is then whatever the conversion of a NaN to an integer gives on the platform.\<close>

lemma Validate_accepts_NaN:
  "Policy_Validate (Policy_Default\<lparr>pl_Multiplier := FNaN\<rparr>) = None \<and>
    Policy_Backoff oor (Policy_Default\<lparr>pl_Multiplier := FNaN\<rparr>) 2 = oor FNaN"
proof -
  have "rnd 1 = 1" using rnd_int [of 1] by simp
  then show ?thesis
    using sound_policy_default of_int64_exact [of 500000000] of_int64_exact [of 300000000000]
    by (auto simp: sound_policy_def Policy_Validate_def Policy_Backoff_def math_Pow_def IsInf_def
        split: if_splits)
qed

end
