(* ===== verification/Worker.thy ===== *)
theory Worker
  imports GoErrors
begin

text \<open>
  The worker pool, \<open>internal/worker/pool.go\<close>, as the interleaving of its goroutines: the workers
  that \<open>Start\<close> launches, any number of calls of \<open>Submit\<close> and \<open>TrySubmit\<close>, and \<open>Stop\<close>. One step is
  one atomic access to the shared state (a channel operation, an atomic load, store or add). The
  tasks channel is its buffer and a closed flag; a send also hands over directly to a worker that
  waits at the receive, which is the only way through an unbuffered channel.
\<close>

section \<open>State\<close>

record PoolConfig =
  pc_Size :: int
  pc_QueueSize :: int

record 't Pool =
  po_config :: PoolConfig
  po_tasks :: "'t list"
  po_closed :: bool
  po_started :: bool
  po_stopped :: bool
  po_inFlight :: int
  po_queued :: int

definition PoolConfig_withDefaults :: "PoolConfig \<Rightarrow> PoolConfig" where
  "PoolConfig_withDefaults c =
    (let c = (if pc_Size c < 1 then c\<lparr>pc_Size := 1\<rparr> else c)
     in if pc_QueueSize c < 0 then c\<lparr>pc_QueueSize := 0\<rparr> else c)"

definition NewPool :: "PoolConfig \<Rightarrow> 't Pool" where
  "NewPool config =
    \<lparr> po_config = PoolConfig_withDefaults config, po_tasks = [], po_closed = False,
      po_started = False, po_stopped = False, po_inFlight = 0, po_queued = 0 \<rparr>"

definition Pool_Size :: "'t Pool \<Rightarrow> int" where "Pool_Size p = pc_Size (po_config p)"
definition Pool_Capacity :: "'t Pool \<Rightarrow> int" where "Pool_Capacity p = pc_QueueSize (po_config p)"
definition Pool_InFlight :: "'t Pool \<Rightarrow> int" where "Pool_InFlight p = po_inFlight p"
definition Pool_Queued :: "'t Pool \<Rightarrow> int" where "Pool_Queued p = po_queued p"

text \<open>Where a worker stands in the loop of \<open>run\<close>: at the receive, after it, after \<open>queued.Add(-1)\<close>,
  in the task (after \<open>inFlight.Add(1)\<close>), after the task, out of the loop.\<close>

datatype 't worker = Idle | Received 't | Dequeued 't | Running 't | Finished | Exited

text \<open>Where a call of \<open>Submit\<close> (or \<open>TrySubmit\<close>, when the flag is set) stands: before the check of
  \<open>stopped\<close>, after it, at the \<open>select\<close> (after \<open>queued.Add(1)\<close>), before \<open>queued.Add(-1)\<close> with the error
  it will return, and the three ways to end.\<close>

datatype 't call =
    Entered bool 't | Admitted bool 't | Selecting bool 't | Leaving error
  | Accepted 't | Refused error | Panicked

text \<open>\<open>Stop\<close>: not called, after \<open>stopped.Store(true)\<close>, after \<open>close(p.tasks)\<close>.\<close>

datatype stopping = NotStopping | Marked | Closed

record 't pool_system =
  sy_pool :: "'t Pool"
  sy_workers :: "'t worker list"
  sy_calls :: "'t call list"
  sy_stop :: stopping
  sy_run :: "'t list" \<comment> \<open>the tasks that have returned, in order\<close>

section \<open>Steps\<close>

definition Pool_Start :: "'t pool_system \<Rightarrow> 't pool_system" where
  "Pool_Start s =
    (if po_started (sy_pool s) then s
     else s\<lparr> sy_pool := (sy_pool s)\<lparr>po_started := True\<rparr>,
             sy_workers := sy_workers s @ replicate (nat (pc_Size (po_config (sy_pool s)))) Idle \<rparr>)"

inductive run_step :: "'t pool_system \<Rightarrow> 't pool_system \<Rightarrow> bool" where
  run_receive: "i < length (sy_workers s) \<Longrightarrow> sy_workers s ! i = Idle \<Longrightarrow> po_tasks (sy_pool s) = t # ts \<Longrightarrow>
    run_step s (s\<lparr>sy_pool := (sy_pool s)\<lparr>po_tasks := ts\<rparr>, sy_workers := (sy_workers s)[i := Received t]\<rparr>)"
| run_dequeue: "i < length (sy_workers s) \<Longrightarrow> sy_workers s ! i = Received t \<Longrightarrow>
    run_step s (s\<lparr>sy_pool := (sy_pool s)\<lparr>po_queued := po_queued (sy_pool s) - 1\<rparr>,
      sy_workers := (sy_workers s)[i := Dequeued t]\<rparr>)"
| run_begin: "i < length (sy_workers s) \<Longrightarrow> sy_workers s ! i = Dequeued t \<Longrightarrow>
    run_step s (s\<lparr>sy_pool := (sy_pool s)\<lparr>po_inFlight := po_inFlight (sy_pool s) + 1\<rparr>,
      sy_workers := (sy_workers s)[i := Running t]\<rparr>)"
| run_task: "i < length (sy_workers s) \<Longrightarrow> sy_workers s ! i = Running t \<Longrightarrow>
    run_step s (s\<lparr>sy_workers := (sy_workers s)[i := Finished], sy_run := sy_run s @ [t]\<rparr>)"
| run_end: "i < length (sy_workers s) \<Longrightarrow> sy_workers s ! i = Finished \<Longrightarrow>
    run_step s (s\<lparr>sy_pool := (sy_pool s)\<lparr>po_inFlight := po_inFlight (sy_pool s) - 1\<rparr>,
      sy_workers := (sy_workers s)[i := Idle]\<rparr>)"
| run_exit: "i < length (sy_workers s) \<Longrightarrow> sy_workers s ! i = Idle \<Longrightarrow> po_tasks (sy_pool s) = [] \<Longrightarrow>
    po_closed (sy_pool s) \<Longrightarrow> run_step s (s\<lparr>sy_workers := (sy_workers s)[i := Exited]\<rparr>)"

text \<open>The error of a context that is done.\<close>

definition ctx_errors :: "error list" where
  "ctx_errors = [ErrNew ''context canceled'', ErrNew ''context deadline exceeded'']"

text \<open>Both functions up to their \<open>select\<close>; there \<open>Submit\<close> waits for the channel or its context, and
  \<open>TrySubmit\<close> gives up when no send can proceed. A send on a closed channel panics.\<close>

inductive Submit_step :: "'t pool_system \<Rightarrow> 't pool_system \<Rightarrow> bool" where
  submit_call: "Submit_step s (s\<lparr>sy_calls := sy_calls s @ [Entered nb t]\<rparr>)"
| submit_stopped: "j < length (sy_calls s) \<Longrightarrow> sy_calls s ! j = Entered nb t \<Longrightarrow> po_stopped (sy_pool s) \<Longrightarrow>
    Submit_step s (s\<lparr>sy_calls := (sy_calls s)[j := Refused ErrPoolStopped]\<rparr>)"
| submit_admit: "j < length (sy_calls s) \<Longrightarrow> sy_calls s ! j = Entered nb t \<Longrightarrow> \<not> po_stopped (sy_pool s) \<Longrightarrow>
    Submit_step s (s\<lparr>sy_calls := (sy_calls s)[j := Admitted nb t]\<rparr>)"
| submit_count: "j < length (sy_calls s) \<Longrightarrow> sy_calls s ! j = Admitted nb t \<Longrightarrow>
    Submit_step s (s\<lparr>sy_pool := (sy_pool s)\<lparr>po_queued := po_queued (sy_pool s) + 1\<rparr>,
      sy_calls := (sy_calls s)[j := Selecting nb t]\<rparr>)"
| submit_send: "j < length (sy_calls s) \<Longrightarrow> sy_calls s ! j = Selecting nb t \<Longrightarrow> \<not> po_closed (sy_pool s) \<Longrightarrow>
    int (length (po_tasks (sy_pool s))) < pc_QueueSize (po_config (sy_pool s)) \<Longrightarrow>
    Submit_step s (s\<lparr>sy_pool := (sy_pool s)\<lparr>po_tasks := po_tasks (sy_pool s) @ [t]\<rparr>,
      sy_calls := (sy_calls s)[j := Accepted t]\<rparr>)"
| submit_handover: "j < length (sy_calls s) \<Longrightarrow> sy_calls s ! j = Selecting nb t \<Longrightarrow> \<not> po_closed (sy_pool s) \<Longrightarrow>
    po_tasks (sy_pool s) = [] \<Longrightarrow> i < length (sy_workers s) \<Longrightarrow> sy_workers s ! i = Idle \<Longrightarrow>
    Submit_step s (s\<lparr>sy_workers := (sy_workers s)[i := Received t],
      sy_calls := (sy_calls s)[j := Accepted t]\<rparr>)"
| submit_panic: "j < length (sy_calls s) \<Longrightarrow> sy_calls s ! j = Selecting nb t \<Longrightarrow> po_closed (sy_pool s) \<Longrightarrow>
    Submit_step s (s\<lparr>sy_calls := (sy_calls s)[j := Panicked]\<rparr>)"
| submit_done: "j < length (sy_calls s) \<Longrightarrow> sy_calls s ! j = Selecting False t \<Longrightarrow> err \<in> set ctx_errors \<Longrightarrow>
    Submit_step s (s\<lparr>sy_calls := (sy_calls s)[j := Leaving err]\<rparr>)"
| submit_default: "j < length (sy_calls s) \<Longrightarrow> sy_calls s ! j = Selecting True t \<Longrightarrow> \<not> po_closed (sy_pool s) \<Longrightarrow>
    pc_QueueSize (po_config (sy_pool s)) \<le> int (length (po_tasks (sy_pool s))) \<Longrightarrow>
    Submit_step s (s\<lparr>sy_calls := (sy_calls s)[j := Leaving ErrPoolSaturated]\<rparr>)"
| submit_leave: "j < length (sy_calls s) \<Longrightarrow> sy_calls s ! j = Leaving err \<Longrightarrow>
    Submit_step s (s\<lparr>sy_pool := (sy_pool s)\<lparr>po_queued := po_queued (sy_pool s) - 1\<rparr>,
      sy_calls := (sy_calls s)[j := Refused err]\<rparr>)"

text \<open>The body that \<open>stopOnce\<close> runs once; the calls of \<open>Stop\<close> then wait until every worker has exited.\<close>

inductive Stop_step :: "'t pool_system \<Rightarrow> 't pool_system \<Rightarrow> bool" where
  stop_mark: "sy_stop s = NotStopping \<Longrightarrow>
    Stop_step s (s\<lparr>sy_pool := (sy_pool s)\<lparr>po_stopped := True\<rparr>, sy_stop := Marked\<rparr>)"
| stop_close: "sy_stop s = Marked \<Longrightarrow>
    Stop_step s (s\<lparr>sy_pool := (sy_pool s)\<lparr>po_closed := True\<rparr>, sy_stop := Closed\<rparr>)"

definition Stop_returned :: "'t pool_system \<Rightarrow> bool" where
  "Stop_returned s \<longleftrightarrow> sy_stop s = Closed \<and> list_all (\<lambda>w. w = Exited) (sy_workers s)"

inductive pool_step :: "'t pool_system \<Rightarrow> 't pool_system \<Rightarrow> bool" where
  by_start: "pool_step s (Pool_Start s)"
| by_worker: "run_step s s' \<Longrightarrow> pool_step s s'"
| by_call: "Submit_step s s' \<Longrightarrow> pool_step s s'"
| by_stop: "Stop_step s s' \<Longrightarrow> pool_step s s'"

definition pool_init :: "'t pool_system \<Rightarrow> bool" where
  "pool_init s \<longleftrightarrow> (\<exists>config. s = \<lparr> sy_pool = NewPool config, sy_workers = [], sy_calls = [],
    sy_stop = NotStopping, sy_run = [] \<rparr>)"

section \<open>The invariant\<close>

fun held :: "'t worker \<Rightarrow> 't multiset" where
  "held (Received t) = {#t#}"
| "held (Dequeued t) = {#t#}"
| "held (Running t) = {#t#}"
| "held _ = {#}"

fun accepted :: "'t call \<Rightarrow> 't multiset" where
  "accepted (Accepted t) = {#t#}"
| "accepted _ = {#}"

fun flying :: "'t worker \<Rightarrow> int" where
  "flying (Running t) = 1"
| "flying Finished = 1"
| "flying _ = 0"

fun undequeued :: "'t worker \<Rightarrow> int" where
  "undequeued (Received t) = 1"
| "undequeued _ = 0"

text \<open>A call that panics has counted its task and never takes it back.\<close>

fun counted :: "'t call \<Rightarrow> int" where
  "counted (Selecting nb t) = 1"
| "counted (Leaving err) = 1"
| "counted Panicked = 1"
| "counted _ = 0"

definition all_accepted :: "'t pool_system \<Rightarrow> 't multiset" where
  "all_accepted s = sum_list (map accepted (sy_calls s))"

definition conserved :: "'t pool_system \<Rightarrow> bool" where
  "conserved s \<longleftrightarrow> all_accepted s =
    mset (po_tasks (sy_pool s)) + sum_list (map held (sy_workers s)) + mset (sy_run s)"

definition counters_ok :: "'t pool_system \<Rightarrow> bool" where
  "counters_ok s \<longleftrightarrow>
    po_inFlight (sy_pool s) = sum_list (map flying (sy_workers s)) \<and>
    po_queued (sy_pool s) = int (length (po_tasks (sy_pool s))) +
      sum_list (map undequeued (sy_workers s)) + sum_list (map counted (sy_calls s))"

definition channel_ok :: "'t pool_system \<Rightarrow> bool" where
  "channel_ok s \<longleftrightarrow>
    int (length (po_tasks (sy_pool s))) \<le> pc_QueueSize (po_config (sy_pool s)) \<and>
    1 \<le> pc_Size (po_config (sy_pool s)) \<and>
    int (length (sy_workers s)) = (if po_started (sy_pool s) then pc_Size (po_config (sy_pool s)) else 0) \<and>
    (po_stopped (sy_pool s) \<longleftrightarrow> sy_stop s \<noteq> NotStopping) \<and>
    (po_closed (sy_pool s) \<longleftrightarrow> sy_stop s = Closed) \<and>
    (Exited \<in> set (sy_workers s) \<longrightarrow> po_closed (sy_pool s) \<and> po_tasks (sy_pool s) = [])"

lemma conserved_run: "run_step s s' \<Longrightarrow> conserved s \<Longrightarrow> conserved s'"
  by (induction rule: run_step.induct;
      erule update_rest [where f = held]; simp add: conserved_def all_accepted_def)

lemma conserved_Submit: "Submit_step s s' \<Longrightarrow> conserved s \<Longrightarrow> conserved s'"
proof (induction rule: Submit_step.induct)
  case (submit_handover j s nb t i)
  obtain R where "sum_list (map accepted (sy_calls s)) = accepted (sy_calls s ! j) + R"
    "\<And>v. sum_list (map accepted ((sy_calls s)[j := v])) = accepted v + R"
    using update_rest [OF submit_handover(1), of accepted] by metis
  moreover obtain Q where "sum_list (map held (sy_workers s)) = held (sy_workers s ! i) + Q"
    "\<And>v. sum_list (map held ((sy_workers s)[i := v])) = held v + Q"
    using update_rest [OF submit_handover(5), of held] by metis
  ultimately show ?case using submit_handover by (simp add: conserved_def all_accepted_def)
qed (simp add: conserved_def all_accepted_def,
     erule update_rest [where f = accepted], simp add: conserved_def all_accepted_def)+

lemma counters_run: "run_step s s' \<Longrightarrow> counters_ok s \<Longrightarrow> counters_ok s'"
  by (induction rule: run_step.induct) (simp_all add: counters_ok_def sum_update_int)

lemma counters_Submit: "Submit_step s s' \<Longrightarrow> counters_ok s \<Longrightarrow> counters_ok s'"
  by (induction rule: Submit_step.induct) (simp_all add: counters_ok_def sum_update_int)

lemma channel_run: "run_step s s' \<Longrightarrow> channel_ok s \<Longrightarrow> channel_ok s'"
  by (induction rule: run_step.induct)
    (auto simp: channel_ok_def dest!: set_update_subset_insert [THEN subsetD])

lemma channel_Submit: "Submit_step s s' \<Longrightarrow> channel_ok s \<Longrightarrow> channel_ok s'"
  by (induction rule: Submit_step.induct)
    (auto simp: channel_ok_def dest!: set_update_subset_insert [THEN subsetD])

definition pool_ok :: "'t pool_system \<Rightarrow> bool" where
  "pool_ok s \<longleftrightarrow> conserved s \<and> counters_ok s \<and> channel_ok s"

lemma pool_ok_step: "pool_ok s \<Longrightarrow> pool_step s s' \<Longrightarrow> pool_ok s'"
proof -
  assume ok: "pool_ok s" and "pool_step s s'"
  from this(2) show "pool_ok s'"
  proof cases
    case by_start
    then show ?thesis using ok
      by (auto simp: pool_ok_def conserved_def all_accepted_def counters_ok_def channel_ok_def Pool_Start_def
          sum_list_replicate_zero simp del: map_replicate)
  next
    case by_worker
    then show ?thesis using ok by (simp add: pool_ok_def conserved_run counters_run channel_run)
  next
    case by_call
    then show ?thesis using ok by (simp add: pool_ok_def conserved_Submit counters_Submit channel_Submit)
  next
    case by_stop
    then show ?thesis using ok
      by cases (auto simp: pool_ok_def conserved_def all_accepted_def counters_ok_def channel_ok_def)
  qed
qed

lemma pool_ok_init: "pool_init s \<Longrightarrow> pool_ok s"
  by (auto simp: pool_init_def NewPool_def PoolConfig_withDefaults_def Let_def pool_ok_def conserved_def
      all_accepted_def counters_ok_def channel_ok_def)

interpretation pool: invariant_system pool_init pool_step pool_ok
  by unfold_locales (rule pool_ok_init, assumption, rule pool_ok_step)

section \<open>Draining\<close>

fun rank :: "'t worker \<Rightarrow> nat" where
  "rank (Received t) = 5"
| "rank (Dequeued t) = 4"
| "rank (Running t) = 3"
| "rank Finished = 2"
| "rank Idle = 1"
| "rank Exited = 0"

definition work :: "'t pool_system \<Rightarrow> nat" where
  "work s = 5 * length (po_tasks (sy_pool s)) + sum_list (map rank (sy_workers s))"

lemma run_step_work: "run_step s s' \<Longrightarrow> work s' < work s"
  by (induction rule: run_step.induct; erule update_rest [where f = rank]; simp add: work_def)

lemma run_steps_work: "(run_step ^^ n) s s' \<Longrightarrow> n + work s' \<le> work s"
  by (induction n arbitrary: s') (force dest!: run_step_work)+

lemma run_step_enabled:
  assumes "po_closed (sy_pool s)" "\<not> list_all (\<lambda>w. w = Exited) (sy_workers s)"
  shows "\<exists>s'. run_step s s'"
proof -
  obtain i where i: "i < length (sy_workers s)" "sy_workers s ! i \<noteq> Exited"
    using assms(2) by (auto simp: list_all_length)
  show ?thesis
  proof (cases "sy_workers s ! i")
    case Idle
    show ?thesis
    proof (cases "po_tasks (sy_pool s)")
      case Nil
      then show ?thesis using run_exit [OF i(1) Idle _ assms(1)] by blast
    next
      case (Cons t ts)
      then show ?thesis using run_receive [OF i(1) Idle] by blast
    qed
  next
    case (Received t)
    then show ?thesis using run_dequeue [OF i(1)] by blast
  next
    case (Dequeued t)
    then show ?thesis using run_begin [OF i(1)] by blast
  next
    case (Running t)
    then show ?thesis using run_task [OF i(1)] by blast
  next
    case Finished
    then show ?thesis using run_end [OF i(1)] by blast
  qed (use i in simp)
qed

lemma run_step_frame:
  "run_step s s' \<Longrightarrow> sy_stop s' = sy_stop s \<and> sy_calls s' = sy_calls s \<and>
    po_started (sy_pool s') = po_started (sy_pool s)"
  by (induction rule: run_step.induct) simp_all

lemma run_steps_frame:
  "(run_step ^^ n) s s' \<Longrightarrow> sy_stop s' = sy_stop s \<and> sy_calls s' = sy_calls s \<and>
    po_started (sy_pool s') = po_started (sy_pool s)"
  by (induction n arbitrary: s') (fastforce dest: run_step_frame)+

lemma run_steps_ok: "(run_step ^^ n) s s' \<Longrightarrow> pool_ok s \<Longrightarrow> pool_ok s'"
  by (induction n arbitrary: s') (auto intro: pool_ok_step by_worker)

lemma Stop_returned_drained:
  assumes "pool_ok s" "Stop_returned s" "po_started (sy_pool s)"
  shows "mset (sy_run s) = all_accepted s" "po_tasks (sy_pool s) = []" "po_inFlight (sy_pool s) = 0"
proof -
  have "\<forall>w \<in> set (sy_workers s). w = Exited" using assms(2) by (simp add: Stop_returned_def list_all_iff)
  then have "replicate (length (sy_workers s)) Exited = sy_workers s" by (rule replicate_length_same)
  then obtain n where ws: "sy_workers s = replicate n Exited" by metis
  have "0 < n" using assms(1,3) ws by (auto simp: pool_ok_def channel_ok_def)
  then have "Exited \<in> set (sy_workers s)" using ws by simp
  then show t: "po_tasks (sy_pool s) = []" using assms(1) by (simp add: pool_ok_def channel_ok_def)
  have "sum_list (map held (sy_workers s)) = {#}" "sum_list (map flying (sy_workers s)) = 0"
    unfolding ws by (simp_all add: sum_list_replicate_zero del: map_replicate)
  then show "mset (sy_run s) = all_accepted s" "po_inFlight (sy_pool s) = 0"
    using assms(1) t by (simp_all add: pool_ok_def conserved_def counters_ok_def)
qed

section \<open>A stop that waits for the callers\<close>

text \<open>No call is past the check of \<open>stopped\<close> and undecided.\<close>

fun settled_call :: "'t call \<Rightarrow> bool" where
  "settled_call (Admitted nb t) = False"
| "settled_call (Selecting nb t) = False"
| "settled_call (Leaving err) = False"
| "settled_call Panicked = False"
| "settled_call _ = True"

definition quiet :: "'t pool_system \<Rightarrow> bool" where
  "quiet s \<longleftrightarrow> po_stopped (sy_pool s) \<and> list_all settled_call (sy_calls s)"

lemma settled_nth: "list_all settled_call cs \<Longrightarrow> j < length cs \<Longrightarrow> cs ! j = c \<Longrightarrow> settled_call c"
  by (auto simp: list_all_length)

lemma settled_update: "list_all settled_call cs \<Longrightarrow> settled_call c \<Longrightarrow> list_all settled_call (cs[j := c])"
  by (auto simp: list_all_iff dest!: set_update_subset_insert [THEN subsetD])

lemma quiet_step: "quiet s \<Longrightarrow> pool_step s s' \<Longrightarrow> quiet s'"
proof -
  assume q: "quiet s" and "pool_step s s'"
  from this(2) show "quiet s'"
  proof cases
    case by_start
    then show ?thesis using q by (simp add: quiet_def Pool_Start_def)
  next
    case by_worker
    then show ?thesis using q by cases (simp_all add: quiet_def)
  next
    case by_call
    then show ?thesis using q
      by cases (auto simp: quiet_def intro: settled_update dest: settled_nth)
  next
    case by_stop
    then show ?thesis using q by cases (simp_all add: quiet_def)
  qed
qed

section \<open>An example run\<close>

text \<open>A pool with one worker and room for one task, a number as the task.\<close>

definition ex_sys ::
  "nat worker list \<Rightarrow> nat list \<Rightarrow> int \<times> int \<Rightarrow> nat call list \<Rightarrow> stopping \<Rightarrow> nat list \<Rightarrow> nat pool_system" where
  "ex_sys ws ts counts calls st log =
    \<lparr> sy_pool = \<lparr> po_config = \<lparr>pc_Size = 1, pc_QueueSize = 1\<rparr>, po_tasks = ts, po_closed = (st = Closed),
        po_started = (ws \<noteq> []), po_stopped = (st \<noteq> NotStopping), po_inFlight = snd counts, po_queued = fst counts \<rparr>,
      sy_workers = ws, sy_calls = calls, sy_stop = st, sy_run = log \<rparr>"

lemma ex_step:
  assumes "reach pool_init pool_step s" "pool_step s t'" "t' = t"
  shows "reach pool_init pool_step t"
  using assms by (auto intro: reach_step)

lemma ex_init: "reach pool_init pool_step (ex_sys [] [] (0, 0) [] NotStopping [])"
  by (rule reach_init, unfold pool_init_def, rule exI [of _ "\<lparr>pc_Size = 1, pc_QueueSize = 1\<rparr>"])
    (simp add: ex_sys_def NewPool_def PoolConfig_withDefaults_def)

lemma ex_selecting: "reach pool_init pool_step (ex_sys [Idle] [] (1, 0) [Selecting False 7] NotStopping [])"
proof -
  have "reach pool_init pool_step (ex_sys [Idle] [] (0, 0) [] NotStopping [])"
    by (rule ex_step [OF ex_init by_start]) (simp add: ex_sys_def Pool_Start_def)
  from ex_step [OF this by_call [OF submit_call [where nb = False and t = 7]]]
  have "reach pool_init pool_step (ex_sys [Idle] [] (0, 0) [Entered False 7] NotStopping [])"
    by (simp add: ex_sys_def)
  from ex_step [OF this by_call [OF submit_admit [where j = 0 and nb = False]]]
  have "reach pool_init pool_step (ex_sys [Idle] [] (0, 0) [Admitted False 7] NotStopping [])"
    by (simp add: ex_sys_def)
  from ex_step [OF this by_call [OF submit_count [where j = 0 and nb = False]]]
  show ?thesis by (simp add: ex_sys_def)
qed

lemma ex_closed: "reach pool_init pool_step (ex_sys [Idle] [7] (1, 0) [Accepted 7] Closed [])"
proof -
  from ex_step [OF ex_selecting by_call [OF submit_send [where j = 0 and nb = False]]]
  have "reach pool_init pool_step (ex_sys [Idle] [7] (1, 0) [Accepted 7] NotStopping [])"
    by (simp add: ex_sys_def)
  from ex_step [OF this by_stop [OF stop_mark]]
  have "reach pool_init pool_step (ex_sys [Idle] [7] (1, 0) [Accepted 7] Marked [])"
    by (simp add: ex_sys_def)
  from ex_step [OF this by_stop [OF stop_close]] show ?thesis by (simp add: ex_sys_def)
qed

lemma ex_run: "(run_step ^^ 6) (ex_sys [Idle] [7] (1, 0) [Accepted 7] Closed [])
  (ex_sys [Exited] [] (0, 0) [Accepted 7] Closed [7])"
proof -
  let ?s = "\<lambda>w ts c r. ex_sys [w] ts c [Accepted 7] Closed r"
  have "run_step (?s Idle [7] (1, 0) []) (?s (Received 7) [] (1, 0) [])"
    using run_receive [of 0 "?s Idle [7] (1, 0) []" 7 "[]"] by (simp add: ex_sys_def)
  moreover have "run_step (?s (Received 7) [] (1, 0) []) (?s (Dequeued 7) [] (0, 0) [])"
    using run_dequeue [of 0 "?s (Received 7) [] (1, 0) []" 7] by (simp add: ex_sys_def)
  moreover have "run_step (?s (Dequeued 7) [] (0, 0) []) (?s (Running 7) [] (0, 1) [])"
    using run_begin [of 0 "?s (Dequeued 7) [] (0, 0) []" 7] by (simp add: ex_sys_def)
  moreover have "run_step (?s (Running 7) [] (0, 1) []) (?s Finished [] (0, 1) [7])"
    using run_task [of 0 "?s (Running 7) [] (0, 1) []" 7] by (simp add: ex_sys_def)
  moreover have "run_step (?s Finished [] (0, 1) [7]) (?s Idle [] (0, 0) [7])"
    using run_end [of 0 "?s Finished [] (0, 1) [7]"] by (simp add: ex_sys_def)
  moreover have "run_step (?s Idle [] (0, 0) [7]) (?s Exited [] (0, 0) [7])"
    using run_exit [of 0 "?s Idle [] (0, 0) [7]"] by (simp add: ex_sys_def)
  ultimately show ?thesis
    unfolding numeral_nat One_nat_def relpowp.simps by blast
qed

section \<open>Properties\<close>

text \<open>C24: the counters never lie: in every reachable interleaving of workers, submissions and \<open>Stop\<close>,
  \<open>InFlight\<close> is the number of workers between its increment and its decrement, at most the pool's
  size, and \<open>Queued\<close> is the number of tasks in the channel, just received, or held by a call that
  waits or died at the channel; neither is ever negative.\<close>

theorem pool_counters:
  assumes "reach pool_init pool_step s"
  shows "Pool_InFlight (sy_pool s) = sum_list (map flying (sy_workers s)) \<and>
    0 \<le> Pool_InFlight (sy_pool s) \<and> Pool_InFlight (sy_pool s) \<le> Pool_Size (sy_pool s) \<and>
    Pool_Queued (sy_pool s) = int (length (po_tasks (sy_pool s))) +
      sum_list (map undequeued (sy_workers s)) + sum_list (map counted (sy_calls s)) \<and>
    0 \<le> Pool_Queued (sy_pool s)"
proof -
  have ok: "pool_ok s" by (rule pool.reach_inv [OF assms])
  have fl: "0 \<le> sum_list (map flying ws) \<and> sum_list (map flying ws) \<le> int (length ws)" for ws :: "'t worker list"
  proof (induction ws)
    case (Cons w ws)
    then show ?case by (cases w) auto
  qed simp
  have un: "0 \<le> undequeued w" for w :: "'t worker" by (cases w) auto
  have co: "0 \<le> counted c" for c :: "'t call" by (cases c) auto
  have "0 \<le> sum_list (map undequeued (sy_workers s))" "0 \<le> sum_list (map counted (sy_calls s))"
    by (intro sum_list_nonneg; auto simp: un co)+
  then show ?thesis
    using ok fl [of "sy_workers s"]
    by (auto simp: pool_ok_def counters_ok_def channel_ok_def Pool_InFlight_def Pool_Queued_def Pool_Size_def
        split: if_splits)
qed

theorem pool_counters_witness:
  "Pool_Queued (sy_pool (ex_sys [Idle] [] (1, 0) [Selecting False 7] NotStopping [])) = 1"
  using pool_counters [OF ex_selecting] by (simp add: ex_sys_def)

text \<open>C25: stopping drains the pool: once \<open>Stop\<close> has closed the channel, the workers take at most
  \<open>work s\<close> more steps, whatever their order, and they can only come to rest with every worker
  exited; \<open>Stop\<close> returns then, and every task that a call ever handed over has been run exactly once.\<close>

theorem pool_Stop_drains:
  assumes "reach pool_init pool_step s" "po_started (sy_pool s)" "sy_stop s = Closed"
    and "(run_step ^^ n) s s'"
  shows "n \<le> work s \<and>
    ((\<nexists>s''. run_step s' s'') \<longleftrightarrow> Stop_returned s') \<and>
    (Stop_returned s' \<longrightarrow> mset (sy_run s') = all_accepted s \<and> po_tasks (sy_pool s') = [] \<and>
      Pool_InFlight (sy_pool s') = 0)"
proof -
  have ok: "pool_ok s'" using run_steps_ok [OF assms(4) pool.reach_inv [OF assms(1)]] .
  have fr: "sy_stop s' = Closed" "sy_calls s' = sy_calls s" "po_started (sy_pool s')"
    using run_steps_frame [OF assms(4)] assms(2,3) by simp_all
  have cl: "po_closed (sy_pool s')" using ok fr(1) by (simp add: pool_ok_def channel_ok_def)
  have "\<not> run_step s' s''" if "Stop_returned s'" for s''
    using that by (auto simp: Stop_returned_def list_all_length elim!: run_step.cases)
  moreover have "Stop_returned s'" if "\<nexists>s''. run_step s' s''"
    using that run_step_enabled [OF cl] fr(1) by (auto simp: Stop_returned_def)
  moreover have "mset (sy_run s') = all_accepted s \<and> po_tasks (sy_pool s') = [] \<and> Pool_InFlight (sy_pool s') = 0"
    if "Stop_returned s'"
    using Stop_returned_drained [OF ok that fr(3)] fr(2) by (simp add: all_accepted_def Pool_InFlight_def)
  ultimately show ?thesis using run_steps_work [OF assms(4)] by auto
qed

theorem pool_Stop_drains_witness:
  "6 \<le> work (ex_sys [Idle] [7] (1, 0) [Accepted 7] Closed []) \<and>
    Stop_returned (ex_sys [Exited] [] (0, 0) [Accepted 7] Closed [7]) \<and>
    mset [7] = all_accepted (ex_sys [Idle] [7] (1, 0) [Accepted 7] Closed [])"
  using pool_Stop_drains [OF ex_closed _ _ ex_run] by (simp add: ex_sys_def Stop_returned_def)




end
