(* ===== verification/Engine.thy ===== *)
theory Engine
  imports Broker Storage Retry Worker
begin

text \<open>
  The delivery engine, \<open>internal/engine\<close>: publishing, the dispatcher with its consumers, pull
  delivery, retries, dead letters and replay, lease reclaim.

  The store is a state \<open>'s\<close> with its table of operations \<open>ops\<close>. What a call reads from outside is an
  argument: each reading of the clock, the entropy of a new identifier, the draw of the random
  source and the platform's conversion \<open>oor\<close> (see \<open>Retry\<close>), the identifier that the store gives to a
  new dead letter, the result of a handler, which way a \<open>select\<close> goes. The calls of the \<open>Metrics\<close>
  interface are collected in a list. Log output is left out.
\<close>

section \<open>Consumers: \<open>consumer.go\<close>\<close>

record Delivery =
  dv_Message :: Message
  dv_Attempt :: int
  dv_Queue :: string

text \<open>The handler itself is outside; \<open>cs_Handler\<close> says that it is not nil.\<close>

record ConsumerSpec =
  cs_Name :: string
  cs_Queue :: string
  cs_Concurrency :: int
  cs_Prefetch :: int
  cs_ProcessingTimeout :: duration
  cs_Handler :: bool

record Consumer =
  co_spec :: ConsumerSpec
  co_pool :: "Delivery Pool"
  co_cancelled :: bool
  co_stopped :: bool

record ConsumerStatus =
  ct_Name :: string
  ct_Queue :: string
  ct_Concurrency :: int
  ct_Prefetch :: int
  ct_InFlight :: int
  ct_Queued :: int

definition ConsumerSpec_withDefaults :: "ConsumerSpec \<Rightarrow> duration \<Rightarrow> ConsumerSpec" where
  "ConsumerSpec_withDefaults s visibilityTimeout =
    (let s = (if cs_Concurrency s < 1 then s\<lparr>cs_Concurrency := 1\<rparr> else s);
         s = (if cs_Prefetch s < 1 then s\<lparr>cs_Prefetch := cs_Concurrency s\<rparr> else s)
     in if cs_ProcessingTimeout s \<le> 0 then s\<lparr>cs_ProcessingTimeout := visibilityTimeout\<rparr> else s)"

definition Consumer_Name :: "Consumer \<Rightarrow> string" where "Consumer_Name c = cs_Name (co_spec c)"
definition Consumer_Queue :: "Consumer \<Rightarrow> string" where "Consumer_Queue c = cs_Queue (co_spec c)"

definition Consumer_Status :: "Consumer \<Rightarrow> ConsumerStatus" where
  "Consumer_Status c =
    \<lparr> ct_Name = cs_Name (co_spec c), ct_Queue = cs_Queue (co_spec c),
      ct_Concurrency = cs_Concurrency (co_spec c), ct_Prefetch = cs_Prefetch (co_spec c),
      ct_InFlight = Pool_InFlight (co_pool c), ct_Queued = Pool_Queued (co_pool c) \<rparr>"

text \<open>\<open>Stop\<close> cancels the context of the dispatcher, waits for it, and stops the pool; the waits are
  those of the pool (see \<open>Worker\<close>).\<close>

definition Consumer_Stop :: "Consumer \<Rightarrow> Consumer" where
  "Consumer_Stop c =
    (if co_stopped c then c
     else c\<lparr> co_stopped := True, co_cancelled := True,
             co_pool := (co_pool c)\<lparr>po_stopped := True, po_closed := True\<rparr> \<rparr>)"

text \<open>\<open>Permanent\<close>; \<open>isPermanent\<close> and the texts are with the errors.\<close>

definition Permanent :: "error \<Rightarrow> error" where "Permanent err = PermanentError err"

section \<open>The engine: \<open>engine.go\<close>\<close>

datatype metric =
    MessagePublished string duration
  | MessageDelivered string
  | MessageAcknowledged string duration
  | MessageRetried string
  | MessageDeadLettered string string
  | MessageRejected string
  | QueueDepth string int int int

record 's Options =
  op_Store :: "'s option"
  op_Retry :: Policy
  op_Schemas :: "(string \<Rightarrow> string \<Rightarrow> error option) option"
  op_ReclaimInterval :: duration

text \<open>\<open>eg_schemas\<close> is the method \<open>Validate\<close> of the schema registry, if there is one. A consumer is an
  object in \<open>eg_objects\<close> and its pointer the index there; the map \<open>eg_consumers\<close> holds pointers. A
  signal channel has room for one token; the flag says that it holds one. \<open>eg_rootCtx\<close> says that
  the field is not nil.\<close>

record 's Engine =
  eg_store :: 's
  eg_registry :: Registry
  eg_policy :: Policy
  eg_schemas :: "(string \<Rightarrow> string \<Rightarrow> error option) option"
  eg_metrics :: "metric list"
  eg_reclaimInterval :: duration
  eg_consumers :: "(string, nat) gomap"
  eg_signals :: "(string, bool) gomap"
  eg_rootCtx :: bool
  eg_objects :: "Consumer list"

record PublishResult =
  pr_Exchange :: string
  pr_RoutingKey :: string
  pr_MessageIDs :: "string list"
  pr_Queues :: "string list"

definition defaultReclaimInterval :: duration where "defaultReclaimInterval = 5 * second"

definition Engine_New :: "'s Options \<Rightarrow> error + 's Engine" where
  "Engine_New opts =
    (case op_Store opts of
       None \<Rightarrow> Inl (ErrNew ''engine: store is required'')
     | Some store \<Rightarrow>
         let policy = Policy_WithDefaults (op_Retry opts) in
         case Policy_Validate policy of
           Some err \<Rightarrow> Inl err
         | None \<Rightarrow> Inr
             \<lparr> eg_store = store, eg_registry = NewRegistry, eg_policy = policy,
               eg_schemas = op_Schemas opts, eg_metrics = [],
               eg_reclaimInterval =
                 (if op_ReclaimInterval opts \<le> 0 then defaultReclaimInterval else op_ReclaimInterval opts),
               eg_consumers = [], eg_signals = [], eg_rootCtx = False, eg_objects = [] \<rparr>)"

text \<open>Recording a call of the metrics, and a change of the store.\<close>

definition metric :: "metric \<Rightarrow> 's Engine \<Rightarrow> 's Engine" where
  "metric m e = e\<lparr>eg_metrics := eg_metrics e @ [m]\<rparr>"

definition with_store :: "'s Engine \<Rightarrow> 's \<Rightarrow> 's Engine" where
  "with_store e s = e\<lparr>eg_store := s\<rparr>"

definition recordHistory :: "'s store_ops \<Rightarrow> 's Engine \<Rightarrow> HistoryEvent \<Rightarrow> 's Engine" where
  "recordHistory ops e event = with_store e (snd (so_AppendHistory ops (eg_store e) event))"

definition Engine_Start :: "'s Engine \<Rightarrow> 's Engine" where
  "Engine_Start e = (if eg_rootCtx e then e else e\<lparr>eg_rootCtx := True\<rparr>)"

text \<open>\<open>Shutdown\<close>; \<open>timeout\<close> is the error of the caller's context when it ends before the consumers
  have stopped.\<close>

definition Engine_Shutdown :: "'s Engine \<Rightarrow> error option \<Rightarrow> error option \<times> 's Engine" where
  "Engine_Shutdown e timeout =
    (let pointers = mvals (eg_consumers e);
         e = e\<lparr>eg_consumers := [], eg_rootCtx := False\<rparr>;
         e = e\<lparr>eg_objects := fold (\<lambda>p objs. objs[p := Consumer_Stop (objs ! p)]) pointers (eg_objects e)\<rparr>
     in (map_option (ErrWrap ''engine: shutdown timed out: '') timeout, e))"

definition Engine_Restore :: "'s store_ops \<Rightarrow> 's Engine \<Rightarrow> error option \<times> 's Engine" where
  "Engine_Restore ops e =
    (case so_Exchanges ops (eg_store e) of
       Inl err \<Rightarrow> (Some (ErrWrap ''engine: restore exchanges: '' err), e)
     | Inr exchanges \<Rightarrow> (case so_Queues ops (eg_store e) of
         Inl err \<Rightarrow> (Some (ErrWrap ''engine: restore queues: '' err), e)
       | Inr queues \<Rightarrow> (case so_Bindings ops (eg_store e) of
           Inl err \<Rightarrow> (Some (ErrWrap ''engine: restore bindings: '' err), e)
         | Inr bindings \<Rightarrow>
             (None, e\<lparr>eg_registry := Registry_Restore (eg_registry e) exchanges queues bindings\<rparr>))))"

definition Engine_DeclareExchange ::
  "'s store_ops \<Rightarrow> 's Engine \<Rightarrow> ExchangeSpec \<Rightarrow> time \<Rightarrow> (error + Exchange) \<times> 's Engine" where
  "Engine_DeclareExchange ops e spec now =
    (let (res, r) = Registry_DeclareExchange (eg_registry e) spec now; e = e\<lparr>eg_registry := r\<rparr> in
     case res of
       Inl err \<Rightarrow> (Inl err, e)
     | Inr exchange \<Rightarrow>
         if xs_Durable (ex_Spec exchange)
         then (case so_SaveExchange ops (eg_store e) exchange of
             (Some err, s) \<Rightarrow> (Inl err, with_store e s)
           | (None, s) \<Rightarrow> (Inr exchange, with_store e s))
         else (Inr exchange, e))"

definition Engine_DeclareQueue ::
  "'s store_ops \<Rightarrow> 's Engine \<Rightarrow> QueueSpec \<Rightarrow> time \<Rightarrow> (error + Queue) \<times> 's Engine" where
  "Engine_DeclareQueue ops e spec now =
    (let (res, r) = Registry_DeclareQueue (eg_registry e) spec now; e = e\<lparr>eg_registry := r\<rparr> in
     case res of
       Inl err \<Rightarrow> (Inl err, e)
     | Inr queue \<Rightarrow>
         if qs_Durable (q_Spec queue)
         then (case so_SaveQueue ops (eg_store e) queue of
             (Some err, s) \<Rightarrow> (Inl err, with_store e s)
           | (None, s) \<Rightarrow> (Inr queue, with_store e s))
         else (Inr queue, e))"

definition Engine_Bind ::
  "'s store_ops \<Rightarrow> 's Engine \<Rightarrow> BindingSpec \<Rightarrow> time \<Rightarrow> (error + Binding) \<times> 's Engine" where
  "Engine_Bind ops e spec now =
    (let (res, r) = Registry_Bind (eg_registry e) spec now; e = e\<lparr>eg_registry := r\<rparr> in
     case res of
       Inl err \<Rightarrow> (Inl err, e)
     | Inr binding \<Rightarrow> (case so_SaveBinding ops (eg_store e) binding of
         (Some err, s) \<Rightarrow> (Inl err, with_store e s)
       | (None, s) \<Rightarrow> (Inr binding, with_store e s)))"

definition Engine_Unbind :: "'s store_ops \<Rightarrow> 's Engine \<Rightarrow> BindingSpec \<Rightarrow> error option \<times> 's Engine" where
  "Engine_Unbind ops e spec =
    (let (res, r) = Registry_Unbind (eg_registry e) spec; e = e\<lparr>eg_registry := r\<rparr> in
     case res of
       Some err \<Rightarrow> (Some err, e)
     | None \<Rightarrow> (case so_DeleteBinding ops (eg_store e) spec of
         (Some err, s) \<Rightarrow> (if errors_Is err ErrNotFound then None else Some err, with_store e s)
       | (None, s) \<Rightarrow> (None, with_store e s)))"

definition Engine_DeleteQueue :: "'s store_ops \<Rightarrow> 's Engine \<Rightarrow> string \<Rightarrow> error option \<times> 's Engine" where
  "Engine_DeleteQueue ops e name =
    (let (res, r) = Registry_DeleteQueue (eg_registry e) name; e = e\<lparr>eg_registry := r\<rparr> in
     case res of
       Some err \<Rightarrow> (Some err, e)
     | None \<Rightarrow> (case so_DeleteQueue ops (eg_store e) name of
         (Some err, s) \<Rightarrow> (if errors_Is err ErrNotFound then None else Some err, with_store e s)
       | (None, s) \<Rightarrow> (None, with_store e s)))"

definition Engine_Ping :: "'s store_ops \<Rightarrow> 's Engine \<Rightarrow> error option" where
  "Engine_Ping ops e =
    (case so_Queues ops (eg_store e) of
       Inl err \<Rightarrow> Some (ErrWrap ''engine: storage probe failed: '' err) | Inr _ \<Rightarrow> None)"

definition Engine_Message :: "'s store_ops \<Rightarrow> 's Engine \<Rightarrow> string \<Rightarrow> error + Message" where
  "Engine_Message ops e mid = so_Message ops (eg_store e) mid"

definition Engine_History :: "'s store_ops \<Rightarrow> 's Engine \<Rightarrow> string \<Rightarrow> error + HistoryEvent list" where
  "Engine_History ops e mid = so_History ops (eg_store e) mid"

definition Engine_Depth :: "'s store_ops \<Rightarrow> 's Engine \<Rightarrow> string \<Rightarrow> error + Depth" where
  "Engine_Depth ops e queue = so_Depth ops (eg_store e) queue"

definition Engine_Purge :: "'s store_ops \<Rightarrow> 's Engine \<Rightarrow> string \<Rightarrow> (error + int) \<times> 's Engine" where
  "Engine_Purge ops e queue =
    (let (res, s) = so_Purge ops (eg_store e) queue in (res, with_store e s))"

section \<open>Signals: \<open>dispatcher.go\<close>\<close>

definition queueSignal :: "'s Engine \<Rightarrow> string \<Rightarrow> 's Engine" where
  "queueSignal e queue =
    (if mget (eg_signals e) queue = None then e\<lparr>eg_signals := mput (eg_signals e) queue False\<rparr> else e)"

definition notify :: "string list \<Rightarrow> 's Engine \<Rightarrow> 's Engine" where
  "notify queues e =
    e\<lparr>eg_signals := fold (\<lambda>queue signals.
        if mget signals queue = None then signals else mput signals queue True) queues (eg_signals e)\<rparr>"

section \<open>Validation: \<open>validation.go\<close>\<close>

definition errorKindValidation :: string where "errorKindValidation = ''validation''"

definition rejected_record :: "Message \<Rightarrow> error \<Rightarrow> time \<Rightarrow> DeadLetter" where
  "rejected_record msg cause now =
    \<lparr> dl_ID = [], dl_MessageID = msg_ID msg, dl_Queue = msg_Queue msg, dl_Exchange = msg_Exchange msg,
      dl_RoutingKey = msg_RoutingKey msg, dl_Schema = msg_Schema msg, dl_Payload = msg_Payload msg,
      dl_Headers = msg_Headers msg, dl_Reason = error_text cause, dl_ErrorKind = errorKindValidation,
      dl_Attempts = 0, dl_PublishedAt = msg_CreatedAt msg, dl_FirstFailedAt = now,
      dl_DeadLetteredAt = now, dl_ReplayedAs = [], dl_ReplayedAt = zero_time, dl_ReplayCount = 0 \<rparr>"

definition parkRejected ::
  "'s store_ops \<Rightarrow> 's Engine \<Rightarrow> Message \<Rightarrow> error \<Rightarrow> time \<Rightarrow> string \<Rightarrow> 's Engine" where
  "parkRejected ops e msg cause now fresh =
    with_store e (snd (so_SaveDeadLetter ops (eg_store e) (rejected_record msg cause now) fresh))"

text \<open>The message that a failed validation marks as failed is dropped by the only caller.\<close>

definition Engine_validate ::
  "'s store_ops \<Rightarrow> 's Engine \<Rightarrow> Message \<Rightarrow> time \<Rightarrow> string \<Rightarrow> error option \<times> 's Engine" where
  "Engine_validate ops e msg now fresh =
    (case eg_schemas e of
       None \<Rightarrow> (None, e)
     | Some Validate \<Rightarrow>
         if msg_Schema msg = [] then (None, e)
         else (case Validate (msg_Schema msg) (msg_Payload msg) of
           None \<Rightarrow> (None, e)
         | Some err \<Rightarrow>
             let failed = (case Transition msg StateFailed now of Inl _ \<Rightarrow> msg | Inr m \<Rightarrow> m)
             in (Some err, parkRejected ops e failed err now fresh)))"

section \<open>Publishing: \<open>engine.go\<close>\<close>

text \<open>The loop over the queues that the publication reaches; the entropy is that of the loop's turns.\<close>

fun publish_loop ::
  "'s store_ops \<Rightarrow> 's Engine \<Rightarrow> Publication \<Rightarrow> time \<Rightarrow> string \<Rightarrow> Queue list \<Rightarrow> (nat \<Rightarrow> byte list) \<Rightarrow>
    Message list \<Rightarrow> (error + Message list) \<times> 's Engine" where
  "publish_loop ops e pub now fresh [] entropy messages = (Inr messages, e)"
| "publish_loop ops e pub now fresh (queue # queues) entropy messages =
    (let msg = message_New pub (qs_Name (q_Spec queue)) now (entropy 0);
         msg = msg\<lparr>msg_MaxAttempts := qs_MaxAttempts (q_Spec queue)\<rparr>;
         msg = (if msg_Schema msg = [] then msg\<lparr>msg_Schema := qs_Schema (q_Spec queue)\<rparr> else msg)
     in case Engine_validate ops e msg now fresh of
          (Some err, e) \<Rightarrow> (Inl err, metric (MessageRejected (qs_Name (q_Spec queue))) e)
        | (None, e) \<Rightarrow> (case Transition msg StateQueued now of
            Inl err \<Rightarrow> (Inl err, e)
          | Inr msg \<Rightarrow>
              publish_loop ops e pub now fresh queues (\<lambda>i. entropy (Suc i)) (messages @ [msg])))"

definition queued_event :: "Message \<Rightarrow> time \<Rightarrow> string \<Rightarrow> HistoryEvent" where
  "queued_event msg now detail =
    \<lparr> he_MessageID = msg_ID msg, he_Queue = msg_Queue msg, he_From = StateCreated, he_To = StateQueued,
      he_Consumer = [], he_Detail = detail, he_At = now \<rparr>"

definition Engine_Publish ::
  "'s store_ops \<Rightarrow> 's Engine \<Rightarrow> Publication \<Rightarrow> time \<Rightarrow> (nat \<Rightarrow> byte list) \<Rightarrow> string \<Rightarrow> duration \<Rightarrow>
    (error + PublishResult) \<times> 's Engine" where
  "Engine_Publish ops e pub now entropy fresh latency =
    (case Registry_Route (eg_registry e) (pub_Exchange pub) (pub_RoutingKey pub) of
       Inl err \<Rightarrow> (Inl err, e)
     | Inr queues \<Rightarrow> (case publish_loop ops e pub now fresh queues entropy [] of
         (Inl err, e) \<Rightarrow> (Inl err, e)
       | (Inr messages, e) \<Rightarrow> (case so_Append ops (eg_store e) messages of
           (Some err, s) \<Rightarrow> (Inl err, with_store e s)
         | (None, s) \<Rightarrow>
             let result = \<lparr> pr_Exchange = pub_Exchange pub, pr_RoutingKey = pub_RoutingKey pub,
                            pr_MessageIDs = map msg_ID messages, pr_Queues = map msg_Queue messages \<rparr>;
                 e = fold (\<lambda>msg e. recordHistory ops e (queued_event msg now [])) messages (with_store e s);
                 e = fold (\<lambda>queue. metric (MessagePublished queue latency)) (pr_Queues result) e
             in (Inr result, notify (pr_Queues result) e))))"

end
