(* ===== verification/Dispatch.thy ===== *)
theory Dispatch
  imports Engine
begin

text \<open>
  Delivery and its outcomes: dead letters and replay (\<open>deadletter.go\<close>), the dispatcher
  (\<open>dispatcher.go\<close>), pull delivery (\<open>pull.go\<close>), lease reclaim (\<open>maintenance.go\<close>) and the depth
  gauges (\<open>metrics.go\<close>).
\<close>

section \<open>Dead letters: \<open>deadletter.go\<close>\<close>

definition errorKindHandler :: string where "errorKindHandler = ''handler''"
definition errorKindPermanent :: string where "errorKindPermanent = ''permanent''"
definition errorKindExpired :: string where "errorKindExpired = ''lease_expired''"

definition headerConsumer :: string where "headerConsumer = ''x-consumer''"
definition headerReplayOf :: string where "headerReplayOf = ''x-replay-of''"
definition headerDeadLetterID :: string where "headerDeadLetterID = ''x-dead-letter-id''"

record ReplayResult =
  rp_DeadLetterID :: string
  rp_OriginalMessageID :: string
  rp_MessageID :: string
  rp_Queue :: string

definition firstFailureAt :: "'s store_ops \<Rightarrow> 's Engine \<Rightarrow> string \<Rightarrow> time \<Rightarrow> time" where
  "firstFailureAt ops e mid fallback =
    (case so_History ops (eg_store e) mid of
       Inl _ \<Rightarrow> fallback
     | Inr events \<Rightarrow>
         (case find (\<lambda>ev. he_To ev = StateRetrying \<or> he_To ev = StateFailed) events of
            Some ev \<Rightarrow> he_At ev | None \<Rightarrow> fallback))"

definition classify :: "error \<Rightarrow> string" where
  "classify cause =
    (if errors_Is cause ErrLeaseExpired then errorKindExpired
     else if isPermanent cause then errorKindPermanent
     else errorKindHandler)"

definition dead_record :: "'s store_ops \<Rightarrow> 's Engine \<Rightarrow> Delivery \<Rightarrow> error \<Rightarrow> time \<Rightarrow> DeadLetter" where
  "dead_record ops e d cause now =
    (let m = dv_Message d in
     \<lparr> dl_ID = [], dl_MessageID = msg_ID m, dl_Queue = dv_Queue d, dl_Exchange = msg_Exchange m,
       dl_RoutingKey = msg_RoutingKey m, dl_Schema = msg_Schema m, dl_Payload = msg_Payload m,
       dl_Headers = msg_Headers m, dl_Reason = error_text cause, dl_ErrorKind = classify cause,
       dl_Attempts = dv_Attempt d, dl_PublishedAt = msg_CreatedAt m,
       dl_FirstFailedAt = firstFailureAt ops e (msg_ID m) now, dl_DeadLetteredAt = now,
       dl_ReplayedAs = [], dl_ReplayedAt = zero_time, dl_ReplayCount = 0 \<rparr>)"

definition Engine_deadLetter ::
  "'s store_ops \<Rightarrow> 's Engine \<Rightarrow> string \<Rightarrow> Delivery \<Rightarrow> error \<Rightarrow> time \<Rightarrow> string \<Rightarrow> 's Engine" where
  "Engine_deadLetter ops e consumer d cause now fresh =
    (case so_SaveDeadLetter ops (eg_store e) (dead_record ops e d cause now) fresh of
       (Inl err, s) \<Rightarrow> with_store e s
     | (Inr record, s) \<Rightarrow>
         (case so_MarkDeadLettered ops s (msg_ID (dv_Message d)) (error_text cause) now of
            (Some err, s) \<Rightarrow> with_store e s
          | (None, s) \<Rightarrow>
              metric (MessageDeadLettered (dv_Queue d) (dl_ErrorKind record))
                (recordHistory ops (with_store e s)
                  \<lparr> he_MessageID = msg_ID (dv_Message d), he_Queue = dv_Queue d, he_From = StateFailed,
                    he_To = StateDeadLettered, he_Consumer = consumer, he_Detail = error_text cause,
                    he_At = now \<rparr>)))"

definition Engine_DeadLetters :: "'s store_ops \<Rightarrow> 's Engine \<Rightarrow> DeadLetterFilter \<Rightarrow> error + DeadLetter list" where
  "Engine_DeadLetters ops e flt = so_DeadLetters ops (eg_store e) flt"

definition Engine_DeadLetter :: "'s store_ops \<Rightarrow> 's Engine \<Rightarrow> string \<Rightarrow> error + DeadLetter" where
  "Engine_DeadLetter ops e did = so_DeadLetter ops (eg_store e) did"

definition Engine_DiscardDeadLetter :: "'s store_ops \<Rightarrow> 's Engine \<Rightarrow> string \<Rightarrow> error option \<times> 's Engine" where
  "Engine_DiscardDeadLetter ops e did =
    (let (err, s) = so_DeleteDeadLetter ops (eg_store e) did in (err, with_store e s))"

definition Engine_CountDeadLetters :: "'s store_ops \<Rightarrow> 's Engine \<Rightarrow> string \<Rightarrow> error + int" where
  "Engine_CountDeadLetters ops e queue = so_CountDeadLetters ops (eg_store e) queue"

definition Engine_ReplayDeadLetter ::
  "'s store_ops \<Rightarrow> 's Engine \<Rightarrow> string \<Rightarrow> time \<Rightarrow> byte list \<Rightarrow> (error + ReplayResult) \<times> 's Engine" where
  "Engine_ReplayDeadLetter ops e did now entropy =
    (case so_DeadLetter ops (eg_store e) did of
       Inl err \<Rightarrow> (Inl err, e)
     | Inr record \<Rightarrow> (case Registry_Queue (eg_registry e) (dl_Queue record) of
         Inl err \<Rightarrow> (Inl err, e)
       | Inr queue \<Rightarrow>
           let replay = message_New
                 \<lparr> pub_Exchange = dl_Exchange record, pub_RoutingKey = dl_RoutingKey record,
                   pub_Payload = dl_Payload record, pub_Headers = dl_Headers record,
                   pub_Schema = dl_Schema record \<rparr> (qs_Name (q_Spec queue)) now entropy;
               replay = replay\<lparr>msg_MaxAttempts := qs_MaxAttempts (q_Spec queue)\<rparr>;
               replay = SetHeader replay headerReplayOf (dl_MessageID record);
               replay = SetHeader replay headerDeadLetterID (dl_ID record)
           in case Transition replay StateQueued now of
                Inl err \<Rightarrow> (Inl err, e)
              | Inr replay \<Rightarrow> (case so_Append ops (eg_store e) [replay] of
                  (Some err, s) \<Rightarrow> (Inl err, with_store e s)
                | (None, s) \<Rightarrow>
                    let e = recordHistory ops (with_store e s)
                              (queued_event replay now (''replayed from dead letter '' @ dl_ID record));
                        e = with_store e (snd (so_MarkDeadLetterReplayed ops (eg_store e)
                              (dl_ID record) (msg_ID replay) now));
                        e = notify [qs_Name (q_Spec queue)] e
                    in (Inr \<lparr> rp_DeadLetterID = dl_ID record, rp_OriginalMessageID = dl_MessageID record,
                              rp_MessageID = msg_ID replay, rp_Queue = qs_Name (q_Spec queue) \<rparr>, e))))"

section \<open>Outcomes of a delivery: \<open>dispatcher.go\<close>\<close>

definition Engine_acknowledge ::
  "'s store_ops \<Rightarrow> 's Engine \<Rightarrow> string \<Rightarrow> Delivery \<Rightarrow> time \<Rightarrow> time \<Rightarrow> 's Engine" where
  "Engine_acknowledge ops e consumer d started now =
    (case so_Acknowledge ops (eg_store e) (msg_ID (dv_Message d)) now of
       (Some err, s) \<Rightarrow> with_store e s
     | (None, s) \<Rightarrow>
         metric (MessageAcknowledged (dv_Queue d) (now - started))
           (recordHistory ops (with_store e s)
             \<lparr> he_MessageID = msg_ID (dv_Message d), he_Queue = dv_Queue d, he_From = StateProcessing,
               he_To = StateAcknowledged, he_Consumer = consumer, he_Detail = [], he_At = now \<rparr>))"

definition Engine_fail ::
  "'s store_ops \<Rightarrow> 's Engine \<Rightarrow> string \<Rightarrow> Delivery \<Rightarrow> error \<Rightarrow> time \<Rightarrow> (f64 \<Rightarrow> int) \<Rightarrow> f64 \<Rightarrow> string \<Rightarrow> 's Engine" where
  "Engine_fail ops e consumer d cause now oor draw fresh =
    (let retryable = (\<not> isPermanent cause \<and> Policy_ShouldRetry (eg_policy e) (dv_Attempt d)) in
     if \<not> retryable then Engine_deadLetter ops e consumer d cause now fresh
     else let availableAt = Policy_NextAttemptAt oor (eg_policy e) now (dv_Attempt d) draw in
       case so_ScheduleRetry ops (eg_store e)
              \<lparr> rr_ID = msg_ID (dv_Message d), rr_Attempt = dv_Attempt d, rr_Reason = error_text cause,
                rr_AvailableAt = availableAt, rr_Now = now \<rparr> of
         (Some err, s) \<Rightarrow> with_store e s
       | (None, s) \<Rightarrow>
           metric (MessageRetried (dv_Queue d))
             (recordHistory ops (with_store e s)
               \<lparr> he_MessageID = msg_ID (dv_Message d), he_Queue = dv_Queue d, he_From = StateFailed,
                 he_To = StateRetrying, he_Consumer = consumer, he_Detail = error_text cause,
                 he_At = now \<rparr>))"

text \<open>\<open>process\<close>: \<open>result\<close> is what the handler returned, between the readings \<open>started\<close> and \<open>now\<close> of the
  clock.\<close>

definition Engine_process ::
  "'s store_ops \<Rightarrow> 's Engine \<Rightarrow> string \<Rightarrow> Delivery \<Rightarrow> error option \<Rightarrow> time \<Rightarrow> time \<Rightarrow>
    (f64 \<Rightarrow> int) \<Rightarrow> f64 \<Rightarrow> string \<Rightarrow> 's Engine" where
  "Engine_process ops e consumer d result started now oor draw fresh =
    (case result of
       None \<Rightarrow> Engine_acknowledge ops e consumer d started now
     | Some err \<Rightarrow> Engine_fail ops e consumer d err now oor draw fresh)"

section \<open>The dispatcher: \<open>dispatcher.go\<close>\<close>

definition idlePollInterval :: duration where "idlePollInterval = 250 * millisecond"

definition object :: "'s Engine \<Rightarrow> nat \<Rightarrow> Consumer" where
  "object e p = eg_objects e ! p"

definition set_object :: "'s Engine \<Rightarrow> nat \<Rightarrow> Consumer \<Rightarrow> 's Engine" where
  "set_object e p c = e\<lparr>eg_objects := (eg_objects e)[p := c]\<rparr>"

definition Engine_Subscribe :: "'s Engine \<Rightarrow> ConsumerSpec \<Rightarrow> (error + nat) \<times> 's Engine" where
  "Engine_Subscribe e spec =
    (if \<not> cs_Handler spec then (Inl ErrHandlerRequired, e)
     else case Registry_Queue (eg_registry e) (cs_Queue spec) of
       Inl err \<Rightarrow> (Inl err, e)
     | Inr queue \<Rightarrow>
         let spec = ConsumerSpec_withDefaults spec (qs_VisibilityTimeout (q_Spec queue)) in
         if \<not> eg_rootCtx e then (Inl ErrNotRunning, e)
         else if mget (eg_consumers e) (cs_Name spec) \<noteq> None then (Inl ErrConsumerExists, e)
         else let pool = (NewPool \<lparr>pc_Size = cs_Concurrency spec, pc_QueueSize = cs_Prefetch spec\<rparr>)\<lparr>po_started := True\<rparr>;
                  p = length (eg_objects e)
              in (Inr p,
                  queueSignal
                    (e\<lparr> eg_objects := eg_objects e @
                          [\<lparr>co_spec = spec, co_pool = pool, co_cancelled = False, co_stopped = False\<rparr>],
                        eg_consumers := mput (eg_consumers e) (cs_Name spec) p \<rparr>) (cs_Queue spec)))"

definition Engine_Unsubscribe :: "'s Engine \<Rightarrow> string \<Rightarrow> error option \<times> 's Engine" where
  "Engine_Unsubscribe e name =
    (case mget (eg_consumers e) name of
       None \<Rightarrow> (Some ErrConsumerNotFound, e)
     | Some p \<Rightarrow>
         let e = e\<lparr>eg_consumers := mdel (eg_consumers e) name\<rparr>
         in (None, set_object e p (Consumer_Stop (object e p))))"

definition Engine_Consumers :: "'s Engine \<Rightarrow> ConsumerStatus list" where
  "Engine_Consumers e = map (\<lambda>p. Consumer_Status (object e p)) (mvals (eg_consumers e))"

definition releaseUndispatched :: "'s store_ops \<Rightarrow> 's Engine \<Rightarrow> string \<Rightarrow> time \<Rightarrow> 's Engine" where
  "releaseUndispatched ops e mid now = with_store e (snd (so_Release ops (eg_store e) mid now))"

text \<open>One call of \<open>Submit\<close>, as its caller sees it: \<open>choice\<close> is what the \<open>select\<close> picks, the send (possible
  once a worker has made room in the channel) or the error of the context that is done.\<close>

definition Pool_Submit :: "'t Pool \<Rightarrow> 't \<Rightarrow> error option \<Rightarrow> error option \<times> 't Pool" where
  "Pool_Submit p task choice =
    (if po_stopped p then (Some ErrPoolStopped, p)
     else case choice of
       None \<Rightarrow> (None, p\<lparr>po_tasks := po_tasks p @ [task], po_queued := po_queued p + 1\<rparr>)
     | Some err \<Rightarrow> (Some err, p))"

text \<open>What one hand-off reads from outside: the clock for the history, the choice of the \<open>select\<close>, the
  clock for the release, and whether the context is done after that.\<close>

record handoff =
  ho_at :: time
  ho_choice :: "error option"
  ho_release_at :: time
  ho_done :: bool

definition Engine_handOff ::
  "'s store_ops \<Rightarrow> 's Engine \<Rightarrow> nat \<Rightarrow> Message \<Rightarrow> handoff \<Rightarrow> error option \<times> 's Engine" where
  "Engine_handOff ops e p msg h =
    (let delivery = \<lparr>dv_Message = msg, dv_Attempt = msg_Attempts msg, dv_Queue = msg_Queue msg\<rparr>;
         e = recordHistory ops e
               \<lparr> he_MessageID = msg_ID msg, he_Queue = msg_Queue msg, he_From = StateQueued,
                 he_To = StateProcessing, he_Consumer = cs_Name (co_spec (object e p)), he_Detail = [],
                 he_At = ho_at h \<rparr>;
         e = metric (MessageDelivered (msg_Queue msg)) e;
         (res, pool) = Pool_Submit (co_pool (object e p)) delivery (ho_choice h);
         e = set_object e p ((object e p)\<lparr>co_pool := pool\<rparr>)
     in case res of
          None \<Rightarrow> (None, e)
        | Some err \<Rightarrow>
            let e = releaseUndispatched ops e (msg_ID msg) (ho_release_at h)
            in (if errors_Is err ErrPoolStopped \<or> ho_done h then None else Some err, e))"

fun handoff_loop ::
  "'s store_ops \<Rightarrow> 's Engine \<Rightarrow> nat \<Rightarrow> Message list \<Rightarrow> (nat \<Rightarrow> handoff) \<Rightarrow> error option \<times> 's Engine" where
  "handoff_loop ops e p [] hs = (None, e)"
| "handoff_loop ops e p (msg # msgs) hs =
    (case Engine_handOff ops e p msg (hs 0) of
       (Some err, e) \<Rightarrow> (Some err, e)
     | (None, e) \<Rightarrow> handoff_loop ops e p msgs (\<lambda>i. hs (Suc i)))"

definition claimBatch ::
  "'s store_ops \<Rightarrow> 's Engine \<Rightarrow> nat \<Rightarrow> time \<Rightarrow> (nat \<Rightarrow> handoff) \<Rightarrow> (int \<times> error option) \<times> 's Engine" where
  "claimBatch ops e p now hs =
    (let spec = co_spec (object e p) in
     case Registry_Queue (eg_registry e) (cs_Queue spec) of
       Inl err \<Rightarrow> ((0, Some err), e)
     | Inr queue \<Rightarrow>
         (case so_Claim ops (eg_store e)
                 \<lparr> cr_Queue = cs_Queue spec, cr_Consumer = cs_Name spec, cr_Limit = cs_Prefetch spec,
                   cr_Lease = qs_VisibilityTimeout (q_Spec queue), cr_Now = now \<rparr> of
            (Inl err, s) \<Rightarrow> ((0, Some err), with_store e s)
          | (Inr messages, s) \<Rightarrow>
              let (err, e) = handoff_loop ops (with_store e s) p messages hs
              in ((int (length messages), err), e)))"

text \<open>\<open>waitForWork\<close> ends by the context, by the signal, whose token it takes, or by the timer.\<close>

datatype wake = ByContext | BySignal | ByTimer

definition waitForWork :: "'s Engine \<Rightarrow> string \<Rightarrow> wake \<Rightarrow> 's Engine" where
  "waitForWork e queue w =
    (if w = BySignal \<and> mget (eg_signals e) queue = Some True
     then e\<lparr>eg_signals := mput (eg_signals e) queue False\<rparr> else e)"

text \<open>One turn of the loop of \<open>dispatch\<close>; the loop ends when the context is done, which \<open>ctx_done\<close>
  says after a failed claim. The result says whether it goes on.\<close>

definition dispatch_turn ::
  "'s store_ops \<Rightarrow> 's Engine \<Rightarrow> nat \<Rightarrow> time \<Rightarrow> (nat \<Rightarrow> handoff) \<Rightarrow> bool \<Rightarrow> wake \<Rightarrow> bool \<times> 's Engine" where
  "dispatch_turn ops e p now hs ctx_done w =
    (if co_cancelled (object e p) then (False, e)
     else let ((claimed, err), e) = claimBatch ops e p now hs in
       if err \<noteq> None \<and> ctx_done then (False, e)
       else if claimed > 0 then (True, e)
       else (True, waitForWork e (cs_Queue (co_spec (object e p))) w))"

text \<open>One turn of a worker of the consumer's pool (\<open>run\<close> of \<open>worker/pool.go\<close>) with the task that
  \<open>handOff\<close> submitted.\<close>

definition worker_turn ::
  "'s store_ops \<Rightarrow> 's Engine \<Rightarrow> nat \<Rightarrow> error option \<Rightarrow> time \<Rightarrow> time \<Rightarrow> (f64 \<Rightarrow> int) \<Rightarrow> f64 \<Rightarrow> string \<Rightarrow> 's Engine" where
  "worker_turn ops e p result started now oor draw fresh =
    (let c = object e p; pool = co_pool c in
     case po_tasks pool of
       [] \<Rightarrow> e
     | d # ds \<Rightarrow>
         let e = set_object e p (c\<lparr>co_pool := pool\<lparr>po_tasks := ds, po_queued := po_queued pool - 1,
                   po_inFlight := po_inFlight pool + 1\<rparr>\<rparr>);
             e = Engine_process ops e (cs_Name (co_spec c)) d result started now oor draw fresh;
             c = object e p; pool = co_pool c
         in set_object e p (c\<lparr>co_pool := pool\<lparr>po_inFlight := po_inFlight pool - 1\<rparr>\<rparr>))"

section \<open>Pull delivery: \<open>pull.go\<close>\<close>

definition defaultPullLimit :: int where "defaultPullLimit = 10"
definition maxPullLimit :: int where "maxPullLimit = 200"

record PullRequest =
  pq_Queue :: string
  pq_Consumer :: string
  pq_Limit :: int
  pq_Lease :: duration

definition PullRequest_withDefaults :: "PullRequest \<Rightarrow> duration \<Rightarrow> PullRequest" where
  "PullRequest_withDefaults r visibilityTimeout =
    (let r = (if pq_Limit r \<le> 0 then r\<lparr>pq_Limit := defaultPullLimit\<rparr> else r);
         r = (if pq_Limit r > maxPullLimit then r\<lparr>pq_Limit := maxPullLimit\<rparr> else r);
         r = (if pq_Lease r \<le> 0 then r\<lparr>pq_Lease := visibilityTimeout\<rparr> else r)
     in if pq_Consumer r = [] then r\<lparr>pq_Consumer := ''anonymous''\<rparr> else r)"

definition Engine_Pull ::
  "'s store_ops \<Rightarrow> 's Engine \<Rightarrow> PullRequest \<Rightarrow> time \<Rightarrow> (error + Message list) \<times> 's Engine" where
  "Engine_Pull ops e req now =
    (case Registry_Queue (eg_registry e) (pq_Queue req) of
       Inl err \<Rightarrow> (Inl err, e)
     | Inr queue \<Rightarrow>
         let req = PullRequest_withDefaults req (qs_VisibilityTimeout (q_Spec queue)) in
         case so_Claim ops (eg_store e)
                \<lparr> cr_Queue = pq_Queue req, cr_Consumer = pq_Consumer req, cr_Limit = pq_Limit req,
                  cr_Lease = pq_Lease req, cr_Now = now \<rparr> of
           (Inl err, s) \<Rightarrow> (Inl err, with_store e s)
         | (Inr claimed, s) \<Rightarrow>
             (Inr claimed,
              fold (\<lambda>msg e. recordHistory ops e
                  \<lparr> he_MessageID = msg_ID msg, he_Queue = msg_Queue msg, he_From = StateQueued,
                    he_To = StateProcessing, he_Consumer = pq_Consumer req, he_Detail = [], he_At = now \<rparr>)
                claimed (with_store e s)))"

definition Engine_Ack :: "'s store_ops \<Rightarrow> 's Engine \<Rightarrow> string \<Rightarrow> time \<Rightarrow> error option \<times> 's Engine" where
  "Engine_Ack ops e mid now =
    (case so_Message ops (eg_store e) mid of
       Inl err \<Rightarrow> (Some err, e)
     | Inr msg \<Rightarrow> (case so_Acknowledge ops (eg_store e) mid now of
         (Some err, s) \<Rightarrow> (Some err, with_store e s)
       | (None, s) \<Rightarrow>
           (None, recordHistory ops (with_store e s)
              \<lparr> he_MessageID = mid, he_Queue = msg_Queue msg, he_From = StateProcessing,
                he_To = StateAcknowledged, he_Consumer = [], he_Detail = [], he_At = now \<rparr>)))"

definition Engine_Nack ::
  "'s store_ops \<Rightarrow> 's Engine \<Rightarrow> string \<Rightarrow> string \<Rightarrow> bool \<Rightarrow> time \<Rightarrow> (f64 \<Rightarrow> int) \<Rightarrow> f64 \<Rightarrow> string \<Rightarrow>
    error option \<times> 's Engine" where
  "Engine_Nack ops e mid reason requeue now oor draw fresh =
    (case so_Message ops (eg_store e) mid of
       Inl err \<Rightarrow> (Some err, e)
     | Inr msg \<Rightarrow>
         let reason = (if reason = [] then ''negatively acknowledged by consumer'' else reason) in
         if requeue
         then (case so_Release ops (eg_store e) mid now of
             (Some err, s) \<Rightarrow> (Some err, with_store e s)
           | (None, s) \<Rightarrow>
               (None, notify [msg_Queue msg] (recordHistory ops (with_store e s)
                  \<lparr> he_MessageID = mid, he_Queue = msg_Queue msg, he_From = StateProcessing,
                    he_To = StateQueued, he_Consumer = [], he_Detail = reason, he_At = now \<rparr>)))
         else (None, notify [msg_Queue msg]
           (Engine_fail ops e [] \<lparr>dv_Message = msg, dv_Attempt = msg_Attempts msg, dv_Queue = msg_Queue msg\<rparr>
              (ErrNew reason) now oor draw fresh)))"

section \<open>Lease reclaim: \<open>maintenance.go\<close>\<close>

definition reclaimBatchSize :: int where "reclaimBatchSize = 256"

definition requeueExpired :: "'s store_ops \<Rightarrow> 's Engine \<Rightarrow> Message \<Rightarrow> time \<Rightarrow> bool \<times> 's Engine" where
  "requeueExpired ops e msg now =
    (case so_Release ops (eg_store e) (msg_ID msg) now of
       (Some err, s) \<Rightarrow> (False, with_store e s)
     | (None, s) \<Rightarrow>
         (True, recordHistory ops (with_store e s)
            \<lparr> he_MessageID = msg_ID msg, he_Queue = msg_Queue msg, he_From = StateProcessing,
              he_To = StateQueued, he_Consumer = [], he_Detail = error_text ErrLeaseExpired, he_At = now \<rparr>))"

text \<open>The loop of \<open>reclaim\<close>: the queues to notify and the engine. \<open>fresh\<close> gives the identifiers of the
  dead letters, by turn.\<close>

fun reclaim_loop ::
  "'s store_ops \<Rightarrow> 's Engine \<Rightarrow> time \<Rightarrow> Message list \<Rightarrow> (nat \<Rightarrow> string) \<Rightarrow> string list \<Rightarrow> string list \<times> 's Engine" where
  "reclaim_loop ops e now [] fresh requeued = (requeued, e)"
| "reclaim_loop ops e now (msg # msgs) fresh requeued =
    (if Policy_ShouldRetry (eg_policy e) (msg_Attempts msg)
     then let (ok, e) = requeueExpired ops e msg now
          in reclaim_loop ops e now msgs (\<lambda>i. fresh (Suc i)) (if ok then requeued @ [msg_Queue msg] else requeued)
     else reclaim_loop ops
            (Engine_deadLetter ops e (mget_or [] (msg_Headers msg) headerConsumer)
               \<lparr>dv_Message = msg, dv_Attempt = msg_Attempts msg, dv_Queue = msg_Queue msg\<rparr> ErrLeaseExpired now (fresh 0))
            now msgs (\<lambda>i. fresh (Suc i)) requeued)"

definition Engine_reclaim :: "'s store_ops \<Rightarrow> 's Engine \<Rightarrow> time \<Rightarrow> (nat \<Rightarrow> string) \<Rightarrow> 's Engine" where
  "Engine_reclaim ops e now fresh =
    (case so_ExpiredLeases ops (eg_store e) now reclaimBatchSize of
       Inl err \<Rightarrow> e
     | Inr expired \<Rightarrow>
         let (requeued, e) = reclaim_loop ops e now expired fresh [] in notify requeued e)"

definition RefreshQueueDepths :: "'s store_ops \<Rightarrow> 's Engine \<Rightarrow> 's Engine" where
  "RefreshQueueDepths ops e =
    fold (\<lambda>name e. case so_Depth ops (eg_store e) name of
        Inl _ \<Rightarrow> e
      | Inr depth \<Rightarrow> metric (QueueDepth name (d_Ready depth) (d_InFlight depth) (d_Scheduled depth)) e)
      (Registry_QueueNames (eg_registry e)) e"

text \<open>What the maintenance goroutine does at each tick.\<close>

definition maintenance_tick :: "'s store_ops \<Rightarrow> 's Engine \<Rightarrow> time \<Rightarrow> (nat \<Rightarrow> string) \<Rightarrow> 's Engine" where
  "maintenance_tick ops e now fresh = RefreshQueueDepths ops (Engine_reclaim ops e now fresh)"

end
