(* ===== verification/EngineLaws.thy ===== *)
theory EngineLaws
  imports Dispatch StoreContract
begin

text \<open>
  The engine over any store that keeps the contract: how each operation of \<open>internal/engine\<close> changes
  the view of the store. \<open>strip\<close> forgets the history, which only \<open>firstFailureAt\<close> reads.
\<close>

lemma engine_frames [simp, engine_simps]:
  "eg_store (with_store e s) = s" "eg_registry (with_store e s) = eg_registry e"
  "eg_policy (with_store e s) = eg_policy e" "eg_schemas (with_store e s) = eg_schemas e"
  "eg_signals (with_store e s) = eg_signals e" "eg_metrics (with_store e s) = eg_metrics e"
  "eg_store (metric m e) = eg_store e" "eg_registry (metric m e) = eg_registry e"
  "eg_policy (metric m e) = eg_policy e" "eg_schemas (metric m e) = eg_schemas e"
  "eg_store (notify qs e) = eg_store e" "eg_registry (notify qs e) = eg_registry e"
  "eg_policy (notify qs e) = eg_policy e" "eg_schemas (notify qs e) = eg_schemas e"
  "eg_store (set_object e p c) = eg_store e" "eg_registry (set_object e p c) = eg_registry e"
  "eg_policy (set_object e p c) = eg_policy e" "eg_schemas (set_object e p c) = eg_schemas e"
  "eg_registry (recordHistory ops e ev) = eg_registry e"
  "eg_policy (recordHistory ops e ev) = eg_policy e" "eg_schemas (recordHistory ops e ev) = eg_schemas e"
  by (simp_all add: with_store_def metric_def notify_def set_object_def recordHistory_def)

definition strip :: "View \<Rightarrow> View" where
  "strip v = v\<lparr>v_events := (\<lambda>_. [])\<rparr>"

lemma strip_sel [simp]:
  "v_closed (strip v) = v_closed v" "v_msgs (strip v) = v_msgs v" "v_lease (strip v) = v_lease v"
  "v_dead (strip v) = v_dead v"
  by (simp_all add: strip_def)

lemma strip_eqD:
  "strip v = strip w \<Longrightarrow> v_closed v = v_closed w \<and> v_msgs v = v_msgs w \<and> v_lease v = v_lease w \<and> v_dead v = v_dead w"
  by (metis strip_sel)

lemma strip_events [simp]: "strip (v\<lparr>v_events := h\<rparr>) = strip v"
  by (simp add: strip_def)

lemma strip_AppendHistory [simp]: "strip (snd (view_AppendHistory v h)) = strip v"
  by (simp add: view_AppendHistory_def)

lemma strip_update: "strip v = strip w \<Longrightarrow>
    fst (view_update v i f) = fst (view_update w i f) \<and> strip (snd (view_update v i f)) = strip (snd (view_update w i f))"
  using strip_eqD [of v w] by (auto simp: view_update_def strip_def split: option.splits sum.splits)

text \<open>Storing a dead letter and burying its message.\<close>

definition view_bury :: "View \<Rightarrow> string \<Rightarrow> DeadLetter \<Rightarrow> string \<Rightarrow> time \<Rightarrow> string \<Rightarrow> View" where
  "view_bury v mid d reason now fresh =
    (if v_closed v \<or> v_dead v fresh \<noteq> None then v
     else snd (view_update (v\<lparr>v_dead := (v_dead v)(fresh \<mapsto> d\<lparr>dl_ID := fresh\<rparr>)\<rparr>) mid (bury reason now)))"

text \<open>The decision between a retry and a dead letter.\<close>

definition retries :: "'s Engine \<Rightarrow> Delivery \<Rightarrow> error \<Rightarrow> bool" where
  "retries e d cause \<longleftrightarrow> \<not> isPermanent cause \<and> dv_Attempt d < pl_MaxAttempts (eg_policy e)"

definition retry_request :: "'s Engine \<Rightarrow> Delivery \<Rightarrow> error \<Rightarrow> time \<Rightarrow> (f64 \<Rightarrow> int) \<Rightarrow> f64 \<Rightarrow> RetryRequest" where
  "retry_request e d cause now oor draw =
    \<lparr> rr_ID = msg_ID (dv_Message d), rr_Attempt = dv_Attempt d, rr_Reason = error_text cause,
      rr_AvailableAt = Policy_NextAttemptAt oor (eg_policy e) now (dv_Attempt d) draw, rr_Now = now \<rparr>"

text \<open>The message that a publication puts into a queue, and the schema error that keeps it out.\<close>

definition published :: "Publication \<Rightarrow> time \<Rightarrow> Queue \<Rightarrow> byte list \<Rightarrow> Message" where
  "published pub now queue entropy =
    (message_New pub (qs_Name (q_Spec queue)) now entropy)
      \<lparr> msg_MaxAttempts := qs_MaxAttempts (q_Spec queue),
        msg_Schema := if pub_Schema pub = [] then qs_Schema (q_Spec queue) else pub_Schema pub,
        msg_State := StateQueued, msg_UpdatedAt := now \<rparr>"

definition schema_error :: "'s Engine \<Rightarrow> Publication \<Rightarrow> Queue \<Rightarrow> error option" where
  "schema_error e pub queue =
    (let schema = (if pub_Schema pub = [] then qs_Schema (q_Spec queue) else pub_Schema pub) in
     case eg_schemas e of
       None \<Rightarrow> None | Some Validate \<Rightarrow> if schema = [] then None else Validate schema (pub_Payload pub))"

primrec published_all :: "Publication \<Rightarrow> time \<Rightarrow> Queue list \<Rightarrow> (nat \<Rightarrow> byte list) \<Rightarrow> Message list" where
  "published_all pub now [] entropy = []"
| "published_all pub now (q # qs) entropy =
    published pub now q (entropy 0) # published_all pub now qs (\<lambda>i. entropy (Suc i))"

lemma published_sel [simp]:
  "msg_ID (published pub now q en) = newIDAt now en" "msg_Queue (published pub now q en) = qs_Name (q_Spec q)"
  "msg_State (published pub now q en) = StateQueued" "msg_Attempts (published pub now q en) = 0"
  "msg_Payload (published pub now q en) = pub_Payload pub"
  by (simp_all add: published_def message_New_def)

lemma published_all_nth:
  "length (published_all pub now qs en) = length qs"
  "i < length qs \<Longrightarrow> published_all pub now qs en ! i = published pub now (qs ! i) (en i)"
proof -
  show "length (published_all pub now qs en) = length qs" by (induction qs arbitrary: en) simp_all
  show "i < length qs \<Longrightarrow> published_all pub now qs en ! i = published pub now (qs ! i) (en i)"
    by (induction qs arbitrary: en i) (auto simp: nth_Cons split: nat.split)
qed

lemma published_all_queued: "m \<in> set (published_all pub now qs en) \<Longrightarrow> msg_State m = StateQueued \<and> msg_Attempts m = 0"
  by (induction qs arbitrary: en) auto

lemma published_all_IDs: "map msg_ID (published_all pub now qs en) = map (\<lambda>i. newIDAt now (en i)) [0..<length qs]"
  by (rule nth_equalityI) (simp_all add: published_all_nth)

lemma published_all_appendable:
  assumes "distinct (map (\<lambda>i. newIDAt now (en i)) [0..<length qs])"
  shows "appendable (published_all pub now qs en)"
  using assms
  by (auto simp: appendable_def published_all_IDs list_all_iff simp del: map_map dest: published_all_queued)

text \<open>The identifiers of one publication differ: the random parts that the entropy source delivers for
  its messages are not the same.\<close>

definition fresh_ids :: "'s Engine \<Rightarrow> Publication \<Rightarrow> time \<Rightarrow> (nat \<Rightarrow> byte list) \<Rightarrow> bool" where
  "fresh_ids e pub now entropy =
    (case Registry_Route (eg_registry e) (pub_Exchange pub) (pub_RoutingKey pub) of
       Inl _ \<Rightarrow> True
     | Inr qs \<Rightarrow> distinct (map (\<lambda>i. newIDAt now (entropy i)) [0..<length qs]))"

context message_store
begin

abbreviation (input) einv :: "'s Engine \<Rightarrow> bool" where "einv e \<equiv> inv (eg_store e)"
abbreviation (input) eview :: "'s Engine \<Rightarrow> View" where "eview e \<equiv> view (eg_store e)"

lemma apsnd_D: "apsnd view (f :: 'x \<times> 's) = p \<Longrightarrow> fst f = fst p \<and> view (snd f) = snd p"
  by (cases f) auto

lemmas Append_view = Append_law [THEN conjunct2, THEN apsnd_D]
lemmas Acknowledge_view = Acknowledge_law [THEN conjunct2, THEN apsnd_D]
lemmas ScheduleRetry_view = ScheduleRetry_law [THEN conjunct2, THEN apsnd_D]
lemmas Release_view = Release_law [THEN conjunct2, THEN apsnd_D]
lemmas MarkDeadLettered_view = MarkDeadLettered_law [THEN conjunct2, THEN apsnd_D]
lemmas SaveDeadLetter_view = SaveDeadLetter_law [THEN conjunct2, THEN apsnd_D]
lemmas MarkReplayed_view = MarkReplayed_law [THEN conjunct2, THEN apsnd_D]

lemma recordHistory_laws:
  "einv e \<Longrightarrow> einv (recordHistory ops e ev)"
  "einv e \<Longrightarrow> strip (eview (recordHistory ops e ev)) = strip (eview e)"
  using AppendHistory_law [of "eg_store e" ev] apsnd_D [of "so_AppendHistory ops (eg_store e) ev"]
  by (simp_all add: recordHistory_def)

lemma recordHistory_fold:
  "einv e \<Longrightarrow> einv (fold (\<lambda>x e. recordHistory ops e (f x)) xs e) \<and>
    strip (eview (fold (\<lambda>x e. recordHistory ops e (f x)) xs e)) = strip (eview e)"
  by (induction xs arbitrary: e) (simp_all add: recordHistory_laws)

lemma deadLetter_laws:
  assumes "einv e"
  shows "einv (Engine_deadLetter ops e consumer d cause now fresh)"
    and "strip (eview (Engine_deadLetter ops e consumer d cause now fresh)) =
      strip (view_bury (eview e) (msg_ID (dv_Message d)) (dead_record ops e d cause now) (error_text cause) now fresh)"
proof -
  let ?r = "dead_record ops e d cause now" and ?i = "msg_ID (dv_Message d)"
  have id: "dl_ID ?r = []" by (simp add: dead_record_def Let_def)
  obtain res s where sv: "so_SaveDeadLetter ops (eg_store e) ?r fresh = (res, s)" by fastforce
  have s: "inv s" "res = fst (view_SaveDeadLetter (eview e) ?r fresh)" "view s = snd (view_SaveDeadLetter (eview e) ?r fresh)"
    using SaveDeadLetter_law [OF assms, of ?r fresh] SaveDeadLetter_view [OF assms, of ?r fresh] by (simp_all add: sv)
  obtain err t where mk: "so_MarkDeadLettered ops s ?i (error_text cause) now = (err, t)" by fastforce
  have t: "inv t" "view t = snd (view_update (view s) ?i (bury (error_text cause) now))"
    using MarkDeadLettered_law [OF s(1), of ?i "error_text cause" now]
      MarkDeadLettered_view [OF s(1), of ?i "error_text cause" now] by (simp_all add: mk)
  show "einv (Engine_deadLetter ops e consumer d cause now fresh)"
    using s(1) t(1) recordHistory_laws(1) [of "with_store e t"]
    by (simp add: Engine_deadLetter_def sv mk split: sum.split option.split)
  show "strip (eview (Engine_deadLetter ops e consumer d cause now fresh)) =
      strip (view_bury (eview e) ?i ?r (error_text cause) now fresh)"
    using s t recordHistory_laws(2) [of "with_store e t"] id
    by (auto simp: Engine_deadLetter_def sv mk view_bury_def view_SaveDeadLetter_def Let_def
        split: sum.split option.split if_splits)
qed

lemma acknowledge_laws:
  assumes "einv e"
  shows "einv (Engine_acknowledge ops e consumer d started now)"
    and "strip (eview (Engine_acknowledge ops e consumer d started now)) =
      strip (snd (view_update (eview e) (msg_ID (dv_Message d)) (\<lambda>m. if_leased m (acked_msg now m))))"
proof -
  let ?i = "msg_ID (dv_Message d)"
  obtain err t where ak: "so_Acknowledge ops (eg_store e) ?i now = (err, t)" by fastforce
  have t: "inv t" "view t = snd (view_update (eview e) ?i (\<lambda>m. if_leased m (acked_msg now m)))"
    using Acknowledge_law [OF assms, of ?i now] Acknowledge_view [OF assms, of ?i now] by (simp_all add: ak)
  show "einv (Engine_acknowledge ops e consumer d started now)"
    using t(1) recordHistory_laws(1) [of "with_store e t"] by (simp add: Engine_acknowledge_def ak split: option.split)
  show "strip (eview (Engine_acknowledge ops e consumer d started now)) =
      strip (snd (view_update (eview e) ?i (\<lambda>m. if_leased m (acked_msg now m))))"
    using t recordHistory_laws(2) [of "with_store e t"] by (simp add: Engine_acknowledge_def ak split: option.split)
qed

lemma fail_laws:
  assumes "einv e"
  shows "einv (Engine_fail ops e consumer d cause now oor draw fresh)"
    and "retries e d cause \<Longrightarrow> strip (eview (Engine_fail ops e consumer d cause now oor draw fresh)) =
      strip (snd (view_update (eview e) (msg_ID (dv_Message d))
        (\<lambda>m. if_leased m (retry_msg (retry_request e d cause now oor draw) m))))"
    and "\<not> retries e d cause \<Longrightarrow> strip (eview (Engine_fail ops e consumer d cause now oor draw fresh)) =
      strip (view_bury (eview e) (msg_ID (dv_Message d)) (dead_record ops e d cause now) (error_text cause) now fresh)"
proof -
  let ?q = "retry_request e d cause now oor draw"
  obtain err t where rt: "so_ScheduleRetry ops (eg_store e) ?q = (err, t)" by fastforce
  have q: "rr_ID ?q = msg_ID (dv_Message d)" by (simp add: retry_request_def)
  have t: "inv t" "view t = snd (view_update (eview e) (msg_ID (dv_Message d)) (\<lambda>m. if_leased m (retry_msg ?q m)))"
    using ScheduleRetry_law [OF assms, of ?q] ScheduleRetry_view [OF assms, of ?q] by (simp_all add: rt q)
  have no: "\<not> retries e d cause \<Longrightarrow> Engine_fail ops e consumer d cause now oor draw fresh =
      Engine_deadLetter ops e consumer d cause now fresh"
    by (auto simp: Engine_fail_def retries_def Policy_ShouldRetry_def Let_def)
  have yes: "retries e d cause \<Longrightarrow> Engine_fail ops e consumer d cause now oor draw fresh =
      (case err of Some err \<Rightarrow> with_store e t | None \<Rightarrow> metric (MessageRetried (dv_Queue d))
         (recordHistory ops (with_store e t)
           \<lparr> he_MessageID = msg_ID (dv_Message d), he_Queue = dv_Queue d, he_From = StateFailed,
             he_To = StateRetrying, he_Consumer = consumer, he_Detail = error_text cause, he_At = now \<rparr>))"
    using rt by (simp add: Engine_fail_def retries_def Policy_ShouldRetry_def Let_def retry_request_def split: option.split)
  show "einv (Engine_fail ops e consumer d cause now oor draw fresh)"
    using no yes deadLetter_laws(1) [OF assms] t(1) recordHistory_laws(1) [of "with_store e t"]
    by (cases "retries e d cause") (auto split: option.split)
  show "retries e d cause \<Longrightarrow> strip (eview (Engine_fail ops e consumer d cause now oor draw fresh)) =
      strip (snd (view_update (eview e) (msg_ID (dv_Message d)) (\<lambda>m. if_leased m (retry_msg ?q m))))"
    using yes t recordHistory_laws(2) [of "with_store e t"] by (simp split: option.split)
  show "\<not> retries e d cause \<Longrightarrow> strip (eview (Engine_fail ops e consumer d cause now oor draw fresh)) =
      strip (view_bury (eview e) (msg_ID (dv_Message d)) (dead_record ops e d cause now) (error_text cause) now fresh)"
    using no deadLetter_laws(2) [OF assms] by simp
qed

lemma requeueExpired_laws:
  assumes "einv e"
  shows "einv (snd (requeueExpired ops e m now))"
    and "strip (eview (snd (requeueExpired ops e m now))) =
      strip (snd (view_update (eview e) (msg_ID m) (\<lambda>m. if_leased m (released_msg now m))))"
    and "fst (requeueExpired ops e m now) \<longleftrightarrow>
      fst (view_update (eview e) (msg_ID m) (\<lambda>m. if_leased m (released_msg now m))) = None"
proof -
  obtain err t where rl: "so_Release ops (eg_store e) (msg_ID m) now = (err, t)" by fastforce
  have t: "inv t" "view t = snd (view_update (eview e) (msg_ID m) (\<lambda>m. if_leased m (released_msg now m)))"
    "err = fst (view_update (eview e) (msg_ID m) (\<lambda>m. if_leased m (released_msg now m)))"
    using Release_law [OF assms, of "msg_ID m" now] Release_view [OF assms, of "msg_ID m" now] by (simp_all add: rl)
  show "einv (snd (requeueExpired ops e m now))"
    using t(1) recordHistory_laws(1) [of "with_store e t"] by (simp add: requeueExpired_def rl split: option.split)
  show "strip (eview (snd (requeueExpired ops e m now))) =
      strip (snd (view_update (eview e) (msg_ID m) (\<lambda>m. if_leased m (released_msg now m))))"
    using t recordHistory_laws(2) [of "with_store e t"] by (simp add: requeueExpired_def rl split: option.split)
  show "fst (requeueExpired ops e m now) \<longleftrightarrow>
      fst (view_update (eview e) (msg_ID m) (\<lambda>m. if_leased m (released_msg now m))) = None"
    using t(3) by (simp add: requeueExpired_def rl split: option.split)
qed

lemma publish_loop_ok:
  "\<forall>q\<in>set qs. schema_error e pub q = None \<Longrightarrow>
    publish_loop ops e pub now fresh qs en acc = (Inr (acc @ published_all pub now qs en), e)"
proof (induction qs arbitrary: en acc)
  case (Cons q qs)
  then have "schema_error e pub q = None" by simp
  then have "publish_loop ops e pub now fresh (q # qs) en acc =
      publish_loop ops e pub now fresh qs (\<lambda>i. en (Suc i)) (acc @ [published pub now q (en 0)])"
    by (auto simp: schema_error_def Engine_validate_def published_def message_New_def Let_def split: option.splits)
  with Cons show ?case by simp
qed simp

lemma publish_loop_reject:
  "find (\<lambda>q. schema_error e pub q \<noteq> None) qs = Some q \<Longrightarrow>
    \<exists>err en0. schema_error e pub q = Some err \<and>
      publish_loop ops e pub now fresh qs en acc =
        (Inl err, metric (MessageRejected (qs_Name (q_Spec q)))
           (with_store e (snd (so_SaveDeadLetter ops (eg_store e)
             (rejected_record (published pub now q en0) err now) fresh))))"
proof (induction qs arbitrary: en acc)
  case (Cons q' qs)
  show ?case
  proof (cases "schema_error e pub q'")
    case None
    then have "publish_loop ops e pub now fresh (q' # qs) en acc =
        publish_loop ops e pub now fresh qs (\<lambda>i. en (Suc i)) (acc @ [published pub now q' (en 0)])"
      by (auto simp: schema_error_def Engine_validate_def published_def message_New_def Let_def split: option.splits)
    with Cons None show ?thesis by simp
  next
    case (Some err)
    then have q: "q' = q" using Cons.prems by simp
    from Some have "publish_loop ops e pub now fresh (q' # qs) en acc =
        (Inl err, metric (MessageRejected (qs_Name (q_Spec q')))
           (with_store e (snd (so_SaveDeadLetter ops (eg_store e)
             (rejected_record (published pub now q' (en 0)) err now) fresh))))"
      by (auto simp: schema_error_def Engine_validate_def parkRejected_def published_def message_New_def
          rejected_record_def Let_def
          split: option.splits if_splits)
    with Some q show ?thesis by (intro exI [of _ err] exI [of _ "en 0"]) simp
  qed
qed simp

end

end
