(* ===== verification/EngineSteps.thy ===== *)
theory EngineSteps
  imports EngineLaws
begin

text \<open>
  The engine as a state machine. \<open>vstep\<close> is the specification: the changes that a view of the store may
  undergo, each labelled with its kind. \<open>engine_step\<close> has one rule per operation of the engine, with
  arbitrary arguments and readings. The refinement says that every operation is a sequence of
  \<open>vstep\<close>s; what \<open>vstep\<close> keeps, the engine keeps over every store that satisfies the contract.
\<close>

section \<open>The specification\<close>

text \<open>\<open>Deliver\<close> is everything that publishing and delivering does; \<open>Remove\<close> is purging or deleting a
  queue; \<open>Discard\<close> is deleting a dead letter.\<close>

datatype kind = Deliver | Remove | Discard

inductive vstep :: "kind \<Rightarrow> View \<Rightarrow> View \<Rightarrow> bool" where
  v_append: "appendable ms \<Longrightarrow> \<forall>m\<in>set ms. msg_State m = StateQueued \<and> msg_Attempts m = 0 \<Longrightarrow>
    vstep Deliver v (snd (view_Append v ms))"
| v_claim: "\<forall>i\<in>I. claimable_from v req i \<Longrightarrow> vstep Deliver v (view_claimed v req lease I)"
| v_ack: "vstep Deliver v (snd (view_update v i (\<lambda>m. if_leased m (acked_msg t m))))"
| v_retry: "vstep Deliver v (snd (view_update v i (\<lambda>m. if_leased m (retry_msg rreq m))))"
| v_release: "vstep Deliver v (snd (view_update v i (\<lambda>m. if_leased m (released_msg t m))))"
| v_bury: "dl_MessageID d = i \<Longrightarrow> vstep Deliver v (view_bury v i d reason t fresh)"
| v_park: "vstep Deliver v (snd (view_SaveDeadLetter v d fresh))"
| v_replayed: "vstep Deliver v (snd (view_MarkReplayed v did as t))"
| v_shrink: "view_shrinks v v' \<Longrightarrow> vstep Remove v v'"
| v_discard: "vstep Discard v (snd (view_DeleteDead v did))"

definition vsteps :: "kind set \<Rightarrow> View \<Rightarrow> View \<Rightarrow> bool" where
  "vsteps K = (\<lambda>v v'. \<exists>k\<in>K. vstep k v v')\<^sup>*\<^sup>*"

lemma vsteps_refl [simp]: "vsteps K v v"
  by (simp add: vsteps_def)

lemma vsteps_trans: "vsteps K u v \<Longrightarrow> vsteps K v w \<Longrightarrow> vsteps K u w"
  unfolding vsteps_def by (rule rtranclp_trans)

lemma vsteps_one: "k \<in> K \<Longrightarrow> vstep k v v' \<Longrightarrow> vsteps K v v'"
  unfolding vsteps_def by blast

text \<open>Steps do not look at the history.\<close>

lemma strip_idem [simp]: "strip (strip v) = strip v"
  by (simp add: strip_def)

lemma strip_steps:
  "strip (snd (view_Append v ms)) = snd (view_Append (strip v) ms)"
  "strip (view_claimed v req lease I) = view_claimed (strip v) req lease I"
  "strip (snd (view_update v i f)) = snd (view_update (strip v) i f)"
  "strip (view_bury v i d reason t fresh) = view_bury (strip v) i d reason t fresh"
  "strip (snd (view_SaveDeadLetter v d fresh)) = snd (view_SaveDeadLetter (strip v) d fresh)"
  "strip (snd (view_MarkReplayed v did as t)) = snd (view_MarkReplayed (strip v) did as t)"
  "strip (snd (view_DeleteDead v did)) = snd (view_DeleteDead (strip v) did)"
  "claimable_from (strip v) = claimable_from v"
  by (auto simp: strip_def view_Append_def view_claimed_def view_update_def view_bury_def view_SaveDeadLetter_def
      view_MarkReplayed_def view_DeleteDead_def claimable_from_def Let_def fun_eq_iff split: option.splits sum.splits)

lemma strip_shrinks: "view_shrinks v v' \<Longrightarrow> view_shrinks (strip v) (strip v')"
proof -
  assume "view_shrinks v v'"
  then obtain keep where "v' = v\<lparr> v_msgs := (\<lambda>i. if keep i then v_msgs v i else None),
      v_lease := (\<lambda>i. if keep i then v_lease v i else None) \<rparr>" by (auto simp: view_shrinks_def)
  then show ?thesis unfolding view_shrinks_def by (intro exI [of _ keep]) (simp add: strip_def fun_eq_iff)
qed

section \<open>The operations\<close>

inductive engine_step :: "'s store_ops \<Rightarrow> kind \<Rightarrow> 's Engine \<Rightarrow> 's Engine \<Rightarrow> bool" for ops where
  by_Publish: "fresh_ids e pub now entropy \<Longrightarrow>
    engine_step ops Deliver e (snd (Engine_Publish ops e pub now entropy fresh latency))"
| by_Replay: "engine_step ops Deliver e (snd (Engine_ReplayDeadLetter ops e did now ent))"
| by_dispatch: "engine_step ops Deliver e (snd (dispatch_turn ops e p now hs ctx_done w))"
| by_process: "engine_step ops Deliver e (Engine_process ops e consumer d result started now oor draw fresh)"
| by_worker_turn: "engine_step ops Deliver e (worker_turn ops e p result started now oor draw fresh)"
| by_Pull: "engine_step ops Deliver e (snd (Engine_Pull ops e req now))"
| by_Ack: "engine_step ops Deliver e (snd (Engine_Ack ops e mid now))"
| by_Nack: "engine_step ops Deliver e (snd (Engine_Nack ops e mid reason requeue now oor draw fresh))"
| by_maintenance: "engine_step ops Deliver e (maintenance_tick ops e now fresh')"
| by_DeclareExchange: "engine_step ops Deliver e (snd (Engine_DeclareExchange ops e xspec now))"
| by_DeclareQueue: "engine_step ops Deliver e (snd (Engine_DeclareQueue ops e qspec now))"
| by_Bind: "engine_step ops Deliver e (snd (Engine_Bind ops e bspec now))"
| by_Unbind: "engine_step ops Deliver e (snd (Engine_Unbind ops e bspec))"
| by_Restore: "engine_step ops Deliver e (snd (Engine_Restore ops e))"
| by_Start: "engine_step ops Deliver e (Engine_Start e)"
| by_Shutdown: "engine_step ops Deliver e (snd (Engine_Shutdown e timeout))"
| by_Subscribe: "engine_step ops Deliver e (snd (Engine_Subscribe e spec))"
| by_Unsubscribe: "engine_step ops Deliver e (snd (Engine_Unsubscribe e name))"
| by_Purge: "engine_step ops Remove e (snd (Engine_Purge ops e queue))"
| by_DeleteQueue: "engine_step ops Remove e (snd (Engine_DeleteQueue ops e queue))"
| by_Discard: "engine_step ops Discard e (snd (Engine_DiscardDeadLetter ops e did))"

section \<open>The refinement\<close>

context message_store
begin

definition refines :: "kind \<Rightarrow> 's Engine \<Rightarrow> 's Engine \<Rightarrow> bool" where
  "refines k e e' \<longleftrightarrow> (einv e \<longrightarrow> einv e' \<and> vsteps {k} (strip (eview e)) (strip (eview e')))"

lemma refines_same: "eg_store e' = eg_store e \<Longrightarrow> refines k e e'"
  by (simp add: refines_def)

lemma refines_trans: "refines k e f \<Longrightarrow> refines k f g \<Longrightarrow> refines k e g"
  by (auto simp: refines_def intro: vsteps_trans)

lemma refines_fold: "(\<And>x e. refines k e (f x e)) \<Longrightarrow> refines k e (fold f xs e)"
  by (induction xs arbitrary: e) (auto intro: refines_same refines_trans)

lemma refinesI:
  "(einv e \<Longrightarrow> einv e') \<Longrightarrow> (einv e \<Longrightarrow> vstep k (strip (eview e)) (strip (eview e'))) \<Longrightarrow> refines k e e'"
  by (simp add: refines_def vsteps_one)

lemma refines_history: "refines k e (recordHistory ops e ev)"
  by (auto simp: refines_def recordHistory_laws)

lemma refines_refl: "refines k e e"
  by (rule refines_same) simp

lemma refines_chain:
  "refines k e f \<Longrightarrow> refines k e (recordHistory ops f ev)" "refines k e f \<Longrightarrow> refines k e (metric x f)"
  "refines k e f \<Longrightarrow> refines k e (set_object f p c)" "refines k e f \<Longrightarrow> refines k e (notify qs f)"
  by (erule refines_trans, simp add: refines_history refines_same)+

lemma refines_deadLetter: "refines Deliver e (Engine_deadLetter ops e consumer d cause now fresh)"
  by (rule refinesI)
    (auto simp: deadLetter_laws strip_steps dead_record_def Let_def intro!: v_bury)

lemma refines_acknowledge: "refines Deliver e (Engine_acknowledge ops e consumer d started now)"
  by (rule refinesI) (auto simp: acknowledge_laws strip_steps intro: v_ack)

lemma refines_fail: "refines Deliver e (Engine_fail ops e consumer d cause now oor draw fresh)"
proof (cases "retries e d cause")
  case True
  then show ?thesis by (intro refinesI) (auto simp: fail_laws strip_steps intro: v_retry)
next
  case False
  then show ?thesis
    by (intro refinesI) (auto simp: fail_laws strip_steps dead_record_def Let_def intro!: v_bury)
qed

lemma refines_process: "refines Deliver e (Engine_process ops e consumer d result started now oor draw fresh)"
  by (cases result) (simp_all add: Engine_process_def refines_acknowledge refines_fail)

lemma refines_worker: "refines Deliver e (worker_turn ops e p result started now oor draw fresh)"
  unfolding worker_turn_def Let_def
  by (cases "po_tasks (co_pool (object e p))")
    (auto intro!: refines_chain refines_trans [OF _ refines_process] refines_refl)

lemma refines_claim:
  assumes "so_Claim ops (eg_store e) req = (res, s)"
  shows "refines Deliver e (with_store e s)"
proof (cases "einv e")
  case True
  have "inv s" using Claim_inv [OF True, of req] assms by simp
  show ?thesis
  proof (cases res)
    case (Inl err)
    then show ?thesis using Claim_error [OF True] assms \<open>inv s\<close> by (simp add: refines_def)
  next
    case (Inr ms)
    have "vstep Deliver (strip (eview e)) (strip (view s))"
      using Claim_law [OF True assms [unfolded Inr]] by (auto simp: strip_steps intro!: v_claim)
    then show ?thesis using \<open>inv s\<close> by (intro refinesI) simp_all
  qed
qed (simp add: refines_def)

lemma refines_release: "refines Deliver e (releaseUndispatched ops e mid now)"
  by (rule refinesI)
    (auto simp: releaseUndispatched_def Release_law Release_view strip_steps intro: v_release)

lemma refines_handOff: "refines Deliver e (snd (Engine_handOff ops e p m h))"
  unfolding Engine_handOff_def Let_def
  by (auto split: prod.split option.split intro!: refines_chain refines_refl intro: refines_trans [OF _ refines_release])

lemma refines_handoffs: "refines Deliver e (snd (handoff_loop ops e p ms hs))"
proof (induction ms arbitrary: e hs)
  case (Cons m ms)
  obtain r f where h: "Engine_handOff ops e p m (hs 0) = (r, f)" by fastforce
  then have "refines Deliver e f" using refines_handOff [of e p m "hs 0"] by simp
  then show ?case using Cons.IH [of f "\<lambda>i. hs (Suc i)"] by (auto simp: h split: option.split intro: refines_trans)
qed (simp add: refines_same)

lemma refines_claimBatch: "refines Deliver e (snd (claimBatch ops e p now hs))"
proof (cases "Registry_Queue (eg_registry e) (cs_Queue (co_spec (object e p)))")
  case (Inl err)
  then show ?thesis by (simp add: claimBatch_def refines_refl)
next
  case (Inr queue)
  obtain res s where c: "so_Claim ops (eg_store e)
      \<lparr> cr_Queue = cs_Queue (co_spec (object e p)), cr_Consumer = cs_Name (co_spec (object e p)),
        cr_Limit = cs_Prefetch (co_spec (object e p)), cr_Lease = qs_VisibilityTimeout (q_Spec queue),
        cr_Now = now \<rparr> = (res, s)" by fastforce
  note claim = refines_claim [OF c]
  show ?thesis
    using Inr claim refines_trans [OF claim refines_handoffs]
    by (cases res) (simp_all add: claimBatch_def Let_def c split_def)
qed

lemma refines_dispatch: "refines Deliver e (snd (dispatch_turn ops e p now hs ctx_done w))"
proof -
  have "refines Deliver f (waitForWork f q w)" for f q by (simp add: refines_same waitForWork_def)
  then show ?thesis
    using refines_claimBatch [of e p now hs]
    by (auto simp: dispatch_turn_def Let_def split_def intro: refines_same refines_trans)
qed

lemma refines_history_fold: "refines k e (fold (\<lambda>x e. recordHistory ops e (f x)) xs e)"
  by (rule refines_fold) (rule refines_history)

lemma refines_Pull: "refines Deliver e (snd (Engine_Pull ops e req now))"
  unfolding Engine_Pull_def Let_def
  by (auto split: sum.split prod.split intro: refines_refl refines_claim refines_trans [OF refines_claim refines_history_fold])

lemma refines_store:
  assumes "einv e \<Longrightarrow> inv s \<and> vstep k (strip (eview e)) (strip (view s))"
  shows "refines k e (with_store e s)"
  using assms by (intro refinesI) simp_all

lemma refines_Ack: "refines Deliver e (snd (Engine_Ack ops e mid now))"
proof -
  have "refines Deliver e (with_store e (snd (so_Acknowledge ops (eg_store e) mid now)))"
    by (rule refines_store) (auto simp: Acknowledge_law Acknowledge_view strip_steps intro: v_ack)
  then show ?thesis
    unfolding Engine_Ack_def by (auto split: sum.split prod.split option.split intro!: refines_refl refines_chain)
qed

lemma refines_Nack: "refines Deliver e (snd (Engine_Nack ops e mid reason requeue now oor draw fresh))"
proof -
  have "refines Deliver e (with_store e (snd (so_Release ops (eg_store e) mid now)))"
    by (rule refines_store) (auto simp: Release_law Release_view strip_steps intro: v_release)
  then show ?thesis
    unfolding Engine_Nack_def Let_def
    by (auto split: sum.split prod.split option.split intro!: refines_refl refines_chain refines_fail)
qed

lemma refines_requeue: "refines Deliver e (snd (requeueExpired ops e m now))"
  by (rule refinesI) (auto simp: requeueExpired_laws strip_steps intro: v_release)

lemma refines_reclaim_loop: "refines Deliver e (snd (reclaim_loop ops e now ms fresh requeued))"
proof (induction ms arbitrary: e fresh requeued)
  case (Cons m ms)
  show ?case
    using refines_trans [OF refines_requeue [of e m now] Cons.IH] refines_trans [OF refines_deadLetter Cons.IH]
    by (simp add: Let_def split_def)
qed (simp add: refines_refl)

lemma refines_maintenance: "refines Deliver e (maintenance_tick ops e now fresh)"
proof -
  have "refines Deliver e (Engine_reclaim ops e now fresh)"
    unfolding Engine_reclaim_def using refines_reclaim_loop [of e now _ fresh]
    by (auto simp: split_def Let_def split: sum.split intro: refines_refl refines_chain)
  moreover have "refines Deliver f (RefreshQueueDepths ops f)" for f
    unfolding RefreshQueueDepths_def
    by (rule refines_fold) (auto split: sum.split intro: refines_refl refines_chain)
  ultimately show ?thesis unfolding maintenance_tick_def by (rule refines_trans)
qed

lemma refines_append:
  assumes "appendable ms" "\<forall>m\<in>set ms. msg_State m = StateQueued \<and> msg_Attempts m = 0"
  shows "refines Deliver e (with_store e (snd (so_Append ops (eg_store e) ms)))"
  by (rule refines_store) (auto simp: Append_law Append_view assms strip_steps intro: v_append)

lemma refines_Publish:
  assumes ids: "fresh_ids e pub now entropy"
  shows "refines Deliver e (snd (Engine_Publish ops e pub now entropy fresh latency))"
proof (cases "Registry_Route (eg_registry e) (pub_Exchange pub) (pub_RoutingKey pub)")
  case (Inl err)
  then show ?thesis by (simp add: Engine_Publish_def refines_refl)
next
  case (Inr qs)
  show ?thesis
  proof (cases "\<forall>q\<in>set qs. schema_error e pub q = None")
    case True
    let ?ms = "published_all pub now qs entropy"
    obtain r s where ap: "so_Append ops (eg_store e) ?ms = (r, s)" by fastforce
    have "refines Deliver e (with_store e (snd (so_Append ops (eg_store e) ?ms)))"
      using ids Inr by (intro refines_append published_all_appendable) (auto simp: fresh_ids_def dest: published_all_queued)
    then have st: "refines Deliver e (with_store e s)" by (simp add: ap)
    have met: "refines Deliver f (fold (\<lambda>q. metric (MessagePublished q latency)) qs f)" for f and qs :: "string list"
      by (rule refines_fold) (simp add: refines_same)
    show ?thesis
      using Inr publish_loop_ok [OF True, of now fresh entropy "[]"] st
      by (auto simp: Engine_Publish_def Let_def ap split: option.split
          intro!: refines_chain refines_trans [OF _ met] refines_trans [OF st refines_history_fold])
  next
    case False
    then obtain q where "find (\<lambda>q. schema_error e pub q \<noteq> None) qs = Some q"
      by (cases "find (\<lambda>q. schema_error e pub q \<noteq> None) qs") (auto simp: find_None_iff)
    then obtain err en0 where "publish_loop ops e pub now fresh qs entropy [] =
        (Inl err, metric (MessageRejected (qs_Name (q_Spec q)))
           (with_store e (snd (so_SaveDeadLetter ops (eg_store e)
             (rejected_record (published pub now q en0) err now) fresh))))"
      using publish_loop_reject [of e pub qs q now fresh entropy "[]"] by blast
    moreover have "refines Deliver e (with_store e (snd (so_SaveDeadLetter ops (eg_store e) d fresh)))" for d
      by (rule refines_store) (auto simp: SaveDeadLetter_law SaveDeadLetter_view strip_steps intro: v_park)
    ultimately show ?thesis using Inr by (auto simp: Engine_Publish_def intro: refines_chain)
  qed
qed

lemma refines_Replay: "refines Deliver e (snd (Engine_ReplayDeadLetter ops e did now ent))"
proof -
  have app: "refines Deliver e (with_store e s)"
    if "so_Append ops (eg_store e) [m] = (r, s)" "msg_State m = StateQueued" "msg_Attempts m = 0" for m r s
    using refines_append [of "[m]" e] that by (simp add: appendable_def)
  have mark: "refines Deliver f (with_store f (snd (so_MarkDeadLetterReplayed ops (eg_store f) i as t)))" for f i as t
    by (rule refines_store) (auto simp: MarkReplayed_law MarkReplayed_view strip_steps intro: v_replayed)
  show ?thesis
    unfolding Engine_ReplayDeadLetter_def Let_def
    by (auto simp: message_New_def SetHeader_def split: sum.split prod.split option.split
        intro!: refines_refl refines_chain refines_trans [OF _ mark] dest: app)
qed

lemma topology_saved:
  "so_SaveExchange ops s x = (r, s') \<Longrightarrow> inv s \<Longrightarrow> inv s' \<and> view s' = view s"
  "so_SaveQueue ops s qu = (r, s') \<Longrightarrow> inv s \<Longrightarrow> inv s' \<and> view s' = view s"
  "so_SaveBinding ops s b = (r, s') \<Longrightarrow> inv s \<Longrightarrow> inv s' \<and> view s' = view s"
  "so_DeleteBinding ops s bs = (r, s') \<Longrightarrow> inv s \<Longrightarrow> inv s' \<and> view s' = view s"
  using topology_law [of s] by (metis snd_conv)+

lemma refines_topology:
  "refines Deliver e (snd (Engine_DeclareExchange ops e xspec now))"
  "refines Deliver e (snd (Engine_DeclareQueue ops e qspec now))"
  "refines Deliver e (snd (Engine_Bind ops e bspec now))"
  "refines Deliver e (snd (Engine_Unbind ops e bspec))"
  "refines Deliver e (snd (Engine_Restore ops e))"
  by (auto simp: Engine_DeclareExchange_def Engine_DeclareQueue_def Engine_Bind_def Engine_Unbind_def
      Engine_Restore_def Let_def refines_def split: prod.split sum.split option.split dest: topology_saved)

lemma refines_consumers:
  "refines Deliver e (Engine_Start e)" "refines Deliver e (snd (Engine_Shutdown e timeout))"
  "refines Deliver e (snd (Engine_Subscribe e spec))" "refines Deliver e (snd (Engine_Unsubscribe e name))"
  by (rule refines_same, simp add: Engine_Start_def Engine_Shutdown_def Engine_Subscribe_def Engine_Unsubscribe_def
      queueSignal_def Let_def split: sum.split option.split)+

lemma refines_removals:
  "refines Remove e (snd (Engine_Purge ops e queue))" "refines Remove e (snd (Engine_DeleteQueue ops e queue))"
  "refines Discard e (snd (Engine_DiscardDeadLetter ops e did))"
proof -
  have 1: "refines Remove f (with_store f (snd (so_Purge ops (eg_store f) queue)))"
    "refines Remove f (with_store f (snd (so_DeleteQueue ops (eg_store f) queue)))"
    "refines Discard f (with_store f (snd (so_DeleteDeadLetter ops (eg_store f) did)))" for f
    using DeleteDead_law [of "eg_store f" did] DeleteDead_law [THEN conjunct2, THEN apsnd_D, of "eg_store f" did]
    by (auto intro!: refines_store v_shrink strip_shrinks v_discard simp: Purge_law DeleteQueue_law strip_steps)
  show "refines Remove e (snd (Engine_Purge ops e queue))" "refines Discard e (snd (Engine_DiscardDeadLetter ops e did))"
    using 1 by (simp_all add: Engine_Purge_def Engine_DiscardDeadLetter_def split_def Let_def)
  obtain r reg where reg: "Registry_DeleteQueue (eg_registry e) queue = (r, reg)" by fastforce
  have "refines Remove e (e\<lparr>eg_registry := reg\<rparr>)" by (rule refines_same) simp
  with 1(2) [of "e\<lparr>eg_registry := reg\<rparr>"] show "refines Remove e (snd (Engine_DeleteQueue ops e queue))"
    by (auto simp: Engine_DeleteQueue_def reg Let_def split: prod.split option.split intro: refines_trans)
qed

lemma step_refines: "engine_step ops k e e' \<Longrightarrow> refines k e e'"
  by (cases rule: engine_step.cases)
    (auto intro: refines_Publish refines_Replay refines_dispatch refines_process refines_worker refines_Pull
      refines_Ack refines_Nack refines_maintenance refines_topology refines_consumers refines_removals)

end

end
