(* ===== verification/EngineFacts.thy ===== *)
theory EngineFacts
  imports EngineSteps
begin

text \<open>
  What the single operations of the engine achieve over any store that keeps the contract:
  publishing, a failed delivery, the hand-off to the workers, lease reclaim, replay.
\<close>

section \<open>Delivery of a message\<close>

abbreviation (input) delivery_of :: "Message \<Rightarrow> Delivery" where
  "delivery_of m \<equiv> \<lparr>dv_Message = m, dv_Attempt = msg_Attempts m, dv_Queue = msg_Queue m\<rparr>"

text \<open>The message that a replay puts into the queue of its dead letter.\<close>

definition replay_of :: "DeadLetter \<Rightarrow> Queue \<Rightarrow> time \<Rightarrow> byte list \<Rightarrow> Message" where
  "replay_of d queue now entropy =
    \<lparr> msg_ID = newIDAt now entropy, msg_Exchange = dl_Exchange d, msg_RoutingKey = dl_RoutingKey d,
      msg_Queue = qs_Name (q_Spec queue), msg_Schema = dl_Schema d, msg_Payload = dl_Payload d,
      msg_Headers = mput (mput (dl_Headers d) headerReplayOf (dl_MessageID d)) headerDeadLetterID (dl_ID d),
      msg_State = StateQueued, msg_Attempts = 0,
      msg_MaxAttempts = qs_MaxAttempts (q_Spec queue), msg_LastError = [], msg_CreatedAt = now,
      msg_UpdatedAt = now, msg_AvailableAt = now \<rparr>"

lemma replay_of_sel [simp]:
  "msg_ID (replay_of d q now en) = newIDAt now en" "msg_State (replay_of d q now en) = StateQueued"
  "msg_Queue (replay_of d q now en) = qs_Name (q_Spec q)"
  by (simp_all add: replay_of_def)

lemma replay_message:
  "Transition (SetHeader (SetHeader ((message_New
      \<lparr> pub_Exchange = dl_Exchange d, pub_RoutingKey = dl_RoutingKey d, pub_Payload = dl_Payload d,
        pub_Headers = dl_Headers d, pub_Schema = dl_Schema d \<rparr> (qs_Name (q_Spec q)) now en)
      \<lparr>msg_MaxAttempts := qs_MaxAttempts (q_Spec q)\<rparr>) headerReplayOf (dl_MessageID d))
      headerDeadLetterID (dl_ID d)) StateQueued now = Inr (replay_of d q now en)"
  by (simp add: message_New_def SetHeader_def replay_of_def)

text \<open>What becomes of one expired message.\<close>

definition reclaimed :: "Policy \<Rightarrow> time \<Rightarrow> Message \<Rightarrow> View \<Rightarrow> bool" where
  "reclaimed p now m v \<longleftrightarrow>
    (if msg_Attempts m < pl_MaxAttempts p then v_msgs v (msg_ID m) = Some (released_msg now m)
     else v_msgs v (msg_ID m) = Some (buried_msg (error_text ErrLeaseExpired) now m) \<and>
       (\<exists>did d. v_dead v did = Some d \<and> dl_MessageID d = msg_ID m \<and> dl_Queue d = msg_Queue m \<and>
          dl_Payload d = msg_Payload m \<and> dl_Attempts d = msg_Attempts m \<and> dl_ErrorKind d = errorKindExpired)) \<and>
    v_lease v (msg_ID m) = None"

text \<open>Where a claimed message is after the hand-off: with the workers, back in the queue, or, when
  \<open>kept\<close>, still leased.\<close>

definition placed :: "bool \<Rightarrow> Delivery list \<Rightarrow> View \<Rightarrow> Message \<Rightarrow> bool" where
  "placed kept new v m \<longleftrightarrow>
    (delivery_of m \<in> set new \<or> kept) \<and> v_msgs v (msg_ID m) = Some m \<or>
    delivery_of m \<notin> set new \<and> (\<exists>t. v_msgs v (msg_ID m) = Some (released_msg t m))"

context message_store
begin

section \<open>History\<close>

lemma recordHistory_view:
  "einv e \<Longrightarrow> eview (recordHistory ops e ev) = snd (view_AppendHistory (eview e) ev)"
  using AppendHistory_law [THEN conjunct2, THEN apsnd_D, of "eg_store e" ev] by (simp add: recordHistory_def)

lemma history_fold:
  "einv e \<Longrightarrow> \<not> v_closed (eview e) \<Longrightarrow>
    v_events (eview (fold (\<lambda>x e. recordHistory ops e (f x)) xs e)) i =
      v_events (eview e) i @ filter (\<lambda>ev. he_MessageID ev = i) (map f xs)"
  by (induction xs arbitrary: e)
    (auto simp: recordHistory_laws(1) recordHistory_view view_AppendHistory_def)

section \<open>Publishing\<close>

lemma publish_metrics_store: "eg_store (fold (\<lambda>q. metric (MessagePublished q l)) qs e) = eg_store e"
  by (induction qs arbitrary: e) simp_all

lemma Publish_rejected:
  assumes inv: "einv e" and route: "Registry_Route (eg_registry e) (pub_Exchange pub) (pub_RoutingKey pub) = Inr qs"
    and find: "find (\<lambda>q. schema_error e pub q \<noteq> None) qs = Some q"
    and pub: "Engine_Publish ops e pub now entropy fresh latency = (res, e')"
  shows "\<exists>err d. schema_error e pub q = Some err \<and> res = Inl err \<and> einv e' \<and>
    dl_Queue d = qs_Name (q_Spec q) \<and> dl_Payload d = pub_Payload pub \<and> dl_ErrorKind d = errorKindValidation \<and>
    dl_Attempts d = 0 \<and> dl_Reason d = error_text err \<and> dl_ID d = [] \<and>
    eview e' = snd (view_SaveDeadLetter (eview e) d fresh)"
proof -
  obtain err en0 where l: "schema_error e pub q = Some err"
    "publish_loop ops e pub now fresh qs entropy [] =
        (Inl err, metric (MessageRejected (qs_Name (q_Spec q)))
           (with_store e (snd (so_SaveDeadLetter ops (eg_store e)
             (rejected_record (published pub now q en0) err now) fresh))))"
    using publish_loop_reject [OF find, of now fresh entropy "[]"] by blast
  let ?d = "rejected_record (published pub now q en0) err now"
  have "res = Inl err" "eg_store e' = snd (so_SaveDeadLetter ops (eg_store e) ?d fresh)"
    using pub l(2) by (auto simp: Engine_Publish_def route)
  then show ?thesis
    using l(1) SaveDeadLetter_law [OF inv, of ?d fresh] SaveDeadLetter_view [OF inv, of ?d fresh]
    by (intro exI [of _ err] exI [of _ ?d]) (simp add: rejected_record_def)
qed

lemma Publish_accepted:
  assumes inv: "einv e" and route: "Registry_Route (eg_registry e) (pub_Exchange pub) (pub_RoutingKey pub) = Inr qs"
    and ok: "\<forall>q\<in>set qs. schema_error e pub q = None" and ids: "fresh_ids e pub now entropy"
    and pub: "Engine_Publish ops e pub now entropy fresh latency = (res, e')"
  shows "(case fst (view_Append (eview e) (published_all pub now qs entropy)) of
      Some err \<Rightarrow> res = Inl err \<and> eview e' = eview e
    | None \<Rightarrow> res = Inr \<lparr> pr_Exchange = pub_Exchange pub, pr_RoutingKey = pub_RoutingKey pub,
                pr_MessageIDs = map msg_ID (published_all pub now qs entropy),
                pr_Queues = map msg_Queue (published_all pub now qs entropy) \<rparr> \<and>
        strip (eview e') = strip (snd (view_Append (eview e) (published_all pub now qs entropy))) \<and>
        (\<forall>i. v_events (eview e') i = v_events (eview e) i @
          map (\<lambda>m. queued_event m now []) (filter (\<lambda>m. msg_ID m = i) (published_all pub now qs entropy))))"
proof -
  let ?ms = "published_all pub now qs entropy"
  have app: "appendable ?ms" using ids route by (intro published_all_appendable) (simp add: fresh_ids_def)
  obtain r s where ap: "so_Append ops (eg_store e) ?ms = (r, s)" by fastforce
  have A: "inv s" "r = fst (view_Append (eview e) ?ms)" "view s = snd (view_Append (eview e) ?ms)"
    using Append_law [OF inv app] Append_view [OF inv app] by (simp_all add: ap)
  note P = pub [symmetric] route publish_loop_ok [OF ok, of now fresh entropy "[]"] ap
  show ?thesis
  proof (cases r)
    case (Some err)
    then show ?thesis using P A by (auto simp: Engine_Publish_def view_Append_def split: if_splits)
  next
    case None
    define h where "h = fold (\<lambda>m e. recordHistory ops e (queued_event m now [])) ?ms (with_store e s)"
    have store: "eg_store e' = eg_store h" using P None by (simp add: Engine_Publish_def Let_def h_def publish_metrics_store)
    have op: "\<not> v_closed (view s)" using A(2,3) None by (auto simp: view_Append_def split: if_splits)
    have ev: "v_events (view s) = v_events (eview e)" using A(3) by (simp add: view_Append_def)
    have "strip (eview h) = strip (view s)" unfolding h_def using A(1) recordHistory_fold [of "with_store e s" "\<lambda>m. queued_event m now []" ?ms] by simp
    moreover have "v_events (eview h) i = v_events (eview e) i @
        map (\<lambda>m. queued_event m now []) (filter (\<lambda>m. msg_ID m = i) ?ms)" for i
      unfolding h_def using A(1) op ev history_fold [of "with_store e s" "\<lambda>m. queued_event m now []" ?ms i]
      by (simp add: filter_map comp_def queued_event_def)
    moreover have "res = Inr \<lparr> pr_Exchange = pub_Exchange pub, pr_RoutingKey = pub_RoutingKey pub,
        pr_MessageIDs = map msg_ID ?ms, pr_Queues = map msg_Queue ?ms \<rparr>"
      using P None by (simp add: Engine_Publish_def Let_def)
    ultimately show ?thesis using None A store by simp
  qed
qed

text \<open>A publication that fails changes no message, whatever the error.\<close>

lemma Publish_failed:
  assumes inv: "einv e" and ids: "fresh_ids e pub now entropy"
    and pub: "Engine_Publish ops e pub now entropy fresh latency = (Inl err, e')"
  shows "v_msgs (eview e') = v_msgs (eview e)"
proof (cases "Registry_Route (eg_registry e) (pub_Exchange pub) (pub_RoutingKey pub)")
  case (Inl err)
  then show ?thesis using pub by (auto simp: Engine_Publish_def)
next
  case (Inr qs)
  show ?thesis
  proof (cases "find (\<lambda>q. schema_error e pub q \<noteq> None) qs")
    case None
    then have "\<forall>q\<in>set qs. schema_error e pub q = None" by (auto simp: find_None_iff)
    from Publish_accepted [OF inv Inr this ids pub] show ?thesis by (auto split: option.splits)
  next
    case (Some q)
    from Publish_rejected [OF inv Inr Some pub] show ?thesis by (auto simp: view_SaveDeadLetter_def Let_def)
  qed
qed

lemma Publish_succeeded:
  assumes inv: "einv e" and ids: "fresh_ids e pub now entropy"
    and pub: "Engine_Publish ops e pub now entropy fresh latency = (Inr r, e')"
  obtains qs where "Registry_Route (eg_registry e) (pub_Exchange pub) (pub_RoutingKey pub) = Inr qs"
    "pr_Queues r = map (\<lambda>q. qs_Name (q_Spec q)) qs"
    "pr_MessageIDs r = map (\<lambda>k. newIDAt now (entropy k)) [0..<length qs]" "distinct (pr_MessageIDs r)"
    "\<And>k. k < length qs \<Longrightarrow> v_msgs (eview e) (pr_MessageIDs r ! k) = None \<and>
       v_msgs (eview e') (pr_MessageIDs r ! k) = Some (published pub now (qs ! k) (entropy k)) \<and>
       v_events (eview e') (pr_MessageIDs r ! k) = v_events (eview e) (pr_MessageIDs r ! k) @
         [queued_event (published pub now (qs ! k) (entropy k)) now []]"
    "\<And>i. i \<notin> set (pr_MessageIDs r) \<Longrightarrow> v_msgs (eview e') i = v_msgs (eview e) i"
    "v_dead (eview e') = v_dead (eview e)"
proof -
  obtain qs where route: "Registry_Route (eg_registry e) (pub_Exchange pub) (pub_RoutingKey pub) = Inr qs"
    using pub by (cases "Registry_Route (eg_registry e) (pub_Exchange pub) (pub_RoutingKey pub)")
      (auto simp: Engine_Publish_def)
  have "find (\<lambda>q. schema_error e pub q \<noteq> None) qs = None"
  proof (rule ccontr)
    assume "find (\<lambda>q. schema_error e pub q \<noteq> None) qs \<noteq> None"
    then obtain q where "find (\<lambda>q. schema_error e pub q \<noteq> None) qs = Some q" by blast
    from Publish_rejected [OF inv route this pub] show False by auto
  qed
  then have ok: "\<forall>q\<in>set qs. schema_error e pub q = None" by (auto simp: find_None_iff)
  let ?ms = "published_all pub now qs entropy"
  note A = Publish_accepted [OF inv route ok ids pub]
  have app: "fst (view_Append (eview e) ?ms) = None" using A by (auto split: option.splits)
  with A have r: "pr_MessageIDs r = map msg_ID ?ms" "pr_Queues r = map msg_Queue ?ms"
    and v: "strip (eview e') = strip (snd (view_Append (eview e) ?ms))"
    and ev: "\<And>i. v_events (eview e') i = v_events (eview e) i @ map (\<lambda>m. queued_event m now []) (filter (\<lambda>m. msg_ID m = i) ?ms)"
    by auto
  have ids': "map msg_ID ?ms = map (\<lambda>k. newIDAt now (entropy k)) [0..<length qs]" by (rule published_all_IDs)
  have dist: "distinct (map msg_ID ?ms)" using ids route unfolding ids' by (simp add: fresh_ids_def)
  note new = strip_eqD [OF v]
  show ?thesis
  proof (rule that [OF route])
    show "pr_Queues r = map (\<lambda>q. qs_Name (q_Spec q)) qs"
      unfolding r by (rule nth_equalityI) (simp_all add: published_all_nth)
    show "pr_MessageIDs r = map (\<lambda>k. newIDAt now (entropy k)) [0..<length qs]" "distinct (pr_MessageIDs r)"
      using r(1) ids' dist by simp_all
    fix k assume k: "k < length qs"
    let ?m = "published pub now (qs ! k) (entropy k)"
    have mk: "?ms ! k = ?m" "?m \<in> set ?ms" "pr_MessageIDs r ! k = msg_ID ?m"
      using k r(1) published_all_nth [where qs = qs and pub = pub and now = now and en = entropy]
      by (simp_all) (metis nth_mem)
    have f: "find (\<lambda>m. msg_ID m = msg_ID ?m) ?ms = Some ?m"
      using find_distinct_key [OF dist mk(2)] by simp
    have "filter (\<lambda>m. msg_ID m = msg_ID ?m) ?ms = [?m]" using filter_distinct_key [OF dist mk(2)] by simp
    moreover have "v_msgs (eview e) (msg_ID ?m) = None"
      using app mk(2) by (auto simp: view_Append_def list_ex_iff split: if_splits)
    ultimately show "v_msgs (eview e) (pr_MessageIDs r ! k) = None \<and>
        v_msgs (eview e') (pr_MessageIDs r ! k) = Some ?m \<and>
        v_events (eview e') (pr_MessageIDs r ! k) = v_events (eview e) (pr_MessageIDs r ! k) @ [queued_event ?m now []]"
      using new app f ev [of "msg_ID ?m"] unfolding mk(3) by (auto simp: view_Append_def split: if_splits)
  next
    fix i assume "i \<notin> set (pr_MessageIDs r)"
    then have "find (\<lambda>m. msg_ID m = i) ?ms = None" unfolding r by (auto simp: find_None_iff)
    then show "v_msgs (eview e') i = v_msgs (eview e) i" using new by (simp add: view_Append_def)
  qed (use new in \<open>simp add: view_Append_def\<close>)
qed

section \<open>A failed delivery\<close>

lemma fail_outcome:
  fixes consumer cause now oor draw fresh
  assumes inv: "einv e" and m: "v_msgs (eview e) (msg_ID (dv_Message d)) = Some m" "msg_State m = StateProcessing"
  defines "e' \<equiv> Engine_fail ops e consumer d cause now oor draw fresh"
  shows "retries e d cause \<Longrightarrow> strip (eview e') = strip ((eview e)
      \<lparr> v_msgs := (v_msgs (eview e))(msg_ID (dv_Message d) \<mapsto> retry_msg (retry_request e d cause now oor draw) m),
        v_lease := (v_lease (eview e))(msg_ID (dv_Message d) := None) \<rparr>)"
    and "\<not> retries e d cause \<Longrightarrow> \<not> v_closed (eview e) \<Longrightarrow> v_dead (eview e) fresh = None \<Longrightarrow>
      strip (eview e') = strip ((eview e)
      \<lparr> v_dead := (v_dead (eview e))(fresh \<mapsto> (dead_record ops e d cause now)\<lparr>dl_ID := fresh\<rparr>),
        v_msgs := (v_msgs (eview e))(msg_ID (dv_Message d) \<mapsto> buried_msg (error_text cause) now m),
        v_lease := (v_lease (eview e))(msg_ID (dv_Message d) := None) \<rparr>)"
  using m fail_laws(2,3) [OF inv, of d cause consumer now oor draw fresh] unfolding e'_def
  by (simp_all add: view_bury_def view_update_def if_leased_def bury_def)

lemma deadLetter_outcome:
  assumes inv: "einv e" and m: "v_msgs (eview e) (msg_ID (dv_Message d)) = Some m" "msg_State m = StateProcessing"
    and "\<not> v_closed (eview e)" "v_dead (eview e) fresh = None"
  shows "strip (eview (Engine_deadLetter ops e consumer d cause now fresh)) = strip ((eview e)
      \<lparr> v_dead := (v_dead (eview e))(fresh \<mapsto> (dead_record ops e d cause now)\<lparr>dl_ID := fresh\<rparr>),
        v_msgs := (v_msgs (eview e))(msg_ID (dv_Message d) \<mapsto> buried_msg (error_text cause) now m),
        v_lease := (v_lease (eview e))(msg_ID (dv_Message d) := None) \<rparr>)"
  using assms(2-) deadLetter_laws(2) [OF inv, of consumer d cause now fresh]
  by (simp add: view_bury_def view_update_def bury_def)

section \<open>Lease reclaim\<close>

lemma classify_expired [simp]: "classify ErrLeaseExpired = errorKindExpired"
  by (simp add: classify_def)

lemma reclaim_one:
  fixes now consumer
  assumes inv: "einv e" and m: "v_msgs (eview e) (msg_ID m) = Some m" "msg_State m = StateProcessing"
    and op: "\<not> v_closed (eview e)" "v_dead (eview e) f = None"
  defines "e' \<equiv> (if Policy_ShouldRetry (eg_policy e) (msg_Attempts m) then snd (requeueExpired ops e m now)
    else Engine_deadLetter ops e consumer (delivery_of m) ErrLeaseExpired now f)"
  shows "einv e'" "reclaimed (eg_policy e) now m (eview e')" "eg_policy e' = eg_policy e"
    "i \<noteq> msg_ID m \<Longrightarrow> v_msgs (eview e') i = v_msgs (eview e) i \<and> v_lease (eview e') i = v_lease (eview e) i"
    "v_closed (eview e') = v_closed (eview e)" "did \<noteq> f \<Longrightarrow> v_dead (eview e') did = v_dead (eview e) did"
    "v_dead (eview e) \<subseteq>\<^sub>m v_dead (eview e')"
proof -
  let ?i = "msg_ID m"
  have R: "strip (eview (snd (requeueExpired ops e m now))) = strip ((eview e)
      \<lparr> v_msgs := (v_msgs (eview e))(?i \<mapsto> released_msg now m), v_lease := (v_lease (eview e))(?i := None) \<rparr>)"
    using requeueExpired_laws(2) [OF inv, of m now] m by (simp add: view_update_def if_leased_def)
  note D = deadLetter_outcome [OF inv, of "delivery_of m", simplified, OF m op, of consumer ErrLeaseExpired now]
  note RD = R [THEN strip_eqD, simplified] D [THEN strip_eqD, simplified]
  show "einv e'" unfolding e'_def using requeueExpired_laws(1) [OF inv] deadLetter_laws(1) [OF inv] by simp
  show "reclaimed (eg_policy e) now m (eview e')" "v_dead (eview e) \<subseteq>\<^sub>m v_dead (eview e')"
    unfolding e'_def reclaimed_def using RD op
    by (auto simp: Policy_ShouldRetry_def dead_record_def map_le_def Let_def)
  show "eg_policy e' = eg_policy e"
    unfolding e'_def by (simp add: requeueExpired_def Engine_deadLetter_def split: prod.split option.split sum.split)
  show "v_closed (eview e') = v_closed (eview e)" "did \<noteq> f \<Longrightarrow> v_dead (eview e') did = v_dead (eview e) did"
    "i \<noteq> ?i \<Longrightarrow> v_msgs (eview e') i = v_msgs (eview e) i \<and> v_lease (eview e') i = v_lease (eview e) i"
    unfolding e'_def using RD by auto
qed

lemma reclaimed_mono:
  "reclaimed p now m v \<Longrightarrow> v_msgs w (msg_ID m) = v_msgs v (msg_ID m) \<Longrightarrow> v_lease w (msg_ID m) = v_lease v (msg_ID m) \<Longrightarrow>
    v_dead v \<subseteq>\<^sub>m v_dead w \<Longrightarrow> reclaimed p now m w"
  unfolding reclaimed_def by (auto split: if_splits) (metis domI map_le_def)

lemma reclaim_loop_step:
  "reclaim_loop ops e now (m # ms) fresh rq =
    reclaim_loop ops (if Policy_ShouldRetry (eg_policy e) (msg_Attempts m) then snd (requeueExpired ops e m now)
      else Engine_deadLetter ops e (mget_or [] (msg_Headers m) headerConsumer) (delivery_of m) ErrLeaseExpired now (fresh 0))
     now ms (\<lambda>i. fresh (Suc i))
     (if Policy_ShouldRetry (eg_policy e) (msg_Attempts m) \<and> fst (requeueExpired ops e m now) then rq @ [msg_Queue m] else rq)"
  by (simp add: split_def Let_def)

lemma reclaim_loop_complete:
  fixes now rq
  assumes "einv e" "\<not> v_closed (eview e)" "distinct (map msg_ID ms)"
    and "\<forall>m\<in>set ms. v_msgs (eview e) (msg_ID m) = Some m \<and> msg_State m = StateProcessing"
    and "distinct (map fresh [0..<length ms])" "\<forall>k<length ms. v_dead (eview e) (fresh k) = None"
  defines "e' \<equiv> snd (reclaim_loop ops e now ms fresh rq)"
  shows "einv e' \<and> (\<forall>m\<in>set ms. reclaimed (eg_policy e) now m (eview e')) \<and> v_dead (eview e) \<subseteq>\<^sub>m v_dead (eview e') \<and>
    (\<forall>i. i \<notin> msg_ID ` set ms \<longrightarrow> v_msgs (eview e') i = v_msgs (eview e) i \<and> v_lease (eview e') i = v_lease (eview e) i)"
  using assms(1-6) unfolding e'_def
proof (induction ms arbitrary: e fresh rq)
  case (Cons m ms)
  define f where "f = (if Policy_ShouldRetry (eg_policy e) (msg_Attempts m) then snd (requeueExpired ops e m now)
      else Engine_deadLetter ops e (mget_or [] (msg_Headers m) headerConsumer) (delivery_of m) ErrLeaseExpired now (fresh 0))"
  have m: "v_msgs (eview e) (msg_ID m) = Some m" "msg_State m = StateProcessing" using Cons.prems(4) by auto
  have f0: "v_dead (eview e) (fresh 0) = None" using Cons.prems(6) by auto
  note one = reclaim_one [OF Cons.prems(1) m Cons.prems(2) f0,
      where now = now and consumer = "mget_or [] (msg_Headers m) headerConsumer", folded f_def]
  have up: "map fresh [0..<length (m # ms)] = fresh 0 # map (\<lambda>i. fresh (Suc i)) [0..<length ms]"
    by (simp add: upt_conv_Cons map_Suc_upt [symmetric] comp_def del: upt_Suc)
  have dist: "distinct (map (\<lambda>i. fresh (Suc i)) [0..<length ms])" "\<forall>k<length ms. fresh (Suc k) \<noteq> fresh 0"
    using Cons.prems(5) unfolding up by (auto simp: image_iff) (metis atLeast0LessThan lessThan_iff)
  have pre: "\<forall>m'\<in>set ms. v_msgs (eview f) (msg_ID m') = Some m' \<and> msg_State m' = StateProcessing"
    using Cons.prems(3,4) one(4) by (auto simp: image_iff)
  have dead: "\<forall>k<length ms. v_dead (eview f) (fresh (Suc k)) = None"
    using Cons.prems(6) dist(2) one(6) by auto
  have op: "\<not> v_closed (eview f)" "distinct (map msg_ID ms)" using one(5) Cons.prems(2,3) by auto
  define rq' where "rq' = (if Policy_ShouldRetry (eg_policy e) (msg_Attempts m) \<and> fst (requeueExpired ops e m now)
    then rq @ [msg_Queue m] else rq)"
  define g where "g = snd (reclaim_loop ops f now ms (\<lambda>i. fresh (Suc i)) rq')"
  note IH = Cons.IH [OF one(1) op pre dist(1) dead, of rq', folded g_def, unfolded one(3)]
  have "msg_ID m \<notin> msg_ID ` set ms" using Cons.prems(3) by auto
  then have 1: "reclaimed (eg_policy e) now m (eview g)"
    using IH by (intro reclaimed_mono [OF one(2)]) auto
  have 2: "v_dead (eview e) \<subseteq>\<^sub>m v_dead (eview g)"
    using IH one(7) map_le_trans by blast
  have 3: "v_msgs (eview g) i = v_msgs (eview e) i \<and> v_lease (eview g) i = v_lease (eview e) i"
    if "i \<notin> msg_ID ` set (m # ms)" for i
    using that IH one(4) [of i] by simp
  show ?case
    unfolding reclaim_loop_step f_def [symmetric] rq'_def [symmetric] g_def [symmetric]
    using 1 2 3 IH by simp
qed simp

lemma reclaim_complete:
  fixes now
  assumes inv: "einv e" and op: "\<not> v_closed (eview e)"
    and fresh: "\<forall>k<256. v_dead (eview e) (fresh k) = None" "distinct (map fresh [0..<256])"
  defines "e' \<equiv> Engine_reclaim ops e now fresh"
  shows "\<exists>ms. so_ExpiredLeases ops (eg_store e) now reclaimBatchSize = Inr ms \<and> einv e' \<and>
    (\<forall>m\<in>set ms. lease_expired (eview e) now (msg_ID m) \<and> v_msgs (eview e) (msg_ID m) = Some m \<and>
       reclaimed (eg_policy e) now m (eview e')) \<and>
    (length ms < 256 \<longrightarrow> (\<forall>i. lease_expired (eview e) now i \<longrightarrow> i \<in> msg_ID ` set ms)) \<and>
    (\<forall>i. i \<notin> msg_ID ` set ms \<longrightarrow> v_msgs (eview e') i = v_msgs (eview e) i \<and> v_lease (eview e') i = v_lease (eview e) i)"
proof -
  obtain ms where ms: "so_ExpiredLeases ops (eg_store e) now reclaimBatchSize = Inr ms"
    "distinct (map msg_ID ms)" "int (length ms) \<le> 256"
    "\<forall>m \<in> set ms. v_msgs (eview e) (msg_ID m) = Some m \<and> lease_expired (eview e) now (msg_ID m)"
    "int (length ms) < 256 \<longrightarrow> (\<forall>i. lease_expired (eview e) now i \<longrightarrow> i \<in> msg_ID ` set ms)"
    using ExpiredLeases_law [OF inv, of 256 now] by (auto simp: reclaimBatchSize_def)
  have st: "\<forall>m\<in>set ms. v_msgs (eview e) (msg_ID m) = Some m \<and> msg_State m = StateProcessing"
    using ms(4) by (auto simp: lease_expired_def)
  have "[0..<length ms] = take (length ms) [0..<256]" using ms(3) by (simp add: take_upt)
  then have fr: "distinct (map fresh [0..<length ms])" "\<forall>k<length ms. v_dead (eview e) (fresh k) = None"
    using fresh ms(3) by (simp_all only: take_map [symmetric] distinct_take) auto
  have "eg_store e' = eg_store (snd (reclaim_loop ops e now ms fresh []))"
    by (simp add: e'_def Engine_reclaim_def ms(1) split_def Let_def)
  then show ?thesis
    using ms reclaim_loop_complete [OF inv op ms(2) st fr, of now "[]"] by (intro exI [of _ ms]) auto
qed

section \<open>Replay\<close>

lemma Replay_outcome:
  assumes inv: "einv e" and d: "v_dead (eview e) did = Some d"
    and q: "Registry_Queue (eg_registry e) (dl_Queue d) = Inr queue"
    and op: "\<not> v_closed (eview e)" "v_msgs (eview e) (newIDAt now entropy) = None"
    and rp: "Engine_ReplayDeadLetter ops e did now entropy = (res, e')"
  shows "res = Inr \<lparr> rp_DeadLetterID = did, rp_OriginalMessageID = dl_MessageID d,
      rp_MessageID = newIDAt now entropy, rp_Queue = qs_Name (q_Spec queue) \<rparr> \<and> einv e' \<and>
    strip (eview e') = strip ((eview e)
      \<lparr> v_msgs := (v_msgs (eview e))(newIDAt now entropy \<mapsto> replay_of d queue now entropy),
        v_lease := (v_lease (eview e))(newIDAt now entropy := None),
        v_dead := (v_dead (eview e))(did \<mapsto> replayed_dead (newIDAt now entropy) now d) \<rparr>)"
proof -
  let ?m = "replay_of d queue now entropy" and ?i = "newIDAt now entropy"
  have id: "dl_ID d = did" using dead_ID [OF inv d] .
  have app: "appendable [?m]" by (simp add: appendable_def)
  obtain r s where ap: "so_Append ops (eg_store e) [?m] = (r, s)" by fastforce
  have A: "inv s" "r = None" "view s = snd (view_Append (eview e) [?m])"
    using Append_law [OF inv app] Append_view [OF inv app] op by (simp_all add: ap view_Append_def)
  have vs: "view s = (eview e)\<lparr> v_msgs := (v_msgs (eview e))(?i \<mapsto> ?m), v_lease := (v_lease (eview e))(?i := None) \<rparr>"
    unfolding A(3) using op by (intro view_eqI) (simp_all add: view_Append_def)
  define h where "h = recordHistory ops (with_store e s) (queued_event ?m now (''replayed from dead letter '' @ did))"
  have h: "einv h" "strip (eview h) = strip (view s)" unfolding h_def using recordHistory_laws [of "with_store e s"] A(1) by simp_all
  define t where "t = snd (so_MarkDeadLetterReplayed ops (eg_store h) did ?i now)"
  have t: "inv t" "view t = snd (view_MarkReplayed (eview h) did ?i now)"
    unfolding t_def using MarkReplayed_law [OF h(1), of did ?i now] MarkReplayed_view [OF h(1), of did ?i now] by simp_all
  have "strip (view t) = snd (view_MarkReplayed (strip (view s)) did ?i now)"
    by (simp only: t(2) strip_steps h(2))
  then have st: "strip (view t) = strip ((eview e)
      \<lparr> v_msgs := (v_msgs (eview e))(?i \<mapsto> ?m), v_lease := (v_lease (eview e))(?i := None),
        v_dead := (v_dead (eview e))(did \<mapsto> replayed_dead ?i now d) \<rparr>)"
    using d by (simp add: vs strip_def view_MarkReplayed_def)
  have dl: "so_DeadLetter ops (eg_store e) did = Inr d" using DeadLetter_law [OF inv, of did] d by simp
  have "(res, e') = (Inr \<lparr> rp_DeadLetterID = did, rp_OriginalMessageID = dl_MessageID d,
      rp_MessageID = ?i, rp_Queue = qs_Name (q_Spec queue) \<rparr>, notify [qs_Name (q_Spec queue)] (with_store h t))"
    using rp dl q ap A(2)
    by (simp add: Engine_ReplayDeadLetter_def replay_message [where d = d and q = queue, unfolded id] Let_def h_def t_def id)
  then show ?thesis using t(1) st by simp
qed

section \<open>Handing deliveries to the workers\<close>

abbreviation (input) tasks :: "'s Engine \<Rightarrow> nat \<Rightarrow> Delivery list" where
  "tasks e p \<equiv> po_tasks (co_pool (object e p))"

lemma object_frames [simp]:
  "object (with_store e s) p = object e p" "object (metric x e) p = object e p"
  "object (recordHistory ops e ev) p = object e p" "eg_objects (with_store e s) = eg_objects e"
  "eg_objects (recordHistory ops e ev) = eg_objects e" "eg_objects (metric x e) = eg_objects e"
  "length (eg_objects (set_object e p c)) = length (eg_objects e)"
  "p < length (eg_objects e) \<Longrightarrow> object (set_object e p c) p = c"
  by (simp_all add: object_def with_store_def metric_def recordHistory_def set_object_def)

lemma handOff_places:
  assumes inv: "einv e" and m: "v_msgs (eview e) (msg_ID m) = Some m" "msg_State m = StateProcessing"
    and p: "p < length (eg_objects e)" and h: "Engine_handOff ops e p m h = (r, e')"
  shows "einv e' \<and> length (eg_objects e') = length (eg_objects e) \<and>
    (\<forall>i. i \<noteq> msg_ID m \<longrightarrow> v_msgs (eview e') i = v_msgs (eview e) i) \<and>
    (\<exists>new. tasks e' p = tasks e p @ new \<and> set new \<subseteq> {delivery_of m} \<and> placed False new (eview e') m)"
proof -
  let ?ev = "\<lparr> he_MessageID = msg_ID m, he_Queue = msg_Queue m, he_From = StateQueued, he_To = StateProcessing,
      he_Consumer = cs_Name (co_spec (object e p)), he_Detail = [], he_At = ho_at h \<rparr>"
  define f where "f = metric (MessageDelivered (msg_Queue m)) (recordHistory ops e ?ev)"
  have f: "einv f" "strip (eview f) = strip (eview e)" "object f p = object e p" "eg_objects f = eg_objects e"
    unfolding f_def using recordHistory_laws [OF inv] by simp_all
  obtain res pool where sub: "Pool_Submit (co_pool (object e p)) (delivery_of m) (ho_choice h) = (res, pool)" by fastforce
  define g where "g = set_object f p ((object f p)\<lparr>co_pool := pool\<rparr>)"
  have g: "einv g" "strip (eview g) = strip (eview e)" "co_pool (object g p) = pool" "length (eg_objects g) = length (eg_objects e)"
    unfolding g_def using f p by (simp_all del: object_frames(1-6))
  have H: "(r, e') = (case res of None \<Rightarrow> (None, g)
      | Some err \<Rightarrow> (if errors_Is err ErrPoolStopped \<or> ho_done h then None else Some err,
          releaseUndispatched ops g (msg_ID m) (ho_release_at h)))"
    using h sub by (cases res) (simp_all add: Engine_handOff_def Let_def f_def g_def)
  show ?thesis
  proof (cases res)
    case None
    then have "po_tasks pool = tasks e p @ [delivery_of m]"
      using sub by (auto simp: Pool_Submit_def split: if_splits option.splits)
    then show ?thesis
      using None H g m strip_eqD [OF g(2)] by (auto simp: placed_def intro!: exI [of _ "[delivery_of m]"])
  next
    case (Some err)
    then have t: "po_tasks pool = tasks e p" using sub by (auto simp: Pool_Submit_def split: if_splits option.splits)
    have v: "view (snd (so_Release ops (eg_store g) (msg_ID m) (ho_release_at h))) =
        snd (view_update (eview g) (msg_ID m) (\<lambda>x. if_leased x (released_msg (ho_release_at h) x)))"
      using Release_view [OF g(1)] by simp
    have "inv (snd (so_Release ops (eg_store g) (msg_ID m) (ho_release_at h)))" using Release_law [OF g(1)] by simp
    then show ?thesis
      using Some H g t v m strip_eqD [OF g(2)]
      by (auto simp: placed_def releaseUndispatched_def view_update_def if_leased_def intro!: exI [of _ "[]"])
  qed
qed

lemma handoffs_place:
  assumes "einv e" "p < length (eg_objects e)" "distinct (map msg_ID ms)"
    and "\<forall>m\<in>set ms. v_msgs (eview e) (msg_ID m) = Some m \<and> msg_State m = StateProcessing"
    and "handoff_loop ops e p ms hs = (r, e')"
  shows "einv e' \<and> (\<forall>i. i \<notin> msg_ID ` set ms \<longrightarrow> v_msgs (eview e') i = v_msgs (eview e) i) \<and>
    (\<exists>new. tasks e' p = tasks e p @ new \<and> set new \<subseteq> delivery_of ` set ms \<and>
      (\<forall>m\<in>set ms. placed (r \<noteq> None) new (eview e') m))"
  using assms
proof (induction ms arbitrary: e hs)
  case (Cons m ms)
  obtain r1 f where h: "Engine_handOff ops e p m (hs 0) = (r1, f)" by fastforce
  have m: "v_msgs (eview e) (msg_ID m) = Some m" "msg_State m = StateProcessing" using Cons.prems(4) by auto
  have nm: "msg_ID m \<notin> msg_ID ` set ms" using Cons.prems(3) by auto
  note one = handOff_places [OF Cons.prems(1) m Cons.prems(2) h]
  then obtain new1 where n1: "tasks f p = tasks e p @ new1" "set new1 \<subseteq> {delivery_of m}" "placed False new1 (eview f) m"
    by blast
  have rest: "\<forall>m'\<in>set ms. v_msgs (eview f) (msg_ID m') = Some m' \<and> msg_State m' = StateProcessing"
    using one Cons.prems(4) nm by (auto simp: image_iff)
  show ?case
  proof (cases r1)
    case (Some err)
    then have "r = Some err" "e' = f" using Cons.prems(5) h by simp_all
    then show ?thesis
      using one n1 rest nm by (intro conjI exI [of _ new1]) (auto simp: placed_def image_iff)
  next
    case None
    then have l: "handoff_loop ops f p ms (\<lambda>i. hs (Suc i)) = (r, e')" using Cons.prems(5) h by simp
    have fp: "p < length (eg_objects f)" "distinct (map msg_ID ms)" using one Cons.prems(2,3) by auto
    from Cons.IH [OF _ fp rest l] one obtain new2 where
      n2: "tasks e' p = tasks f p @ new2" "set new2 \<subseteq> delivery_of ` set ms"
        "\<forall>m\<in>set ms. placed (r \<noteq> None) new2 (eview e') m"
      and inv': "einv e'" and oth: "\<forall>i. i \<notin> msg_ID ` set ms \<longrightarrow> v_msgs (eview e') i = v_msgs (eview f) i" by blast
    have d: "delivery_of m \<notin> set new2" "\<forall>m'\<in>set ms. delivery_of m' \<notin> set new1" using n2(2) n1(2) nm by auto
    have "placed (r \<noteq> None) (new1 @ new2) (eview e') m"
      using n1(3) oth nm d(1) by (auto simp: placed_def)
    moreover have "\<forall>m'\<in>set ms. placed (r \<noteq> None) (new1 @ new2) (eview e') m'"
      using n2(3) d(2) by (auto simp: placed_def)
    ultimately show ?thesis
      using inv' oth one n1 n2 by (intro conjI exI [of _ "new1 @ new2"]) auto
  qed
qed (auto intro: exI [of _ "[]"])

lemma claimBatch_places:
  assumes inv: "einv e" and p: "p < length (eg_objects e)"
    and c: "claimBatch ops e p now hs = ((n, r), e')" "0 < n"
  shows "\<exists>ms new. n = int (length ms) \<and> tasks e' p = tasks e p @ new \<and> set new \<subseteq> delivery_of ` set ms \<and>
    (\<forall>m\<in>set ms. \<exists>m0. v_msgs (eview e) (msg_ID m) = Some m0 \<and> ready m0 now \<and>
       msg_Queue m = cs_Queue (co_spec (object e p)) \<and> msg_Attempts m = msg_Attempts m0 + 1 \<and>
       placed (r \<noteq> None) new (eview e') m) \<and>
    (\<forall>i. i \<notin> msg_ID ` set ms \<longrightarrow> v_msgs (eview e') i = v_msgs (eview e) i)"
proof -
  let ?spec = "co_spec (object e p)"
  obtain queue where q: "Registry_Queue (eg_registry e) (cs_Queue ?spec) = Inr queue"
    using c by (cases "Registry_Queue (eg_registry e) (cs_Queue ?spec)") (auto simp: claimBatch_def)
  let ?req = "\<lparr> cr_Queue = cs_Queue ?spec, cr_Consumer = cs_Name ?spec, cr_Limit = cs_Prefetch ?spec,
      cr_Lease = qs_VisibilityTimeout (q_Spec queue), cr_Now = now \<rparr>"
  obtain ms s where cl: "so_Claim ops (eg_store e) ?req = (Inr ms, s)"
    using c q by (cases "so_Claim ops (eg_store e) ?req"; cases "fst (so_Claim ops (eg_store e) ?req)")
      (auto simp: claimBatch_def Let_def)
  have n: "n = int (length ms)" and l: "handoff_loop ops (with_store e s) p ms hs = (r, e')"
    using c(1) q cl by (auto simp: claimBatch_def Let_def split: prod.splits)
  note C = Claim_law [OF inv cl]
  have s: "inv s" using Claim_inv [OF inv, of ?req] cl by simp
  have org: "\<exists>m0. v_msgs (eview e) (msg_ID m) = Some m0 \<and> ready m0 now \<and> m = claimed_msg ?req m0 \<and>
      msg_Queue m0 = cs_Queue ?spec" if m: "m \<in> set ms" for m
  proof -
    obtain m0 where "v_msgs (eview e) (msg_ID m) = Some m0" "ready m0 now" "msg_Queue m0 = cs_Queue ?spec"
      using C m by (auto simp: claimable_from_def split: option.splits)
    moreover have "v_msgs (view s) (msg_ID m) = Some m" using C m by blast
    ultimately show ?thesis using C m by (auto simp: view_claimed_def split: if_splits)
  qed
  have st: "\<forall>m\<in>set ms. v_msgs (view s) (msg_ID m) = Some m \<and> msg_State m = StateProcessing"
  proof
    fix m assume m: "m \<in> set ms"
    obtain m0 where "m = claimed_msg ?req m0" using org [OF m] by blast
    then have "msg_State m = StateProcessing" by (simp add: claimed_msg_def)
    then show "v_msgs (view s) (msg_ID m) = Some m \<and> msg_State m = StateProcessing" using C m by blast
  qed
  have oth: "v_msgs (view s) i = v_msgs (eview e) i" if "i \<notin> msg_ID ` set ms" for i
    using C that by (simp add: view_claimed_def)
  obtain new where new: "tasks e' p = tasks e p @ new" "set new \<subseteq> delivery_of ` set ms"
      "\<forall>m\<in>set ms. placed (r \<noteq> None) new (eview e') m"
      "\<forall>i. i \<notin> msg_ID ` set ms \<longrightarrow> v_msgs (eview e') i = v_msgs (view s) i"
    using handoffs_place [OF _ _ _ _ l] s p C st by auto
  have "\<exists>m0. v_msgs (eview e) (msg_ID m) = Some m0 \<and> ready m0 now \<and> msg_Queue m = cs_Queue ?spec \<and>
      msg_Attempts m = msg_Attempts m0 + 1 \<and> placed (r \<noteq> None) new (eview e') m" if "m \<in> set ms" for m
    using org [OF that] new(3) that by (auto simp: claimed_msg_def)
  then show ?thesis using n new oth by (intro exI [of _ ms] exI [of _ new]) auto
qed

end

end
