(* ===== verification/MemoryStore.thy ===== *)
theory MemoryStore
  imports Storage
begin

text \<open>
  The in-memory store, \<open>internal/storage/memory\<close>. Every method holds the store's lock for its whole
  body, so a method is one step. The maps \<open>order\<close>, \<open>settled\<close> and \<open>history\<close> are only indexed and are
  functions whose default is the zero value. Records are mutated in place in Go: an operation that
  fails half way leaves what it had already written, and so do the definitions below. A \<open>make\<close>
  with a negative capacity is the result \<open>Panic\<close>.
\<close>

record mem_record =
  rec_msg :: Message
  rec_lease :: time
  rec_consumer :: string

definition compactionThreshold :: int where "compactionThreshold = 64"

record Store =
  ms_closed :: bool
  ms_exchanges :: "(string, Exchange) gomap"
  ms_queues :: "(string, Queue) gomap"
  ms_bindings :: "(string, Binding) gomap"
  ms_messages :: "(string, mem_record) gomap"
  ms_order :: "string \<Rightarrow> string list"
  ms_settled :: "string \<Rightarrow> int"
  ms_deadLetters :: "(string, DeadLetter) gomap"
  ms_deadOrder :: "string list"
  ms_history :: "string \<Rightarrow> HistoryEvent list"

definition memory_New :: Store where
  "memory_New =
    \<lparr> ms_closed = False, ms_exchanges = [], ms_queues = [], ms_bindings = [], ms_messages = [],
      ms_order = (\<lambda>_. []), ms_settled = (\<lambda>_. 0), ms_deadLetters = [], ms_deadOrder = [],
      ms_history = (\<lambda>_. []) \<rparr>"

definition memory_Close :: "Store \<Rightarrow> error option \<times> Store" where
  "memory_Close s = (None, s\<lparr>ms_closed := True\<rparr>)"

section \<open>Topology\<close>

definition memory_SaveExchange :: "Store \<Rightarrow> Exchange \<Rightarrow> error option \<times> Store" where
  "memory_SaveExchange s exchange =
    (if ms_closed s then (Some ErrStoreClosed, s)
     else (None, s\<lparr>ms_exchanges := mput (ms_exchanges s) (xs_Name (ex_Spec exchange)) exchange\<rparr>))"

definition memory_Exchanges :: "Store \<Rightarrow> error + Exchange list" where
  "memory_Exchanges s = Inr (sort_key (\<lambda>e. xs_Name (ex_Spec e)) (mvals (ms_exchanges s)))"

definition memory_SaveQueue :: "Store \<Rightarrow> Queue \<Rightarrow> error option \<times> Store" where
  "memory_SaveQueue s queue =
    (if ms_closed s then (Some ErrStoreClosed, s)
     else (None, s\<lparr>ms_queues := mput (ms_queues s) (qs_Name (q_Spec queue)) queue\<rparr>))"

definition memory_Queues :: "Store \<Rightarrow> error + Queue list" where
  "memory_Queues s = Inr (sort_key (\<lambda>q. qs_Name (q_Spec q)) (mvals (ms_queues s)))"

definition memory_DeleteQueue :: "Store \<Rightarrow> string \<Rightarrow> error option \<times> Store" where
  "memory_DeleteQueue s name =
    (if mget (ms_queues s) name = None then (Some ErrNotFound, s)
     else (None, s\<lparr> ms_queues := mdel (ms_queues s) name,
                    ms_messages := fold (\<lambda>mid m. mdel m mid) (ms_order s name) (ms_messages s),
                    ms_order := (ms_order s)(name := []),
                    ms_settled := (ms_settled s)(name := 0) \<rparr>))"

definition bindingKey :: "BindingSpec \<Rightarrow> string" where
  "bindingKey spec =
    bs_Exchange spec @ [CHR 0x00] @ bs_Queue spec @ [CHR 0x00] @ bs_RoutingKey spec"

definition memory_SaveBinding :: "Store \<Rightarrow> Binding \<Rightarrow> error option \<times> Store" where
  "memory_SaveBinding s binding =
    (if ms_closed s then (Some ErrStoreClosed, s)
     else (None, s\<lparr>ms_bindings := mput (ms_bindings s) (bindingKey (b_Spec binding)) binding\<rparr>))"

definition memory_Bindings :: "Store \<Rightarrow> error + Binding list" where
  "memory_Bindings s = Inr (sort_key (\<lambda>b. bindingKey (b_Spec b)) (mvals (ms_bindings s)))"

definition memory_DeleteBinding :: "Store \<Rightarrow> BindingSpec \<Rightarrow> error option \<times> Store" where
  "memory_DeleteBinding s spec =
    (let key = bindingKey spec in
     if mget (ms_bindings s) key = None then (Some ErrNotFound, s)
     else (None, s\<lparr>ms_bindings := mdel (ms_bindings s) key\<rparr>))"

section \<open>Messages\<close>

text \<open>One turn of the second loop of \<open>Append\<close>.\<close>

definition append_one :: "Message \<Rightarrow> Store \<Rightarrow> Store" where
  "append_one m s =
    s\<lparr> ms_messages := mput (ms_messages s) (msg_ID m)
         \<lparr>rec_msg = m, rec_lease = zero_time, rec_consumer = []\<rparr>,
       ms_order := (ms_order s)(msg_Queue m := ms_order s (msg_Queue m) @ [msg_ID m]) \<rparr>"

definition memory_Append :: "Store \<Rightarrow> Message list \<Rightarrow> error option \<times> Store" where
  "memory_Append s messages =
    (if ms_closed s then (Some ErrStoreClosed, s)
     else if list_ex (\<lambda>m. mget (ms_messages s) (msg_ID m) \<noteq> None) messages
     then (Some ErrConflict, s)
     else (None, fold append_one messages s))"

definition memory_Message :: "Store \<Rightarrow> string \<Rightarrow> error + Message" where
  "memory_Message s mid =
    (case mget (ms_messages s) mid of None \<Rightarrow> Inl ErrNotFound | Some entry \<Rightarrow> Inr (rec_msg entry))"

definition isSettledLocked :: "Store \<Rightarrow> string \<Rightarrow> bool" where
  "isSettledLocked s mid =
    (case mget (ms_messages s) mid of
       None \<Rightarrow> True | Some entry \<Rightarrow> State_Terminal (msg_State (rec_msg entry)))"

definition compactLocked :: "Store \<Rightarrow> string \<Rightarrow> error option \<times> Store" where
  "compactLocked s queue =
    (let index = ms_order s queue;
         head = length (takeWhile (isSettledLocked s) index);
         index = drop head index;
         s = (if head > 0
              then s\<lparr> ms_order := (ms_order s)(queue := index),
                      ms_settled := (ms_settled s)(queue := max (ms_settled s queue - int head) 0) \<rparr>
              else s);
         settled = ms_settled s queue
     in if settled < compactionThreshold \<or> settled * 2 < int (length index) then (None, s)
        else if int (length index) - settled < 0
        then (Some (Panic ''makeslice: cap out of range''), s)
        else let retained = filter (\<lambda>mid. \<not> isSettledLocked s mid) index
             in (None, s\<lparr> ms_order := (ms_order s)(queue := retained),
                          ms_settled := (ms_settled s)(queue := 0) \<rparr>))"

definition claimable :: "Message \<Rightarrow> time \<Rightarrow> bool" where
  "claimable m now =
    (if msg_State m = StateQueued \<or> msg_State m = StateRetrying
     then \<not> After (msg_AvailableAt m) now else False)"

text \<open>The loop of \<open>Claim\<close> over the identifiers of the queue.\<close>

fun claim_loop ::
  "ClaimRequest \<Rightarrow> string list \<Rightarrow> (string, mem_record) gomap \<Rightarrow> Message list \<Rightarrow>
    (error + Message list) \<times> (string, mem_record) gomap" where
  "claim_loop req [] msgs claimed = (Inr claimed, msgs)"
| "claim_loop req (mid # mids) msgs claimed =
    (if int (length claimed) \<ge> cr_Limit req then (Inr claimed, msgs)
     else case mget msgs mid of
       None \<Rightarrow> claim_loop req mids msgs claimed
     | Some entry \<Rightarrow>
         if \<not> claimable (rec_msg entry) (cr_Now req) then claim_loop req mids msgs claimed
         else case (if msg_State (rec_msg entry) = StateRetrying
                    then Transition (rec_msg entry) StateQueued (cr_Now req)
                    else Inr (rec_msg entry)) of
           Inl err \<Rightarrow> (Inl err, msgs)
         | Inr m1 \<Rightarrow> (case Transition m1 StateProcessing (cr_Now req) of
             Inl err \<Rightarrow> (Inl err, mput msgs mid (entry\<lparr>rec_msg := m1\<rparr>))
           | Inr m2 \<Rightarrow>
               let m3 = m2\<lparr>msg_Attempts := msg_Attempts m2 + 1\<rparr>
               in claim_loop req mids
                    (mput msgs mid \<lparr> rec_msg = m3, rec_lease = cr_Now req + cr_Lease req,
                                     rec_consumer = cr_Consumer req \<rparr>)
                    (claimed @ [m3])))"

definition memory_Claim :: "Store \<Rightarrow> ClaimRequest \<Rightarrow> (error + Message list) \<times> Store" where
  "memory_Claim s req =
    (if ms_closed s then (Inl ErrStoreClosed, s)
     else case compactLocked s (cr_Queue req) of
       (Some err, s) \<Rightarrow> (Inl err, s)
     | (None, s) \<Rightarrow>
         if cr_Limit req < 0 then (Inl (Panic ''makeslice: cap out of range''), s)
         else let (res, msgs) = claim_loop req (ms_order s (cr_Queue req)) (ms_messages s) []
              in (res, s\<lparr>ms_messages := msgs\<rparr>))"

definition leased :: "Store \<Rightarrow> string \<Rightarrow> error + mem_record" where
  "leased s mid =
    (case mget (ms_messages s) mid of
       None \<Rightarrow> Inl ErrNotFound
     | Some entry \<Rightarrow>
         if msg_State (rec_msg entry) \<noteq> StateProcessing
         then Inl (StateError mid StateProcessing (msg_State (rec_msg entry)))
         else Inr entry)"

text \<open>Writing back the record that the code mutates through its pointer.\<close>

definition put_record :: "Store \<Rightarrow> string \<Rightarrow> mem_record \<Rightarrow> Store" where
  "put_record s mid entry = s\<lparr>ms_messages := mput (ms_messages s) mid entry\<rparr>"

definition bump_settled :: "Store \<Rightarrow> string \<Rightarrow> Store" where
  "bump_settled s queue = s\<lparr>ms_settled := (ms_settled s)(queue := ms_settled s queue + 1)\<rparr>"

definition memory_Acknowledge :: "Store \<Rightarrow> string \<Rightarrow> time \<Rightarrow> error option \<times> Store" where
  "memory_Acknowledge s mid at =
    (case leased s mid of
       Inl err \<Rightarrow> (Some err, s)
     | Inr entry \<Rightarrow> (case Transition (rec_msg entry) StateAcknowledged at of
         Inl err \<Rightarrow> (Some err, s)
       | Inr m \<Rightarrow>
           (None, put_record (bump_settled s (msg_Queue m)) mid
              \<lparr>rec_msg = m, rec_lease = zero_time, rec_consumer = []\<rparr>)))"

definition memory_ScheduleRetry :: "Store \<Rightarrow> RetryRequest \<Rightarrow> error option \<times> Store" where
  "memory_ScheduleRetry s req =
    (case leased s (rr_ID req) of
       Inl err \<Rightarrow> (Some err, s)
     | Inr entry \<Rightarrow> (case Transition (rec_msg entry) StateFailed (rr_Now req) of
         Inl err \<Rightarrow> (Some err, s)
       | Inr m1 \<Rightarrow> (case Transition m1 StateRetrying (rr_Now req) of
           Inl err \<Rightarrow> (Some err, put_record s (rr_ID req) (entry\<lparr>rec_msg := m1\<rparr>))
         | Inr m2 \<Rightarrow>
             (None, put_record s (rr_ID req)
                \<lparr> rec_msg = m2\<lparr>msg_AvailableAt := rr_AvailableAt req, msg_LastError := rr_Reason req\<rparr>,
                  rec_lease = zero_time, rec_consumer = [] \<rparr>))))"

definition memory_Release :: "Store \<Rightarrow> string \<Rightarrow> time \<Rightarrow> error option \<times> Store" where
  "memory_Release s mid at =
    (case leased s mid of
       Inl err \<Rightarrow> (Some err, s)
     | Inr entry \<Rightarrow> (case Transition (rec_msg entry) StateQueued at of
         Inl err \<Rightarrow> (Some err, s)
       | Inr m \<Rightarrow>
           (None, put_record s mid
              \<lparr>rec_msg = m\<lparr>msg_AvailableAt := at\<rparr>, rec_lease = zero_time, rec_consumer = []\<rparr>)))"

definition memory_MarkDeadLettered ::
  "Store \<Rightarrow> string \<Rightarrow> string \<Rightarrow> time \<Rightarrow> error option \<times> Store" where
  "memory_MarkDeadLettered s mid reason at =
    (case mget (ms_messages s) mid of
       None \<Rightarrow> (Some ErrNotFound, s)
     | Some entry \<Rightarrow>
         (case (if msg_State (rec_msg entry) = StateProcessing
                then Transition (rec_msg entry) StateFailed at else Inr (rec_msg entry)) of
            Inl err \<Rightarrow> (Some err, s)
          | Inr m1 \<Rightarrow> (case Transition m1 StateDeadLettered at of
              Inl err \<Rightarrow> (Some err, put_record s mid (entry\<lparr>rec_msg := m1\<rparr>))
            | Inr m2 \<Rightarrow>
                (None, put_record (bump_settled s (msg_Queue m2)) mid
                   \<lparr> rec_msg = m2\<lparr>msg_LastError := reason\<rparr>,
                     rec_lease = zero_time, rec_consumer = [] \<rparr>))))"

definition memory_ExpiredLeases :: "Store \<Rightarrow> time \<Rightarrow> int \<Rightarrow> error + Message list" where
  "memory_ExpiredLeases s now limit =
    (let live = filter (\<lambda>entry. \<not> (msg_State (rec_msg entry) \<noteq> StateProcessing \<or>
                            IsZero (rec_lease entry) \<or> After (rec_lease entry) now))
                  (mvals (ms_messages s));
         expired = sort_key msg_ID (map rec_msg live)
     in Inr (if limit > 0 \<and> int (length expired) > limit then take (nat limit) expired else expired))"

text \<open>One turn of the loop of \<open>Depth\<close>.\<close>

definition depth_step :: "Store \<Rightarrow> string \<Rightarrow> Depth \<Rightarrow> Depth" where
  "depth_step s mid depth =
    (case mget (ms_messages s) mid of
       None \<Rightarrow> depth
     | Some entry \<Rightarrow>
         (case msg_State (rec_msg entry) of
            StateQueued \<Rightarrow> depth\<lparr>d_Ready := d_Ready depth + 1\<rparr>
          | StateProcessing \<Rightarrow> depth\<lparr>d_InFlight := d_InFlight depth + 1\<rparr>
          | StateRetrying \<Rightarrow> depth\<lparr>d_Scheduled := d_Scheduled depth + 1\<rparr>
          | StateFailed \<Rightarrow> depth\<lparr>d_Scheduled := d_Scheduled depth + 1\<rparr>
          | _ \<Rightarrow> depth))"

definition memory_Depth :: "Store \<Rightarrow> string \<Rightarrow> error + Depth" where
  "memory_Depth s queue =
    (if mget (ms_queues s) queue = None then Inl ErrNotFound
     else let depth = fold (depth_step s) (ms_order s queue)
                        \<lparr>d_Ready = 0, d_InFlight = 0, d_Scheduled = 0, d_Total = 0\<rparr>
          in Inr (depth\<lparr>d_Total := d_Ready depth + d_InFlight depth + d_Scheduled depth\<rparr>))"

text \<open>The loop of \<open>Purge\<close>: the identifiers that remain, the number purged, the messages left.\<close>

fun purge_loop ::
  "string list \<Rightarrow> (string, mem_record) gomap \<Rightarrow> string list \<Rightarrow> int \<Rightarrow>
    string list \<times> int \<times> (string, mem_record) gomap" where
  "purge_loop [] msgs remaining purged = (remaining, purged, msgs)"
| "purge_loop (mid # mids) msgs remaining purged =
    (case mget msgs mid of
       None \<Rightarrow> purge_loop mids msgs remaining purged
     | Some entry \<Rightarrow>
         if State_Terminal (msg_State (rec_msg entry))
         then purge_loop mids msgs (remaining @ [mid]) purged
         else purge_loop mids (mdel msgs mid) remaining (purged + 1))"

definition memory_Purge :: "Store \<Rightarrow> string \<Rightarrow> (error + int) \<times> Store" where
  "memory_Purge s queue =
    (if mget (ms_queues s) queue = None then (Inl ErrNotFound, s)
     else let (remaining, purged, msgs) = purge_loop (ms_order s queue) (ms_messages s) [] 0
          in (Inr purged,
              s\<lparr> ms_messages := msgs,
                 ms_order := (ms_order s)(queue := remaining),
                 ms_settled := (ms_settled s)(queue := int (length remaining)) \<rparr>))"

section \<open>Dead letters and history\<close>

definition memory_SaveDeadLetter ::
  "Store \<Rightarrow> DeadLetter \<Rightarrow> string \<Rightarrow> (error + DeadLetter) \<times> Store" where
  "memory_SaveDeadLetter s entry fresh =
    (if ms_closed s then (Inl ErrStoreClosed, s)
     else let entry = (if dl_ID entry = [] then entry\<lparr>dl_ID := fresh\<rparr> else entry) in
       if mget (ms_deadLetters s) (dl_ID entry) \<noteq> None then (Inl ErrConflict, s)
       else (Inr entry, s\<lparr> ms_deadLetters := mput (ms_deadLetters s) (dl_ID entry) entry,
                           ms_deadOrder := ms_deadOrder s @ [dl_ID entry] \<rparr>))"

text \<open>The loop of \<open>DeadLetters\<close>, over the identifiers from the newest to the oldest.\<close>

fun dead_loop ::
  "Store \<Rightarrow> DeadLetterFilter \<Rightarrow> string list \<Rightarrow> DeadLetter list \<Rightarrow> int \<Rightarrow> DeadLetter list" where
  "dead_loop s filter' [] matched skipped = matched"
| "dead_loop s filter' (did # dids) matched skipped =
    (case mget (ms_deadLetters s) did of
       None \<Rightarrow> dead_loop s filter' dids matched skipped
     | Some entry \<Rightarrow>
         if df_Queue filter' \<noteq> [] \<and> dl_Queue entry \<noteq> df_Queue filter'
         then dead_loop s filter' dids matched skipped
         else if skipped < df_Offset filter' then dead_loop s filter' dids matched (skipped + 1)
         else if int (length matched) \<ge> df_Limit filter' then matched
         else dead_loop s filter' dids (matched @ [entry]) skipped)"

definition memory_DeadLetters :: "Store \<Rightarrow> DeadLetterFilter \<Rightarrow> error + DeadLetter list" where
  "memory_DeadLetters s filter' =
    Inr (dead_loop s (Normalise filter') (rev (ms_deadOrder s)) [] 0)"

definition memory_DeadLetter :: "Store \<Rightarrow> string \<Rightarrow> error + DeadLetter" where
  "memory_DeadLetter s did =
    (case mget (ms_deadLetters s) did of None \<Rightarrow> Inl ErrNotFound | Some entry \<Rightarrow> Inr entry)"

definition memory_MarkDeadLetterReplayed ::
  "Store \<Rightarrow> string \<Rightarrow> string \<Rightarrow> time \<Rightarrow> error option \<times> Store" where
  "memory_MarkDeadLetterReplayed s did replayedAs at =
    (case mget (ms_deadLetters s) did of
       None \<Rightarrow> (Some ErrNotFound, s)
     | Some entry \<Rightarrow>
         (None, s\<lparr>ms_deadLetters := mput (ms_deadLetters s) did
            (entry\<lparr> dl_ReplayedAs := replayedAs, dl_ReplayedAt := at,
                    dl_ReplayCount := dl_ReplayCount entry + 1 \<rparr>)\<rparr>))"

definition memory_DeleteDeadLetter :: "Store \<Rightarrow> string \<Rightarrow> error option \<times> Store" where
  "memory_DeleteDeadLetter s did =
    (if mget (ms_deadLetters s) did = None then (Some ErrNotFound, s)
     else (None, s\<lparr> ms_deadLetters := mdel (ms_deadLetters s) did,
                    ms_deadOrder := remove1 did (ms_deadOrder s) \<rparr>))"

definition memory_CountDeadLetters :: "Store \<Rightarrow> string \<Rightarrow> error + int" where
  "memory_CountDeadLetters s queue =
    Inr (int (length (filter (\<lambda>entry. queue = [] \<or> dl_Queue entry = queue)
                (mvals (ms_deadLetters s)))))"

definition memory_AppendHistory :: "Store \<Rightarrow> HistoryEvent \<Rightarrow> error option \<times> Store" where
  "memory_AppendHistory s event =
    (if ms_closed s then (Some ErrStoreClosed, s)
     else (None, s\<lparr>ms_history := (ms_history s)
             (he_MessageID event := ms_history s (he_MessageID event) @ [event])\<rparr>))"

definition memory_History :: "Store \<Rightarrow> string \<Rightarrow> error + HistoryEvent list" where
  "memory_History s mid = Inr (ms_history s mid)"

section \<open>The interface table\<close>

definition memory_store :: "Store store_ops" where
  "memory_store =
    \<lparr> so_SaveExchange = memory_SaveExchange, so_Exchanges = memory_Exchanges,
      so_SaveQueue = memory_SaveQueue, so_Queues = memory_Queues,
      so_DeleteQueue = memory_DeleteQueue, so_SaveBinding = memory_SaveBinding,
      so_Bindings = memory_Bindings, so_DeleteBinding = memory_DeleteBinding,
      so_Append = memory_Append, so_Message = memory_Message, so_Claim = memory_Claim,
      so_Acknowledge = memory_Acknowledge, so_ScheduleRetry = memory_ScheduleRetry,
      so_Release = memory_Release, so_MarkDeadLettered = memory_MarkDeadLettered,
      so_ExpiredLeases = memory_ExpiredLeases, so_Depth = memory_Depth, so_Purge = memory_Purge,
      so_SaveDeadLetter = memory_SaveDeadLetter, so_DeadLetters = memory_DeadLetters,
      so_DeadLetter = memory_DeadLetter,
      so_MarkDeadLetterReplayed = memory_MarkDeadLetterReplayed,
      so_DeleteDeadLetter = memory_DeleteDeadLetter,
      so_CountDeadLetters = memory_CountDeadLetters,
      so_AppendHistory = memory_AppendHistory, so_History = memory_History,
      so_Close = memory_Close \<rparr>"

end
