(* ===== verification/MemoryLaws.thy ===== *)
theory MemoryLaws
  imports MemoryStore StoreSpec
begin

text \<open>
  The in-memory store keeps its invariant and refines the specification.
\<close>

section \<open>The invariant\<close>

definition rec_ok :: "Store \<Rightarrow> string \<Rightarrow> mem_record \<Rightarrow> bool" where
  "rec_ok s mid e \<longleftrightarrow> msg_ID (rec_msg e) = mid \<and> State_Valid (msg_State (rec_msg e)) \<and>
    (msg_State (rec_msg e) \<noteq> StateProcessing \<longrightarrow> rec_lease e = zero_time \<and> rec_consumer e = []) \<and>
    (\<not> State_Terminal (msg_State (rec_msg e)) \<longrightarrow> mid \<in> set (ms_order s (msg_Queue (rec_msg e))))"

definition queue_ok :: "Store \<Rightarrow> string \<Rightarrow> bool" where
  "queue_ok s q \<longleftrightarrow> distinct (ms_order s q) \<and>
    (\<forall>mid\<in>set (ms_order s q). \<exists>e. mget (ms_messages s) mid = Some e \<and> msg_Queue (rec_msg e) = q) \<and>
    ms_settled s q = int (length (filter (isSettledLocked s) (ms_order s q)))"

definition dead_ok :: "Store \<Rightarrow> bool" where
  "dead_ok s \<longleftrightarrow> mwf (ms_deadLetters s) \<and> distinct (ms_deadOrder s) \<and>
    set (ms_deadOrder s) = set (mkeys (ms_deadLetters s)) \<and>
    (\<forall>did d. mget (ms_deadLetters s) did = Some d \<longrightarrow> dl_ID d = did)"

definition msgs_ok :: "Store \<Rightarrow> bool" where
  "msgs_ok s \<longleftrightarrow> mwf (ms_messages s) \<and>
    (\<forall>mid e. mget (ms_messages s) mid = Some e \<longrightarrow> rec_ok s mid e) \<and> (\<forall>q. queue_ok s q)"

definition store_ok :: "Store \<Rightarrow> bool" where
  "store_ok s \<longleftrightarrow> msgs_ok s \<and> dead_ok s"

lemma msgs_okD:
  assumes "msgs_ok s"
  shows "mwf (ms_messages s)"
    and "\<And>mid e. mget (ms_messages s) mid = Some e \<Longrightarrow> rec_ok s mid e"
    and "\<And>q. queue_ok s q"
  using assms unfolding msgs_ok_def by blast+

lemma msgs_okI:
  assumes "mwf (ms_messages s)"
    and "\<And>mid e. mget (ms_messages s) mid = Some e \<Longrightarrow> rec_ok s mid e"
    and "\<And>q. queue_ok s q"
  shows "msgs_ok s"
  using assms unfolding msgs_ok_def by blast

lemma memory_New_ok: "store_ok memory_New"
  by (simp add: store_ok_def msgs_ok_def queue_ok_def dead_ok_def memory_New_def)

text \<open>What the invariant reads of the store.\<close>

lemma isSettled_cong: "ms_messages s' = ms_messages s \<Longrightarrow> isSettledLocked s' = isSettledLocked s"
  by (simp add: isSettledLocked_def fun_eq_iff)

lemma msgs_ok_cong:
  "ms_messages s' = ms_messages s \<Longrightarrow> ms_order s' = ms_order s \<Longrightarrow> ms_settled s' = ms_settled s \<Longrightarrow>
    msgs_ok s' = msgs_ok s"
  by (simp add: msgs_ok_def queue_ok_def rec_ok_def isSettled_cong [of s' s])

lemma dead_ok_cong:
  "ms_deadLetters s' = ms_deadLetters s \<Longrightarrow> ms_deadOrder s' = ms_deadOrder s \<Longrightarrow> dead_ok s' = dead_ok s"
  by (simp add: dead_ok_def)

section \<open>Changing one record\<close>

definition settles :: "mem_record \<Rightarrow> bool" where
  "settles e \<longleftrightarrow> State_Terminal (msg_State (rec_msg e))"

lemma isSettled_put:
  "isSettledLocked (put_record s mid e) i = (if i = mid then settles e else isSettledLocked s i)"
  by (simp add: isSettledLocked_def put_record_def settles_def)

lemma put_record_simps [simp]:
  "ms_messages (put_record s mid e) = mput (ms_messages s) mid e"
  "ms_order (put_record s mid e) = ms_order s"
  "ms_settled (put_record s mid e) = ms_settled s"
  "ms_deadLetters (put_record s mid e) = ms_deadLetters s"
  "ms_deadOrder (put_record s mid e) = ms_deadOrder s"
  "ms_closed (put_record s mid e) = ms_closed s"
  "ms_exchanges (put_record s mid e) = ms_exchanges s"
  "ms_queues (put_record s mid e) = ms_queues s"
  "ms_bindings (put_record s mid e) = ms_bindings s"
  "ms_history (put_record s mid e) = ms_history s"
  by (simp_all add: put_record_def)

lemma bump_settled_simps [simp]:
  "ms_messages (bump_settled s q) = ms_messages s"
  "ms_order (bump_settled s q) = ms_order s"
  "ms_settled (bump_settled s q) = (ms_settled s)(q := ms_settled s q + 1)"
  "ms_deadLetters (bump_settled s q) = ms_deadLetters s"
  "ms_deadOrder (bump_settled s q) = ms_deadOrder s"
  "ms_closed (bump_settled s q) = ms_closed s"
  "ms_exchanges (bump_settled s q) = ms_exchanges s"
  "ms_queues (bump_settled s q) = ms_queues s"
  "ms_bindings (bump_settled s q) = ms_bindings s"
  "ms_history (bump_settled s q) = ms_history s"
  by (simp_all add: bump_settled_def)

lemma isSettled_bump [simp]: "isSettledLocked (bump_settled s q) = isSettledLocked s"
  by (simp add: isSettledLocked_def fun_eq_iff)

text \<open>The record of a live message is replaced; the queue's counter moves exactly when the new
  record is settled.\<close>

definition replace :: "Store \<Rightarrow> string \<Rightarrow> mem_record \<Rightarrow> Store" where
  "replace s mid e =
    put_record (if settles e then bump_settled s (msg_Queue (rec_msg e)) else s) mid e"

lemma length_filter_flip:
  "distinct xs \<Longrightarrow> \<not> P x \<Longrightarrow>
    length (filter (\<lambda>i. if i = x then b else P i) xs) =
    length (filter P xs) + (if x \<in> set xs \<and> b then 1 else 0)"
  by (induction xs) auto

lemma replace_ok:
  assumes "msgs_ok s" and "mget (ms_messages s) mid = Some e" and "\<not> settles e"
    and "rec_ok s mid e'" and "msg_Queue (rec_msg e') = msg_Queue (rec_msg e)"
  shows "msgs_ok (replace s mid e')"
proof (rule msgs_okI)
  show "mwf (ms_messages (replace s mid e'))"
    using msgs_okD(1) [OF assms(1)] by (simp add: replace_def)
  show "rec_ok (replace s mid e') i r" if "mget (ms_messages (replace s mid e')) i = Some r" for i r
    using that assms(4) msgs_okD(2) [OF assms(1), of i r]
    by (auto simp: replace_def rec_ok_def split: if_splits)
  show "queue_ok (replace s mid e') q" for q
  proof -
    have ok: "queue_ok s q" by (rule msgs_okD(3) [OF assms(1)])
    have live: "\<not> isSettledLocked s mid" "mid \<in> set (ms_order s (msg_Queue (rec_msg e)))"
      using assms(2,3) msgs_okD(2) [OF assms(1,2)]
      by (auto simp: isSettledLocked_def settles_def rec_ok_def)
    have "q = msg_Queue (rec_msg e)" if "mid \<in> set (ms_order s q)"
      using ok that assms(2) by (auto simp: queue_ok_def)
    then have in_q: "mid \<in> set (ms_order s q) \<longleftrightarrow> q = msg_Queue (rec_msg e)" using live by auto
    have eq: "isSettledLocked (replace s mid e') =
        (\<lambda>i. if i = mid then settles e' else isSettledLocked s i)"
      by (simp add: replace_def isSettled_put fun_eq_iff)
    have "distinct (ms_order s q)" using ok by (simp add: queue_ok_def)
    note flip = length_filter_flip [of _ "isSettledLocked s" mid "settles e'", OF this live(1)]
    show ?thesis
      unfolding queue_ok_def eq
      using ok in_q assms(2,5) flip
      by (auto simp: queue_ok_def replace_def)
  qed
qed

section \<open>The simulation\<close>

definition entry_of :: "mem_record \<Rightarrow> Entry" where
  "entry_of r = \<lparr>en_msg = rec_msg r, en_lease = rec_lease r, en_consumer = rec_consumer r\<rparr>"

lemma entry_of_simps [simp]:
  "en_msg (entry_of r) = rec_msg r" "en_lease (entry_of r) = rec_lease r"
  "en_consumer (entry_of r) = rec_consumer r"
  by (simp_all add: entry_of_def)

definition live_ids :: "Store \<Rightarrow> string \<Rightarrow> string list" where
  "live_ids s q = filter (\<lambda>i. \<not> isSettledLocked s i) (ms_order s q)"

definition msgs_sim :: "Store \<Rightarrow> Entry list \<Rightarrow> bool" where
  "msgs_sim s es \<longleftrightarrow> msgs_ok s \<and> distinct (map en_ID es) \<and>
    (\<forall>mid. entry_at es mid = map_option entry_of (mget (ms_messages s) mid)) \<and>
    (\<forall>q. live_ids s q = map en_ID (filter (unsettled q) es))"

lemma msgs_simD:
  assumes "msgs_sim s es"
  shows "msgs_ok s" and "distinct (map en_ID es)"
    and "\<And>mid. entry_at es mid = map_option entry_of (mget (ms_messages s) mid)"
    and "\<And>q. live_ids s q = map en_ID (filter (unsettled q) es)"
  using assms unfolding msgs_sim_def by blast+

lemma msgs_simI:
  assumes "msgs_ok s" and "distinct (map en_ID es)"
    and "\<And>mid. entry_at es mid = map_option entry_of (mget (ms_messages s) mid)"
    and "\<And>q. live_ids s q = map en_ID (filter (unsettled q) es)"
  shows "msgs_sim s es"
  using assms unfolding msgs_sim_def by blast

lemma msgs_sim_cong:
  assumes "ms_messages s' = ms_messages s" "ms_order s' = ms_order s" "ms_settled s' = ms_settled s"
  shows "msgs_sim s' es = msgs_sim s es"
  using assms msgs_ok_cong [OF assms] isSettled_cong [OF assms(1)]
  by (simp add: msgs_sim_def live_ids_def)

lemma entry_at_Some: "entry_at es mid = Some e \<Longrightarrow> e \<in> set es \<and> en_ID e = mid"
  by (auto simp: entry_at_def find_Some_iff)

lemma entry_at_mem: "distinct (map en_ID es) \<Longrightarrow> e \<in> set es \<Longrightarrow> entry_at es (en_ID e) = Some e"
  by (induction es) (auto simp: entry_at_def)

lemma entry_at_None: "entry_at es mid = None \<longleftrightarrow> mid \<notin> set (map en_ID es)"
  by (auto simp: entry_at_def find_None_iff)

lemma set_entry_IDs: "en_ID e' = mid \<Longrightarrow> map en_ID (set_entry es mid e') = map en_ID es"
  by (auto simp: set_entry_def)

lemma entry_at_set_entry:
  "en_ID e' = mid \<Longrightarrow> entry_at (set_entry es mid e') i =
    (if i = mid \<and> entry_at es mid \<noteq> None then Some e' else entry_at es i)"
  by (induction es) (auto simp: entry_at_def set_entry_def)

lemma unsettled_set_entry:
  assumes "en_ID e' = mid" and "\<forall>x\<in>set es. en_ID x = mid \<longrightarrow> unsettled (en_Queue e') x"
  shows "map en_ID (filter (unsettled q) (set_entry es mid e')) =
    filter (\<lambda>i. i = mid \<longrightarrow> \<not> State_Terminal (en_State e')) (map en_ID (filter (unsettled q) es))"
  using assms by (induction es) (auto simp: set_entry_def unsettled_def)

lemma replace_sim:
  assumes sim: "msgs_sim s es" and e: "mget (ms_messages s) mid = Some e" and "\<not> settles e"
    and ok: "rec_ok s mid e'" and q: "msg_Queue (rec_msg e') = msg_Queue (rec_msg e)"
  shows "msgs_sim (replace s mid e') (set_entry es mid (entry_of e'))"
proof (rule msgs_simI)
  note D = msgs_simD [OF sim]
  have mid: "en_ID (entry_of e') = mid" using ok by (simp add: rec_ok_def)
  show "msgs_ok (replace s mid e')" by (rule replace_ok [OF D(1) e assms(3) ok q])
  show "distinct (map en_ID (set_entry es mid (entry_of e')))"
    using D(2) by (simp only: set_entry_IDs [OF mid])
  show "entry_at (set_entry es mid (entry_of e')) i =
      map_option entry_of (mget (ms_messages (replace s mid e')) i)" for i
    using D(3) [of i] D(3) [of mid] e
    by (simp only: entry_at_set_entry [OF mid]) (simp add: replace_def)
  have at: "entry_at es mid = Some (entry_of e)" using D(3) [of mid] e by simp
  have "x = entry_of e" if "x \<in> set es" "en_ID x = mid" for x
    using entry_at_mem [OF D(2) that(1)] that(2) at by simp
  moreover have "unsettled (en_Queue (entry_of e')) (entry_of e)"
    using assms(3) q by (simp add: unsettled_def settles_def)
  ultimately have un: "\<forall>x\<in>set es. en_ID x = mid \<longrightarrow> unsettled (en_Queue (entry_of e')) x"
    by blast
  have live: "\<not> isSettledLocked s mid"
    using e assms(3) by (simp add: isSettledLocked_def settles_def)
  show "live_ids (replace s mid e') q' =
      map en_ID (filter (unsettled q') (set_entry es mid (entry_of e')))" for q'
    unfolding unsettled_set_entry [OF mid un] D(4) [symmetric]
    using live
    by (auto simp: live_ids_def replace_def isSettled_put settles_def intro!: filter_cong)
qed

text \<open>One message is changed by a function that leaves identity and queue alone and is not
  applied to a settled message; its lease ends.\<close>

definition mem_update :: "Store \<Rightarrow> string \<Rightarrow> (Message \<Rightarrow> error + Message) \<Rightarrow> error option \<times> Store" where
  "mem_update s mid f =
    (case mget (ms_messages s) mid of
       None \<Rightarrow> (Some ErrNotFound, s)
     | Some e \<Rightarrow> (case f (rec_msg e) of
         Inl err \<Rightarrow> (Some err, s)
       | Inr m \<Rightarrow> (None, replace s mid \<lparr>rec_msg = m, rec_lease = zero_time, rec_consumer = []\<rparr>)))"

definition ends_lease :: "(Message \<Rightarrow> error + Message) \<Rightarrow> bool" where
  "ends_lease f \<longleftrightarrow> (\<forall>m m'. f m = Inr m' \<longrightarrow> \<not> State_Terminal (msg_State m) \<and>
     msg_ID m' = msg_ID m \<and> msg_Queue m' = msg_Queue m \<and>
     State_Valid (msg_State m') \<and> msg_State m' \<noteq> StateProcessing)"

lemma update_sim:
  assumes "msgs_sim s (sp_entries a)" and "ends_lease f"
  shows "fst (mem_update s mid f) = fst (spec_update a mid f) \<and>
    msgs_sim (snd (mem_update s mid f)) (sp_entries (snd (spec_update a mid f)))"
proof (cases "mget (ms_messages s) mid")
  case None
  then show ?thesis
    using assms(1) msgs_simD(3) [OF assms(1), of mid] by (simp add: mem_update_def spec_update_def)
next
  case (Some e)
  have at: "entry_at (sp_entries a) mid = Some (entry_of e)"
    using msgs_simD(3) [OF assms(1), of mid] Some by simp
  show ?thesis
  proof (cases "f (rec_msg e)")
    case (Inl err)
    then show ?thesis using Some at assms(1) by (simp add: mem_update_def spec_update_def)
  next
    case (Inr m)
    let ?e = "\<lparr>rec_msg = m, rec_lease = zero_time, rec_consumer = []\<rparr>"
    have f: "\<not> settles e" "msg_ID m = msg_ID (rec_msg e)" "msg_Queue m = msg_Queue (rec_msg e)"
      "State_Valid (msg_State m)" "msg_State m \<noteq> StateProcessing"
      using assms(2) Inr by (auto simp: ends_lease_def settles_def)
    have "rec_ok s mid e" by (rule msgs_okD(2) [OF msgs_simD(1) [OF assms(1)] Some])
    then have "rec_ok s mid ?e" using f by (simp add: rec_ok_def settles_def)
    then have "msgs_sim (replace s mid ?e) (set_entry (sp_entries a) mid (entry_of ?e))"
      by (intro replace_sim [OF assms(1) Some]) (use f in simp_all)
    then show ?thesis
      using Some at Inr by (simp add: mem_update_def spec_update_def entry_of_def)
  qed
qed

section \<open>Acknowledging, retrying, releasing and burying\<close>

lemma ends_lease_ops:
  "ends_lease (\<lambda>m. if_leased m (acked_msg at m))"
  "ends_lease (\<lambda>m. if_leased m (retry_msg req m))"
  "ends_lease (\<lambda>m. if_leased m (released_msg at m))"
  "ends_lease (\<lambda>m. if msg_State m \<in> {StateProcessing, StateFailed} then Inr (buried_msg reason at m)
     else Inl (InvalidTransitionError (msg_State m) StateDeadLettered))"
  by (auto simp: ends_lease_def if_leased_def msg_change_defs State_Valid_def split: if_splits)

lemma rec_ID: "msgs_ok s \<Longrightarrow> mget (ms_messages s) mid = Some e \<Longrightarrow> msg_ID (rec_msg e) = mid"
  using msgs_okD(2) by (fastforce simp: rec_ok_def)

lemma Acknowledge_update:
  assumes "msgs_ok s"
  shows "memory_Acknowledge s mid at = mem_update s mid (\<lambda>m. if_leased m (acked_msg at m))"
  using rec_ID [OF assms]
  by (auto simp: memory_Acknowledge_def mem_update_def leased_def if_leased_def acked_msg_def
      replace_def settles_def split: option.split)

lemma ScheduleRetry_update:
  assumes "msgs_ok s"
  shows "memory_ScheduleRetry s req = mem_update s (rr_ID req) (\<lambda>m. if_leased m (retry_msg req m))"
  using rec_ID [OF assms]
  by (auto simp: memory_ScheduleRetry_def mem_update_def leased_def if_leased_def retry_msg_def
      replace_def settles_def split: option.split)

lemma Release_update:
  assumes "msgs_ok s"
  shows "memory_Release s mid at = mem_update s mid (\<lambda>m. if_leased m (released_msg at m))"
  using rec_ID [OF assms]
  by (auto simp: memory_Release_def mem_update_def leased_def if_leased_def released_msg_def
      replace_def settles_def split: option.split)

lemma put_record_same: "mget (ms_messages s) mid = Some e \<Longrightarrow> put_record s mid e = s"
proof -
  have "mget m k = Some v \<Longrightarrow> mput m k v = m" for m :: "(string, mem_record) gomap" and k v
    by (induction m) (auto split: if_splits)
  then show "mget (ms_messages s) mid = Some e \<Longrightarrow> put_record s mid e = s"
    by (simp add: put_record_def)
qed

lemma MarkDeadLettered_update:
  "memory_MarkDeadLettered s mid reason at = mem_update s mid (\<lambda>m.
     if msg_State m \<in> {StateProcessing, StateFailed} then Inr (buried_msg reason at m)
     else Inl (InvalidTransitionError (msg_State m) StateDeadLettered))"
proof (cases "mget (ms_messages s) mid")
  case None
  then show ?thesis by (simp add: memory_MarkDeadLettered_def mem_update_def)
next
  case (Some e)
  have "Transition (rec_msg e) StateDeadLettered at =
      Inl (InvalidTransitionError (msg_State (rec_msg e)) StateDeadLettered)"
    if "msg_State (rec_msg e) \<noteq> StateFailed"
    using that by (simp add: Transition_def State_Valid_def CanTransitionTo_iff)
  with Some show ?thesis
    by (auto simp: memory_MarkDeadLettered_def mem_update_def buried_msg_def replace_def settles_def
        put_record_same)
qed

section \<open>Compaction\<close>

text \<open>Dropping settled identifiers from one queue and counting again.\<close>

definition reindexed :: "Store \<Rightarrow> string \<Rightarrow> string list \<Rightarrow> Store" where
  "reindexed s q ids = s\<lparr> ms_order := (ms_order s)(q := ids),
     ms_settled := (ms_settled s)(q := int (length (filter (isSettledLocked s) ids))) \<rparr>"

lemma reindexed_sim:
  assumes sim: "msgs_sim s es" and "set ids \<subseteq> set (ms_order s q)" and "distinct ids"
    and live: "filter (\<lambda>i. \<not> isSettledLocked s i) ids = live_ids s q"
  shows "msgs_sim (reindexed s q ids) es"
proof -
  note ok = msgs_okD [OF msgs_simD(1) [OF sim]]
  have settled: "isSettledLocked (reindexed s q ids) = isSettledLocked s"
    by (rule isSettled_cong) (simp add: reindexed_def)
  have keep: "mid \<in> set ids" if "mid \<in> set (ms_order s q)" "\<not> isSettledLocked s mid" for mid
  proof -
    have "mid \<in> set (live_ids s q)" using that by (simp add: live_ids_def)
    then show ?thesis unfolding live [symmetric] by simp
  qed
  have "msgs_ok (reindexed s q ids)"
  proof (rule msgs_okI)
    show "rec_ok (reindexed s q ids) mid e"
      if "mget (ms_messages (reindexed s q ids)) mid = Some e" for mid e
    proof -
      have e: "mget (ms_messages s) mid = Some e" using that by (simp add: reindexed_def)
      show ?thesis
        using ok(2) [OF e] keep [of mid] e
        by (cases "msg_Queue (rec_msg e) = q") (simp_all add: rec_ok_def reindexed_def isSettledLocked_def)
    qed
    show "queue_ok (reindexed s q ids) q'" for q'
    proof (cases "q' = q")
      case True
      with ok(3) [of q] assms(2,3) show ?thesis
        unfolding queue_ok_def settled by (simp add: reindexed_def subset_iff)
    next
      case False
      with ok(3) [of q'] show ?thesis unfolding queue_ok_def settled by (simp add: reindexed_def)
    qed
  qed (use ok(1) in \<open>simp add: reindexed_def\<close>)
  moreover have "live_ids (reindexed s q ids) q' = live_ids s q'" for q'
    using live unfolding live_ids_def settled by (simp add: reindexed_def)
  moreover have "ms_messages (reindexed s q ids) = ms_messages s" by (simp add: reindexed_def)
  ultimately show ?thesis
    using sim unfolding msgs_sim_def by simp
qed

lemma compact_reindexes:
  assumes "msgs_ok s"
  obtains ids where "compactLocked s q = (None, reindexed s q ids)"
    and "set ids \<subseteq> set (ms_order s q)" and "distinct ids"
    and "filter (\<lambda>i. \<not> isSettledLocked s i) ids = live_ids s q"
    and "ms_settled (reindexed s q ids) q < compactionThreshold \<or>
      ms_settled (reindexed s q ids) q * 2 < int (length ids)"
proof -
  let ?P = "isSettledLocked s" and ?ids = "ms_order s q"
  let ?tail = "dropWhile ?P ?ids" and ?live = "filter (\<lambda>i. \<not> ?P i) ?ids"
  have q: "distinct ?ids" "ms_settled s q = int (length (filter ?P ?ids))"
    using msgs_okD(3) [OF assms, of q] by (simp_all add: queue_ok_def)
  have tail: "drop (length (takeWhile ?P ?ids)) ?ids = ?tail"
    by (metis dropWhile_eq_drop)
  have flt: "filter (\<lambda>i. \<not> ?P i) ?tail = ?live" by (rule filter_dropWhile_neg)
  have cnt: "int (length (filter ?P ?tail)) = max (ms_settled s q - int (length (takeWhile ?P ?ids))) 0"
    using length_filter_dropWhile [of ?P ?ids] q(2) by simp
  have head: "(if length (takeWhile ?P ?ids) > 0
      then s\<lparr> ms_order := (ms_order s)(q := ?tail),
              ms_settled := (ms_settled s)(q := max (ms_settled s q - int (length (takeWhile ?P ?ids))) 0) \<rparr>
      else s) = reindexed s q ?tail"
  proof (cases "length (takeWhile ?P ?ids) > 0")
    case True
    then show ?thesis unfolding reindexed_def cnt by simp
  next
    case False
    then have "?tail = ?ids" by (simp add: dropWhile_eq_self_iff takeWhile_eq_Nil_iff)
    with False show ?thesis by (simp add: reindexed_def q(2) [symmetric])
  qed
  let ?n = "int (length (filter ?P ?tail))"
  have s1: "ms_settled (reindexed s q ?tail) q = ?n" by (simp add: reindexed_def)
  have s2: "isSettledLocked (reindexed s q ?tail) = ?P"
    by (rule isSettled_cong) (simp add: reindexed_def)
  have compact: "compactLocked s q =
      (if ?n < compactionThreshold \<or> ?n * 2 < int (length ?tail) then (None, reindexed s q ?tail)
       else (None, reindexed s q ?live))"
    unfolding compactLocked_def Let_def tail head s1 s2
    by (simp add: reindexed_def flt leD [OF length_filter_le])
  show ?thesis
  proof (cases "?n < compactionThreshold \<or> ?n * 2 < int (length ?tail)")
    case True
    have "set ?tail \<subseteq> set ?ids" "distinct ?tail"
      using q(1) by (auto dest: set_dropWhileD)
    with True compact flt s1 show ?thesis by (intro that [of ?tail]) (simp_all add: live_ids_def)
  next
    case False
    with compact q(1) show ?thesis
      by (intro that [of ?live]) (simp_all add: live_ids_def reindexed_def compactionThreshold_def)
  qed
qed

end
