(* ===== verification/MemoryClaim.thy ===== *)
theory MemoryClaim
  imports MemoryLaws
begin

text \<open>
  Claiming and appending in the in-memory store: the loop of \<open>Claim\<close> takes the first claimable
  identifiers of the queue, and both operations keep the simulation with the specification.
\<close>

section \<open>Claiming\<close>

definition claimed_rec :: "ClaimRequest \<Rightarrow> mem_record \<Rightarrow> mem_record" where
  "claimed_rec req r = \<lparr> rec_msg = claimed_msg req (rec_msg r),
     rec_lease = cr_Now req + cr_Lease req, rec_consumer = cr_Consumer req \<rparr>"

lemma claimable_ready: "claimable m now \<longleftrightarrow> ready m now"
  by (auto simp: claimable_def ready_def)

definition claimable_in :: "(string, mem_record) gomap \<Rightarrow> time \<Rightarrow> string \<Rightarrow> bool" where
  "claimable_in msgs now mid =
    (case mget msgs mid of None \<Rightarrow> False | Some e \<Rightarrow> claimable (rec_msg e) now)"

lemma claim_loop_take:
  assumes "int (length claimed) < cr_Limit req" and "mget msgs mid = Some e"
    and "claimable (rec_msg e) (cr_Now req)"
  shows "claim_loop req (mid # mids) msgs claimed =
    claim_loop req mids (mput msgs mid (claimed_rec req e)) (claimed @ [claimed_msg req (rec_msg e)])"
  using assms
  by (auto simp: claimable_def claimed_rec_def claimed_msg_def Let_def split: if_splits)

lemma claim_loop_skip:
  "int (length claimed) < cr_Limit req \<Longrightarrow> \<not> claimable_in msgs (cr_Now req) mid \<Longrightarrow>
    claim_loop req (mid # mids) msgs claimed = claim_loop req mids msgs claimed"
  by (cases "mget msgs mid") (simp_all add: claimable_in_def)

lemma claim_loop_stop:
  "int (length claimed) \<ge> cr_Limit req \<Longrightarrow> claim_loop req mids msgs claimed = (Inr claimed, msgs)"
  by (cases mids) auto

text \<open>The loop takes the first claimable identifiers, as many as the limit leaves room for.\<close>

lemma claim_loop_spec:
  assumes "distinct mids"
  shows "claim_loop req mids msgs claimed =
    (let sel = take (nat (cr_Limit req - int (length claimed)))
                 (filter (claimable_in msgs (cr_Now req)) mids)
     in (Inr (claimed @ map (\<lambda>i. claimed_msg req (rec_msg (the (mget msgs i)))) sel),
         fold (\<lambda>i m. mput m i (claimed_rec req (the (mget msgs i)))) sel msgs))"
  using assms
proof (induction mids arbitrary: msgs claimed)
  case Nil
  then show ?case by simp
next
  case (Cons mid mids)
  show ?case
  proof (cases "cr_Limit req \<le> int (length claimed)")
    case True
    then show ?thesis by (simp add: claim_loop_stop)
  next
    case room: False
    show ?thesis
    proof (cases "claimable_in msgs (cr_Now req) mid")
      case False
      with room Cons show ?thesis by (simp add: claim_loop_skip del: claim_loop.simps)
    next
      case True
      then obtain e where e: "mget msgs mid = Some e" "claimable (rec_msg e) (cr_Now req)"
        by (auto simp: claimable_in_def split: option.splits)
      let ?msgs = "mput msgs mid (claimed_rec req e)"
      have same: "mget ?msgs i = mget msgs i" if "i \<in> set mids" for i
        using that Cons.prems by auto
      then have sel: "filter (claimable_in ?msgs (cr_Now req)) mids =
          filter (claimable_in msgs (cr_Now req)) mids"
        by (intro filter_cong) (simp_all add: claimable_in_def)
      let ?m = "claimed_msg req (rec_msg e)"
      define n where "n = nat (cr_Limit req - int (length (claimed @ [?m])))"
      have n: "nat (cr_Limit req - int (length claimed)) = Suc n"
        using room by (simp add: n_def)
      let ?sel = "take n (filter (claimable_in msgs (cr_Now req)) mids)"
      have in_mids: "set ?sel \<subseteq> set mids" by (auto dest: in_set_takeD)
      have f: "fold (\<lambda>i m. mput m i (claimed_rec req (the (mget ?msgs i)))) ?sel m =
          fold (\<lambda>i m. mput m i (claimed_rec req (the (mget msgs i)))) ?sel m" for m
        using in_mids same by (intro fold_cong) (auto simp del: gomap_simps)
      have g: "map (\<lambda>i. claimed_msg req (rec_msg (the (mget ?msgs i)))) ?sel =
          map (\<lambda>i. claimed_msg req (rec_msg (the (mget msgs i)))) ?sel"
        using in_mids same by (auto simp del: gomap_simps)
      have "claim_loop req (mid # mids) msgs claimed =
          claim_loop req mids ?msgs (claimed @ [claimed_msg req (rec_msg e)])"
        using room e by (intro claim_loop_take) auto
      also have "\<dots> = (Inr ((claimed @ [claimed_msg req (rec_msg e)]) @
            map (\<lambda>i. claimed_msg req (rec_msg (the (mget msgs i)))) ?sel),
          fold (\<lambda>i m. mput m i (claimed_rec req (the (mget msgs i)))) ?sel ?msgs)"
        using Cons.prems unfolding Let_def
        by (subst Cons.IH) (simp_all only: Let_def sel f g n_def [symmetric] distinct.simps)
      finally show ?thesis
        using True e(1) by (simp add: n Let_def del: claim_loop.simps)
    qed
  qed
qed

text \<open>Claiming record by record keeps the simulation.\<close>

definition rec_of :: "Entry \<Rightarrow> mem_record" where
  "rec_of e = \<lparr>rec_msg = en_msg e, rec_lease = en_lease e, rec_consumer = en_consumer e\<rparr>"

lemma rec_entry [simp]: "rec_of (entry_of r) = r" "entry_of (rec_of e) = e"
  by (simp_all add: rec_of_def entry_of_def)

lemma rec_of_sel [simp]: "rec_msg (rec_of e) = en_msg e"
  by (simp add: rec_of_def)

lemma sim_record:
  "msgs_sim s es \<Longrightarrow> entry_at es mid = Some e \<Longrightarrow> mget (ms_messages s) mid = Some (rec_of e)"
  using msgs_simD(3) [of s es mid] by (cases "mget (ms_messages s) mid") auto

lemma claimed_entry_msg [simp]:
  "en_msg (claimed_entry req e) = claimed_msg req (en_msg e)"
  by (simp add: claimed_entry_def)

lemma claimed_msg_sel [simp]:
  "msg_ID (claimed_msg req m) = msg_ID m" "msg_Queue (claimed_msg req m) = msg_Queue m"
  "msg_State (claimed_msg req m) = StateProcessing"
  by (simp_all add: claimed_msg_def)

lemma claim_fold_sim:
  assumes "msgs_sim s es" and "distinct (map en_ID sel)"
    and "\<forall>e\<in>set sel. entry_at es (en_ID e) = Some e \<and> \<not> State_Terminal (en_State e)"
  shows "msgs_sim (s\<lparr>ms_messages := fold (\<lambda>e m. mput m (en_ID e) (rec_of (claimed_entry req e)))
        sel (ms_messages s)\<rparr>)
      (fold (\<lambda>e es. set_entry es (en_ID e) (claimed_entry req e)) sel es)"
  using assms
proof (induction sel arbitrary: s es)
  case Nil
  then show ?case by simp
next
  case (Cons e sel)
  let ?e = "claimed_entry req e"
  let ?s = "put_record s (en_ID e) (rec_of ?e)" and ?es = "set_entry es (en_ID e) ?e"
  have at: "entry_at es (en_ID e) = Some e" "\<not> State_Terminal (en_State e)"
    using Cons.prems(3) by simp_all
  then have r: "mget (ms_messages s) (en_ID e) = Some (rec_of e)"
    by (intro sim_record [OF Cons.prems(1)])
  have "rec_ok s (en_ID e) (rec_of e)"
    by (rule msgs_okD(2) [OF msgs_simD(1) [OF Cons.prems(1)] r])
  then have ok: "rec_ok s (en_ID e) (rec_of ?e)"
    using at(2) by (simp add: rec_ok_def State_Valid_def)
  have rep: "replace s (en_ID e) (rec_of ?e) = ?s" by (simp add: replace_def settles_def)
  have "msgs_sim ?s ?es"
    using replace_sim [OF Cons.prems(1) r _ ok] at(2) unfolding rep by (simp add: settles_def)
  moreover have "entry_at ?es (en_ID x) = Some x \<and> \<not> State_Terminal (en_State x)"
    if "x \<in> set sel" for x
  proof -
    have "en_ID e \<notin> (\<lambda>e. en_ID e) ` set sel" using Cons.prems(2) by simp
    then have "en_ID x \<noteq> en_ID e" using that by (metis image_eqI)
    moreover have "entry_at ?es (en_ID x) = (if en_ID x = en_ID e \<and> entry_at es (en_ID e) \<noteq> None
        then Some ?e else entry_at es (en_ID x))"
      by (rule entry_at_set_entry) simp
    ultimately show ?thesis using Cons.prems(3) that by simp
  qed
  ultimately have "msgs_sim (?s\<lparr>ms_messages := fold (\<lambda>e m. mput m (en_ID e) (rec_of (claimed_entry req e)))
        sel (ms_messages ?s)\<rparr>)
      (fold (\<lambda>e es. set_entry es (en_ID e) (claimed_entry req e)) sel ?es)"
    using Cons.prems(2) by (intro Cons.IH) simp_all
  then show ?case by (simp add: put_record_def)
qed

lemma claimable_selection:
  assumes sim: "msgs_sim s (sp_entries a)"
  shows "filter (claimable_in (ms_messages s) (cr_Now req)) (ms_order s (cr_Queue req)) =
    map en_ID (filter (\<lambda>e. en_Queue e = cr_Queue req \<and> ready (en_msg e) (cr_Now req)) (sp_entries a))"
proof -
  let ?P = "claimable_in (ms_messages s) (cr_Now req)" and ?q = "cr_Queue req"
  note D = msgs_simD [OF sim]
  have "\<not> isSettledLocked s i" if "?P i" for i
    using that by (auto simp: claimable_in_def claimable_def isSettledLocked_def
        split: option.splits if_splits)
  then have "filter ?P (ms_order s ?q) = filter ?P (live_ids s ?q)"
    unfolding live_ids_def filter_filter by (intro filter_cong) auto
  also have "\<dots> = map en_ID (filter (\<lambda>e. ?P (en_ID e)) (filter (unsettled ?q) (sp_entries a)))"
    unfolding D(4) by (simp add: filter_map comp_def)
  also have "filter (\<lambda>e. ?P (en_ID e)) (filter (unsettled ?q) (sp_entries a)) =
      filter (\<lambda>e. en_Queue e = ?q \<and> ready (en_msg e) (cr_Now req)) (sp_entries a)"
    unfolding filter_filter
  proof (rule filter_cong)
    fix e assume "e \<in> set (sp_entries a)"
    then have "entry_at (sp_entries a) (en_ID e) = Some e" by (rule entry_at_mem [OF D(2)])
    then have "mget (ms_messages s) (en_ID e) = Some (rec_of e)" by (rule sim_record [OF sim])
    then show "unsettled ?q e \<and> ?P (en_ID e) \<longleftrightarrow> en_Queue e = ?q \<and> ready (en_msg e) (cr_Now req)"
      by (auto simp: claimable_in_def claimable_ready unsettled_def ready_def)
  qed simp
  finally show ?thesis .
qed

lemma claim_run:
  assumes sim: "msgs_sim s (sp_entries a)" and "0 \<le> cr_Limit req"
  shows "fst (claim_loop req (ms_order s (cr_Queue req)) (ms_messages s) []) =
      Inr (map (\<lambda>e. claimed_msg req (en_msg e)) (selection a req))"
    and "msgs_sim (s\<lparr>ms_messages := snd (claim_loop req (ms_order s (cr_Queue req)) (ms_messages s) [])\<rparr>)
      (fold (\<lambda>e es. set_entry es (en_ID e) (claimed_entry req e)) (selection a req) (sp_entries a))"
proof -
  note D = msgs_simD [OF sim]
  let ?sel = "selection a req"
  have dist: "distinct (ms_order s (cr_Queue req))"
    using msgs_okD(3) [OF D(1)] by (simp add: queue_ok_def)
  have sel: "take (nat (cr_Limit req)) (filter (claimable_in (ms_messages s) (cr_Now req))
      (ms_order s (cr_Queue req))) = map en_ID ?sel"
    unfolding claimable_selection [OF sim] selection_def by (simp add: take_map)
  have in_es: "e \<in> set (sp_entries a)" "ready (en_msg e) (cr_Now req)" if "e \<in> set ?sel" for e
    using that unfolding selection_def by (auto dest!: in_set_takeD)
  have at: "entry_at (sp_entries a) (en_ID e) = Some e" if "e \<in> set ?sel" for e
    by (rule entry_at_mem [OF D(2) in_es(1) [OF that]])
  have get: "the (mget (ms_messages s) (en_ID e)) = rec_of e" if "e \<in> set ?sel" for e
    using sim_record [OF sim at [OF that]] by simp
  have crec: "claimed_rec req (rec_of e) = rec_of (claimed_entry req e)" for e
    by (simp add: claimed_rec_def rec_of_def claimed_entry_def)
  have loop: "claim_loop req (ms_order s (cr_Queue req)) (ms_messages s) [] =
      (Inr (map (\<lambda>e. claimed_msg req (en_msg e)) ?sel),
       fold (\<lambda>e m. mput m (en_ID e) (rec_of (claimed_entry req e))) ?sel (ms_messages s))"
  proof -
    have "claim_loop req (ms_order s (cr_Queue req)) (ms_messages s) [] =
        (Inr (map (\<lambda>i. claimed_msg req (rec_msg (the (mget (ms_messages s) i)))) (map en_ID ?sel)),
         fold (\<lambda>i m. mput m i (claimed_rec req (the (mget (ms_messages s) i)))) (map en_ID ?sel)
           (ms_messages s))"
      using claim_loop_spec [OF dist, of req "ms_messages s" "[]"] sel by (simp add: Let_def)
    also have "map (\<lambda>i. claimed_msg req (rec_msg (the (mget (ms_messages s) i)))) (map en_ID ?sel) =
        map (\<lambda>e. claimed_msg req (en_msg e)) ?sel"
      using get by simp
    also have "fold (\<lambda>i m. mput m i (claimed_rec req (the (mget (ms_messages s) i)))) (map en_ID ?sel)
           (ms_messages s) =
        fold (\<lambda>e m. mput m (en_ID e) (rec_of (claimed_entry req e))) ?sel (ms_messages s)"
      unfolding fold_map by (rule fold_cong) (simp_all add: get crec)
    finally show ?thesis .
  qed
  then show "fst (claim_loop req (ms_order s (cr_Queue req)) (ms_messages s) []) =
      Inr (map (\<lambda>e. claimed_msg req (en_msg e)) ?sel)" by simp
  have "distinct (map en_ID ?sel)"
    unfolding sel [symmetric] using dist by simp
  moreover have "\<not> State_Terminal (en_State e)" if "e \<in> set ?sel" for e
    using in_es(2) [OF that] by (auto simp: ready_def)
  ultimately show "msgs_sim (s\<lparr>ms_messages := snd (claim_loop req (ms_order s (cr_Queue req)) (ms_messages s) [])\<rparr>)
      (fold (\<lambda>e es. set_entry es (en_ID e) (claimed_entry req e)) ?sel (sp_entries a))"
    unfolding loop using at by (auto intro!: claim_fold_sim [OF sim])
qed

section \<open>Appending\<close>

lemma append_one_simps [simp]:
  "ms_messages (append_one m s) =
    mput (ms_messages s) (msg_ID m) \<lparr>rec_msg = m, rec_lease = zero_time, rec_consumer = []\<rparr>"
  "ms_order (append_one m s) =
    (ms_order s)(msg_Queue m := ms_order s (msg_Queue m) @ [msg_ID m])"
  "ms_settled (append_one m s) = ms_settled s"
  "ms_deadLetters (append_one m s) = ms_deadLetters s"
  "ms_deadOrder (append_one m s) = ms_deadOrder s"
  "ms_closed (append_one m s) = ms_closed s"
  "ms_exchanges (append_one m s) = ms_exchanges s"
  "ms_queues (append_one m s) = ms_queues s"
  "ms_bindings (append_one m s) = ms_bindings s"
  "ms_history (append_one m s) = ms_history s"
  by (simp_all add: append_one_def)

lemma append_one_settled:
  "\<not> State_Terminal (msg_State m) \<Longrightarrow>
    isSettledLocked (append_one m s) i = (i \<noteq> msg_ID m \<and> isSettledLocked s i)"
  by (simp add: isSettledLocked_def)

lemma append_one_sim:
  assumes sim: "msgs_sim s es" and new: "mget (ms_messages s) (msg_ID m) = None"
    and st: "msg_State m \<in> {StateCreated, StateQueued, StateFailed, StateRetrying}"
  shows "msgs_sim (append_one m s) (es @ [\<lparr>en_msg = m, en_lease = zero_time, en_consumer = []\<rparr>])"
proof (rule msgs_simI)
  note D = msgs_simD [OF sim] and ok = msgs_okD [OF msgs_simD(1) [OF sim]]
  have live: "\<not> State_Terminal (msg_State m)" and valid: "State_Valid (msg_State m)"
    and idle: "msg_State m \<noteq> StateProcessing"
    using st by (auto simp: State_Valid_def)
  have fresh: "msg_ID m \<notin> set (ms_order s q)" for q
    using ok(3) [of q] new by (auto simp: queue_ok_def)
  have same: "filter (isSettledLocked (append_one m s)) (ms_order s q) =
      filter (isSettledLocked s) (ms_order s q)" for q
    using fresh by (intro filter_cong) (auto simp: append_one_settled [OF live])
  have same': "filter (\<lambda>i. \<not> isSettledLocked (append_one m s) i) (ms_order s q) = live_ids s q" for q
    unfolding live_ids_def
    using fresh by (intro filter_cong) (auto simp: append_one_settled [OF live])
  have q_new: "\<exists>e. mget (ms_messages (append_one m s)) mid = Some e \<and> msg_Queue (rec_msg e) = q"
    if "mid \<in> set (ms_order s q)" for mid q
    using ok(3) [of q] that fresh [of q] by (auto simp: queue_ok_def)
  show "msgs_ok (append_one m s)"
  proof (rule msgs_okI)
    show "mwf (ms_messages (append_one m s))" using ok(1) by simp
    show "rec_ok (append_one m s) mid e" if "mget (ms_messages (append_one m s)) mid = Some e" for mid e
    proof (cases "mid = msg_ID m")
      case True
      with that valid idle show ?thesis by (auto simp: rec_ok_def)
    next
      case False
      with that ok(2) [of mid e] show ?thesis by (auto simp: rec_ok_def)
    qed
    show "queue_ok (append_one m s) q" for q
    proof -
      have "\<exists>e. mget (ms_messages (append_one m s)) (msg_ID m) = Some e \<and> msg_Queue (rec_msg e) = msg_Queue m"
        by simp
      moreover have "\<forall>mid\<in>set (ms_order s q).
          \<exists>e. mget (ms_messages (append_one m s)) mid = Some e \<and> msg_Queue (rec_msg e) = q"
        using q_new by blast
      ultimately show ?thesis
        using ok(3) [of q] fresh [of q] unfolding queue_ok_def
        by (cases "q = msg_Queue m")
          (simp_all add: same append_one_settled [OF live] del: append_one_simps(1))
    qed
  qed
  have "entry_at es (msg_ID m) = None" using D(3) new by simp
  then show "distinct (map en_ID (es @ [\<lparr>en_msg = m, en_lease = zero_time, en_consumer = []\<rparr>]))"
    using D(2) by (simp add: entry_at_None)
  show "entry_at (es @ [\<lparr>en_msg = m, en_lease = zero_time, en_consumer = []\<rparr>]) mid =
      map_option entry_of (mget (ms_messages (append_one m s)) mid)" for mid
    using D(3) [of mid] new
    by (auto simp: entry_at_def find_append entry_of_def split: option.split)
  show "live_ids (append_one m s) q =
      map en_ID (filter (unsettled q) (es @ [\<lparr>en_msg = m, en_lease = zero_time, en_consumer = []\<rparr>]))" for q
    unfolding live_ids_def [of "append_one m s"] using same' [of q] live
    by (cases "q = msg_Queue m") (simp_all add: D(4) unsettled_def append_one_settled [OF live])
qed

lemma append_sim:
  assumes "msgs_sim s es" and "appendable ms"
    and "\<forall>m\<in>set ms. mget (ms_messages s) (msg_ID m) = None"
  shows "msgs_sim (fold append_one ms s)
    (es @ map (\<lambda>m. \<lparr>en_msg = m, en_lease = zero_time, en_consumer = []\<rparr>) ms)"
  using assms
proof (induction ms arbitrary: s es)
  case Nil
  then show ?case by simp
next
  case (Cons m ms)
  have st: "msg_State m \<in> {StateCreated, StateQueued, StateFailed, StateRetrying}"
    and rest: "appendable ms" "msg_ID m \<notin> msg_ID ` set ms"
    using Cons.prems(2) by (simp_all add: appendable_def)
  have "msgs_sim (append_one m s) (es @ [\<lparr>en_msg = m, en_lease = zero_time, en_consumer = []\<rparr>])"
    using Cons.prems st by (intro append_one_sim) simp_all
  moreover have "\<forall>m'\<in>set ms. mget (ms_messages (append_one m s)) (msg_ID m') = None"
  proof
    fix m' assume "m' \<in> set ms"
    then have "msg_ID m' \<noteq> msg_ID m" using rest(2) by (metis image_eqI)
    with \<open>m' \<in> set ms\<close> Cons.prems(3) show "mget (ms_messages (append_one m s)) (msg_ID m') = None"
      by simp
  qed
  ultimately show ?case using Cons.IH rest(1) by fastforce
qed

end
