(* ===== verification/MemoryRefine.thy ===== *)
theory MemoryRefine
  imports MemoryClaim
begin

text \<open>
  The remaining operations of the in-memory store against the specification, and the refinement:
  every sequence of calls returns the same results from both.
\<close>

section \<open>Depth, purge and expired leases\<close>

definition state_in :: "Store \<Rightarrow> State set \<Rightarrow> string \<Rightarrow> bool" where
  "state_in s S i = (case mget (ms_messages s) i of
     None \<Rightarrow> False | Some e \<Rightarrow> msg_State (rec_msg e) \<in> S)"

lemma depth_fold:
  "fold (depth_step s) ids d =
    d\<lparr> d_Ready := d_Ready d + int (length (filter (state_in s {StateQueued}) ids)),
       d_InFlight := d_InFlight d + int (length (filter (state_in s {StateProcessing}) ids)),
       d_Scheduled := d_Scheduled d +
         int (length (filter (state_in s {StateRetrying, StateFailed}) ids)) \<rparr>"
proof (induction ids arbitrary: d)
  case Nil
  then show ?case by simp
next
  case (Cons i ids)
  have "depth_step s i d =
      d\<lparr> d_Ready := d_Ready d + (if state_in s {StateQueued} i then 1 else 0),
         d_InFlight := d_InFlight d + (if state_in s {StateProcessing} i then 1 else 0),
         d_Scheduled := d_Scheduled d + (if state_in s {StateRetrying, StateFailed} i then 1 else 0) \<rparr>"
  proof (cases "mget (ms_messages s) i")
    case None
    then show ?thesis by (simp add: depth_step_def state_in_def)
  next
    case (Some e)
    then show ?thesis
      by (cases "msg_State (rec_msg e)") (simp_all add: depth_step_def state_in_def)
  qed
  then show ?case by (simp add: Cons)
qed

lemma entry_state_in:
  assumes sim: "msgs_sim s es" and e: "e \<in> set es"
  shows "state_in s S (en_ID e) \<longleftrightarrow> en_State e \<in> S"
  using sim_record [OF sim entry_at_mem [OF msgs_simD(2) [OF sim] e]] by (simp add: state_in_def)

lemma count_sim:
  assumes sim: "msgs_sim s (sp_entries a)" and S: "\<forall>st\<in>S. \<not> State_Terminal st"
  shows "int (length (filter (state_in s S) (ms_order s q))) = count_state a q S"
proof -
  let ?es = "sp_entries a"
  have "\<not> isSettledLocked s i" if "state_in s S i" for i
    using that S by (auto simp: state_in_def isSettledLocked_def split: option.splits)
  then have "filter (state_in s S) (ms_order s q) = filter (state_in s S) (live_ids s q)"
    unfolding live_ids_def filter_filter by (intro filter_cong) auto
  also have "\<dots> = map en_ID (filter (\<lambda>e. state_in s S (en_ID e)) (filter (unsettled q) ?es))"
    unfolding msgs_simD(4) [OF sim] by (simp add: filter_map comp_def)
  also have "filter (\<lambda>e. state_in s S (en_ID e)) (filter (unsettled q) ?es) =
      filter (\<lambda>e. en_Queue e = q \<and> en_State e \<in> S) ?es"
    unfolding filter_filter
  proof (rule filter_cong)
    fix e assume "e \<in> set ?es"
    with S show "unsettled q e \<and> state_in s S (en_ID e) \<longleftrightarrow> en_Queue e = q \<and> en_State e \<in> S"
      by (auto simp: entry_state_in [OF sim] unsettled_def)
  qed simp
  finally show ?thesis by (simp add: count_state_def)
qed

lemma count_state_disjoint:
  "S \<inter> T = {} \<Longrightarrow> count_state a q (S \<union> T) = count_state a q S + count_state a q T"
proof -
  have "S \<inter> T = {} \<Longrightarrow> length (filter (\<lambda>e. en_Queue e = q \<and> en_State e \<in> S \<union> T) es) =
      length (filter (\<lambda>e. en_Queue e = q \<and> en_State e \<in> S) es) +
      length (filter (\<lambda>e. en_Queue e = q \<and> en_State e \<in> T) es)" for es
    by (induction es) auto
  then show "S \<inter> T = {} \<Longrightarrow> ?thesis" by (simp add: count_state_def)
qed

lemma Depth_sim:
  assumes sim: "msgs_sim s (sp_entries a)" and q: "sp_queues a = ms_queues s"
  shows "memory_Depth s n = spec_Depth a n"
proof -
  let ?R = "{StateQueued}" and ?I = "{StateProcessing}" and ?S = "{StateRetrying, StateFailed}"
  have "{StateQueued, StateProcessing, StateRetrying, StateFailed} = ?R \<union> (?I \<union> ?S)" by auto
  moreover have "count_state a n (?R \<union> (?I \<union> ?S)) = count_state a n ?R + count_state a n (?I \<union> ?S)"
    by (rule count_state_disjoint) simp
  moreover have "count_state a n (?I \<union> ?S) = count_state a n ?I + count_state a n ?S"
    by (rule count_state_disjoint) simp
  ultimately have "count_state a n {StateQueued, StateProcessing, StateRetrying, StateFailed} =
      count_state a n ?R + count_state a n ?I + count_state a n ?S"
    by (simp only:)
  then show ?thesis
    using count_sim [OF sim, of "{StateQueued}" n] count_sim [OF sim, of "{StateProcessing}" n]
      count_sim [OF sim, of "{StateRetrying, StateFailed}" n]
    by (simp add: memory_Depth_def spec_Depth_def q depth_fold Let_def)
qed

lemma purge_loop_spec:
  assumes "distinct ids" and "\<forall>i\<in>set ids. mget msgs i \<noteq> None"
  shows "purge_loop ids msgs remaining purged =
    (let dead = (\<lambda>i. State_Terminal (msg_State (rec_msg (the (mget msgs i)))))
     in (remaining @ filter dead ids, purged + int (length (filter (\<lambda>i. \<not> dead i) ids)),
         fold (\<lambda>i m. mdel m i) (filter (\<lambda>i. \<not> dead i) ids) msgs))"
  using assms
proof (induction ids arbitrary: msgs remaining purged)
  case Nil
  then show ?case by simp
next
  case (Cons i ids)
  then obtain e where e: "mget msgs i = Some e" by auto
  show ?case
  proof (cases "State_Terminal (msg_State (rec_msg e))")
    case True
    with e Cons show ?thesis by (simp add: Let_def)
  next
    case False
    have same: "mget (mdel msgs i) j = mget msgs j" if "j \<in> set ids" for j
      using that Cons.prems(1) by auto
    have flt: "filter (\<lambda>j. Q (mget (mdel msgs i) j)) ids = filter (\<lambda>j. Q (mget msgs j)) ids" for Q
      using same by (intro filter_cong) auto
    have "purge_loop ids (mdel msgs i) remaining (purged + 1) =
      (let dead = (\<lambda>j. State_Terminal (msg_State (rec_msg (the (mget (mdel msgs i) j)))))
       in (remaining @ filter dead ids, purged + 1 + int (length (filter (\<lambda>j. \<not> dead j) ids)),
           fold (\<lambda>j m. mdel m j) (filter (\<lambda>j. \<not> dead j) ids) (mdel msgs i)))"
      using Cons.prems same by (intro Cons.IH) auto
    with e False show ?thesis
      by (simp add: Let_def flt [of "\<lambda>x. State_Terminal (msg_State (rec_msg (the x)))"]
          flt [of "\<lambda>x. \<not> State_Terminal (msg_State (rec_msg (the x)))"] del: gomap_simps)
  qed
qed

text \<open>Messages of one queue are deleted and its index is cut down to the rest, which is settled.\<close>

definition dropped :: "Store \<Rightarrow> string \<Rightarrow> (string \<Rightarrow> bool) \<Rightarrow> Store" where
  "dropped s q keep =
    s\<lparr> ms_messages := fold (\<lambda>i m. mdel m i) (filter (\<lambda>i. \<not> keep i) (ms_order s q)) (ms_messages s),
       ms_order := (ms_order s)(q := filter keep (ms_order s q)),
       ms_settled := (ms_settled s)(q := int (length (filter keep (ms_order s q)))) \<rparr>"

definition purged :: "Store \<Rightarrow> string \<Rightarrow> Store" where
  "purged s q = dropped s q (isSettledLocked s)"

lemma Purge_eq:
  assumes "msgs_ok s"
  shows "memory_Purge s q = (if mget (ms_queues s) q = None then (Inl ErrNotFound, s)
    else (Inr (int (length (live_ids s q))), purged s q))"
proof -
  have ok: "distinct (ms_order s q)"
    "\<forall>i\<in>set (ms_order s q). mget (ms_messages s) i \<noteq> None"
    using msgs_okD(3) [OF assms, of q] by (auto simp: queue_ok_def)
  have "filter (\<lambda>i. State_Terminal (msg_State (rec_msg (the (mget (ms_messages s) i))))) (ms_order s q) =
      filter (isSettledLocked s) (ms_order s q)"
    using ok(2) by (intro filter_cong) (auto simp: isSettledLocked_def)
  moreover have "filter (\<lambda>i. \<not> State_Terminal (msg_State (rec_msg (the (mget (ms_messages s) i)))))
      (ms_order s q) = live_ids s q"
    unfolding live_ids_def using ok(2) by (intro filter_cong) (auto simp: isSettledLocked_def)
  ultimately show ?thesis
    by (simp add: memory_Purge_def purge_loop_spec [OF ok] Let_def purged_def dropped_def live_ids_def)
qed

lemma live_entry:
  assumes "msgs_sim s es"
  shows "i \<in> set (live_ids s q) \<longleftrightarrow> (\<exists>e. entry_at es i = Some e \<and> unsettled q e)"
proof
  assume "i \<in> set (live_ids s q)"
  then obtain e where e: "e \<in> set es" "unsettled q e" "i = en_ID e"
    unfolding msgs_simD(4) [OF assms] by auto
  with entry_at_mem [OF msgs_simD(2) [OF assms] e(1)]
  show "\<exists>e. entry_at es i = Some e \<and> unsettled q e" by simp
next
  assume "\<exists>e. entry_at es i = Some e \<and> unsettled q e"
  then obtain e where e: "entry_at es i = Some e" "unsettled q e" by blast
  with entry_at_Some [OF e(1)] show "i \<in> set (live_ids s q)"
    unfolding msgs_simD(4) [OF assms] by (auto intro!: image_eqI [of _ _ e])
qed

lemma entry_at_filter:
  "distinct (map en_ID es) \<Longrightarrow> entry_at (filter P es) i =
    (case entry_at es i of None \<Rightarrow> None | Some e \<Rightarrow> if P e then Some e else None)"
proof (induction es)
  case Nil
  then show ?case by (simp add: entry_at_def)
next
  case (Cons x es)
  have "entry_at es (en_ID x) = None" using Cons.prems by (simp add: entry_at_None)
  moreover have "entry_at (filter P es) (en_ID x) = None"
    using Cons.prems by (auto simp: entry_at_None)
  ultimately show ?case using Cons by (auto simp: entry_at_def)
qed

lemma order_rec:
  "msgs_ok s \<Longrightarrow> i \<in> set (ms_order s q) \<Longrightarrow>
    \<exists>e. mget (ms_messages s) i = Some e \<and> msg_Queue (rec_msg e) = q"
  using msgs_okD(3) [of s q] by (simp add: queue_ok_def)

lemma live_subset: "set (live_ids s q) \<subseteq> set (ms_order s q)"
  by (auto simp: live_ids_def)

definition drops :: "Store \<Rightarrow> string \<Rightarrow> (string \<Rightarrow> bool) \<Rightarrow> string \<Rightarrow> bool" where
  "drops s q keep i \<longleftrightarrow> i \<in> set (ms_order s q) \<and> \<not> keep i"

lemma dropped_get:
  "mget (ms_messages (dropped s q keep)) i = (if drops s q keep i then None else mget (ms_messages s) i)"
  by (auto simp: dropped_def gm.get_del_foldr drops_def)

lemma dropped_settled: "isSettledLocked (dropped s q keep) i \<longleftrightarrow> drops s q keep i \<or> isSettledLocked s i"
  by (auto simp: isSettledLocked_def dropped_get)

lemma dropped_order:
  "ms_order (dropped s q keep) q' = (if q' = q then filter keep (ms_order s q) else ms_order s q')"
  "ms_settled (dropped s q keep) q' =
    (if q' = q then int (length (filter keep (ms_order s q))) else ms_settled s q')"
  by (simp_all add: dropped_def)

lemma drops_other:
  "msgs_ok s \<Longrightarrow> i \<in> set (ms_order s q') \<Longrightarrow> q' \<noteq> q \<Longrightarrow> \<not> drops s q keep i"
  using order_rec [of s i q'] order_rec [of s i q] by (auto simp: drops_def)

lemma dropped_ok:
  assumes ok: "msgs_ok s" and keep: "\<And>i. i \<in> set (ms_order s q) \<Longrightarrow> keep i \<Longrightarrow> isSettledLocked s i"
  shows "msgs_ok (dropped s q keep)"
proof (rule msgs_okI)
  note D = msgs_okD [OF ok]
  show "mwf (ms_messages (dropped s q keep))" using D(1) by (simp add: dropped_def gm.wf_del_fold)
  show "rec_ok (dropped s q keep) i e" if "mget (ms_messages (dropped s q keep)) i = Some e" for i e
  proof -
    have e: "mget (ms_messages s) i = Some e" "\<not> drops s q keep i"
      using that by (simp_all add: dropped_get split: if_splits)
    have "i \<in> set (ms_order (dropped s q keep) (msg_Queue (rec_msg e)))"
      if "i \<in> set (ms_order s (msg_Queue (rec_msg e)))"
      using that e(2) by (auto simp: dropped_order drops_def)
    with D(2) [OF e(1)] show ?thesis by (simp add: rec_ok_def)
  qed
  show "queue_ok (dropped s q keep) q'" for q'
  proof -
    have 1: "filter (isSettledLocked (dropped s q keep)) (ms_order (dropped s q keep) q') =
        (if q' = q then ms_order (dropped s q keep) q else filter (isSettledLocked s) (ms_order s q'))"
      using keep drops_other [OF ok, of _ q' q keep]
      by (auto simp: dropped_order dropped_settled intro!: filter_cong filter_True)
    have 2: "\<exists>e. mget (ms_messages (dropped s q keep)) i = Some e \<and> msg_Queue (rec_msg e) = q'"
      if "i \<in> set (ms_order (dropped s q keep) q')" for i
    proof -
      have "i \<in> set (ms_order s q')" and "\<not> drops s q keep i"
        using that drops_other [OF ok, of i q' q keep] by (auto simp: dropped_order drops_def split: if_splits)
      then show ?thesis using order_rec [OF ok, of i q'] by (simp add: dropped_get)
    qed
    show ?thesis
      using D(3) [of q'] D(3) [of q] 2 unfolding queue_ok_def 1 by (auto simp: dropped_order)
  qed
qed

lemma dropped_sim:
  assumes sim: "msgs_sim s es" and keep: "\<And>i. i \<in> set (ms_order s q) \<Longrightarrow> keep i \<Longrightarrow> isSettledLocked s i"
  shows "msgs_sim (dropped s q keep) (filter (\<lambda>e. \<not> drops s q keep (en_ID e)) es)"
proof (rule msgs_simI)
  note D = msgs_simD [OF sim]
  show "msgs_ok (dropped s q keep)" by (rule dropped_ok [OF D(1) keep])
  show "distinct (map en_ID (filter (\<lambda>e. \<not> drops s q keep (en_ID e)) es))"
    using D(2) by (simp add: distinct_map_filter)
  show "entry_at (filter (\<lambda>e. \<not> drops s q keep (en_ID e)) es) i =
      map_option entry_of (mget (ms_messages (dropped s q keep)) i)" for i
    using D(3) [of i] rec_ID [OF D(1), of i]
    by (cases "mget (ms_messages s) i") (auto simp: entry_at_filter [OF D(2)] dropped_get)
  show "live_ids (dropped s q keep) q' =
      map en_ID (filter (unsettled q') (filter (\<lambda>e. \<not> drops s q keep (en_ID e)) es))" for q'
  proof -
    have "live_ids (dropped s q keep) q' = filter (\<lambda>i. \<not> drops s q keep i) (live_ids s q')"
    proof (cases "q' = q")
      case True
      then have "live_ids (dropped s q keep) q' = []"
        using keep by (auto simp: live_ids_def dropped_order dropped_settled filter_empty_conv)
      moreover have "filter (\<lambda>i. \<not> drops s q keep i) (live_ids s q') = []"
        using keep True by (auto simp: live_ids_def drops_def filter_empty_conv)
      ultimately show ?thesis by simp
    next
      case False
      then show ?thesis
        using drops_other [OF D(1), of _ q' q keep]
        by (auto simp: live_ids_def dropped_order dropped_settled intro!: filter_cong)
    qed
    also have "\<dots> = map en_ID (filter (\<lambda>e. \<not> drops s q keep (en_ID e)) (filter (unsettled q') es))"
      unfolding D(4) by (simp add: filter_map comp_def)
    finally show ?thesis by (simp add: conj_commute)
  qed
qed

lemma purged_sim:
  assumes sim: "msgs_sim s es"
  shows "msgs_sim (purged s q) (filter (\<lambda>e. \<not> unsettled q e) es)"
proof -
  have "drops s q (isSettledLocked s) (en_ID e) \<longleftrightarrow> unsettled q e" if "e \<in> set es" for e
  proof -
    have "drops s q (isSettledLocked s) (en_ID e) \<longleftrightarrow> en_ID e \<in> set (live_ids s q)"
      by (auto simp: drops_def live_ids_def)
    also have "\<dots> \<longleftrightarrow> unsettled q e"
      using live_entry [OF sim, of "en_ID e" q] entry_at_mem [OF msgs_simD(2) [OF sim] that] by simp
    finally show ?thesis .
  qed
  then have "filter (\<lambda>e. \<not> drops s q (isSettledLocked s) (en_ID e)) es = filter (\<lambda>e. \<not> unsettled q e) es"
    by (intro filter_cong) auto
  then show ?thesis using dropped_sim [OF sim, of q "isSettledLocked s"] by (simp add: purged_def)
qed

lemma expired_sim:
  assumes sim: "msgs_sim s (sp_entries a)"
  shows "memory_ExpiredLeases s now limit = spec_ExpiredLeases a now limit"
proof -
  note D = msgs_simD [OF sim] and ok = msgs_okD [OF msgs_simD(1) [OF sim]]
  let ?P = "\<lambda>r. \<not> (msg_State (rec_msg r) \<noteq> StateProcessing \<or> rec_lease r = zero_time \<or> now < rec_lease r)"
  let ?xs = "map rec_msg (filter ?P (mvals (ms_messages s)))"
  let ?ys = "map en_msg (filter (expired now) (sp_entries a))"
  have ids: "distinct (map (\<lambda>r. msg_ID (rec_msg r)) (mvals (ms_messages s)))"
    by (rule mvals_distinct [OF ok(1) rec_ID [OF D(1)]])
  then have dx: "distinct (map msg_ID ?xs)"
    by (simp add: comp_def distinct_map_filter)
  have dy: "distinct (map msg_ID ?ys)"
    using D(2) by (simp add: comp_def distinct_map_filter)
  have "m \<in> set ?ys" if "m \<in> set ?xs" for m
  proof -
    from that obtain r where r: "r \<in> set (mvals (ms_messages s))" "?P r" "m = rec_msg r" by auto
    then obtain i where "mget (ms_messages s) i = Some r" using mwf_mvals_iff [OF ok(1)] by blast
    then have "entry_at (sp_entries a) i = Some (entry_of r)" using D(3) [of i] by simp
    with entry_at_Some have "entry_of r \<in> set (sp_entries a)" by blast
    moreover have "expired now (entry_of r)" using r(2) by (simp add: expired_def)
    ultimately show ?thesis using r(3) by (auto intro!: image_eqI [of _ _ "entry_of r"])
  qed
  moreover have "m \<in> set ?xs" if "m \<in> set ?ys" for m
  proof -
    from that obtain e where e: "e \<in> set (sp_entries a)" "expired now e" "m = en_msg e" by auto
    have "mget (ms_messages s) (en_ID e) = Some (rec_of e)"
      by (rule sim_record [OF sim entry_at_mem [OF D(2) e(1)]])
    then have "rec_of e \<in> set (mvals (ms_messages s))" by (rule mget_mvals)
    moreover have "?P (rec_of e)" using e(2) by (simp add: expired_def rec_of_def)
    ultimately have "rec_of e \<in> set (filter ?P (mvals (ms_messages s)))"
      unfolding set_filter by (intro CollectI conjI)
    then have "rec_msg (rec_of e) \<in> set ?xs" unfolding set_map by (rule imageI)
    with e(3) show ?thesis by (simp only: rec_of_sel)
  qed
  ultimately have sets: "set ?xs = set ?ys" by blast
  have "mset ?xs = mset ?ys"
    using sets dx dy set_eq_iff_mset_eq_distinct [of ?xs ?ys]
      distinct_map [of msg_ID ?xs] distinct_map [of msg_ID ?ys] by blast
  then have "sort_key msg_ID ?xs = sort_key msg_ID ?ys"
    using dx distinct_map [of msg_ID ?xs] by (intro sort_key_range_order) blast+
  then show ?thesis
    unfolding memory_ExpiredLeases_def spec_ExpiredLeases_def Let_def by auto
qed

section \<open>Dead letters\<close>

definition dead_list :: "Store \<Rightarrow> DeadLetter list" where
  "dead_list s = map (\<lambda>i. the (mget (ms_deadLetters s) i)) (ms_deadOrder s)"

lemma dead_okD:
  assumes "dead_ok s"
  shows "mwf (ms_deadLetters s)" and "distinct (ms_deadOrder s)"
    and "\<And>i. i \<in> set (ms_deadOrder s) \<longleftrightarrow> mget (ms_deadLetters s) i \<noteq> None"
    and "\<And>i d. mget (ms_deadLetters s) i = Some d \<Longrightarrow> dl_ID d = i"
  using assms mget_in_keys [of "ms_deadLetters s"] unfolding dead_ok_def by blast+

lemma dead_okI:
  assumes "mwf (ms_deadLetters s)" and "distinct (ms_deadOrder s)"
    and "\<And>i. i \<in> set (ms_deadOrder s) \<longleftrightarrow> mget (ms_deadLetters s) i \<noteq> None"
    and "\<And>i d. mget (ms_deadLetters s) i = Some d \<Longrightarrow> dl_ID d = i"
  shows "dead_ok s"
  using assms mget_in_keys [of "ms_deadLetters s"] unfolding dead_ok_def by blast

lemma dead_list_ids:
  assumes "dead_ok s"
  shows "map dl_ID (dead_list s) = ms_deadOrder s"
proof -
  have "dl_ID (the (mget (ms_deadLetters s) i)) = i" if "i \<in> set (ms_deadOrder s)" for i
    using dead_okD(3,4) [OF assms, of i] that by (cases "mget (ms_deadLetters s) i") auto
  then show ?thesis by (simp add: dead_list_def map_idI)
qed

lemma dead_at_list:
  assumes "dead_ok s"
  shows "dead_at (dead_list s) did = mget (ms_deadLetters s) did"
proof -
  have "find (\<lambda>d. dl_ID d = did) (map f ids) = (if did \<in> set ids then Some (f did) else None)"
    if "\<And>i. i \<in> set ids \<Longrightarrow> dl_ID (f i) = i" for f :: "string \<Rightarrow> DeadLetter" and ids
    using that by (induction ids) auto
  moreover have "dl_ID (the (mget (ms_deadLetters s) i)) = i" if "i \<in> set (ms_deadOrder s)" for i
    using dead_okD(3,4) [OF assms, of i] that by (cases "mget (ms_deadLetters s) i") auto
  ultimately show ?thesis
    using dead_okD(3) [OF assms, of did]
    by (cases "mget (ms_deadLetters s) did") (simp_all add: dead_at_def dead_list_def)
qed

lemma dead_mset:
  assumes "dead_ok s"
  shows "mset (mvals (ms_deadLetters s)) = mset (dead_list s)"
proof -
  note D = dead_okD [OF assms]
  have "distinct (map dl_ID (mvals (ms_deadLetters s)))" by (rule mvals_distinct [OF D(1,4)])
  then have "distinct (mvals (ms_deadLetters s))" by (simp only: distinct_map)
  moreover have "distinct (map dl_ID (dead_list s))"
    using D(2) unfolding dead_list_ids [OF assms] .
  then have "distinct (dead_list s)" by (simp only: distinct_map)
  moreover have "d \<in> set (mvals (ms_deadLetters s)) \<longleftrightarrow> d \<in> set (dead_list s)" for d
  proof -
    have "d \<in> set (dead_list s) \<longleftrightarrow>
        (\<exists>i\<in>set (ms_deadOrder s). d = the (mget (ms_deadLetters s) i))"
      by (simp add: dead_list_def image_iff)
    also have "\<dots> \<longleftrightarrow> (\<exists>i. mget (ms_deadLetters s) i = Some d)"
      using D(3) by force
    finally show ?thesis using mwf_mvals_iff [OF D(1)] by blast
  qed
  ultimately show ?thesis
    using set_eq_iff_mset_eq_distinct [of "mvals (ms_deadLetters s)" "dead_list s"] by blast
qed

lemma dead_loop_spec:
  assumes "\<forall>i\<in>set ids. mget (ms_deadLetters s) i \<noteq> None"
  shows "dead_loop s f ids matched skipped = matched @
    take (nat (df_Limit f - int (length matched))) (drop (nat (df_Offset f - skipped))
      (filter (\<lambda>d. df_Queue f = [] \<or> dl_Queue d = df_Queue f)
        (map (\<lambda>i. the (mget (ms_deadLetters s) i)) ids)))"
  using assms
proof (induction ids arbitrary: matched skipped)
  case Nil
  then show ?case by simp
next
  case (Cons i ids)
  then obtain d where d: "mget (ms_deadLetters s) i = Some d" by auto
  note IH = Cons.IH [of matched skipped] Cons.IH [of matched "skipped + 1"]
    Cons.IH [of "matched @ [d]" skipped]
  have rest: "\<forall>i\<in>set ids. mget (ms_deadLetters s) i \<noteq> None" using Cons.prems by simp
  consider "\<not> (df_Queue f = [] \<or> dl_Queue d = df_Queue f)"
    | "df_Queue f = [] \<or> dl_Queue d = df_Queue f" "skipped < df_Offset f"
    | "df_Queue f = [] \<or> dl_Queue d = df_Queue f" "\<not> skipped < df_Offset f"
      "df_Limit f \<le> int (length matched)"
    | "df_Queue f = [] \<or> dl_Queue d = df_Queue f" "\<not> skipped < df_Offset f"
      "int (length matched) < df_Limit f"
    by linarith
  then show ?case
  proof cases
    case 1
    then show ?thesis using d IH(1) rest by simp
  next
    case 2
    then have "nat (df_Offset f - skipped) = Suc (nat (df_Offset f - (skipped + 1)))" by simp
    with 2 d IH(2) rest show ?thesis by auto
  next
    case 3
    then show ?thesis using d by auto
  next
    case 4
    then have "nat (df_Limit f - int (length matched)) =
        Suc (nat (df_Limit f - int (length (matched @ [d]))))" by simp
    with 4 d IH(3) rest show ?thesis by auto
  qed
qed

lemma DeadLetters_eq:
  assumes "dead_ok s" and "sp_dead a = dead_list s"
  shows "memory_DeadLetters s f = spec_DeadLetters a f"
proof -
  have "\<forall>i\<in>set (rev (ms_deadOrder s)). mget (ms_deadLetters s) i \<noteq> None"
    using dead_okD(3) [OF assms(1)] by simp
  from dead_loop_spec [OF this, of "Normalise f" "[]" 0] show ?thesis
    by (simp add: memory_DeadLetters_def spec_DeadLetters_def Let_def assms(2) dead_list_def rev_map)
qed

section \<open>Refinement\<close>

definition mem_sim :: "Store \<Rightarrow> SpecStore \<Rightarrow> bool" where
  "mem_sim s a \<longleftrightarrow> msgs_sim s (sp_entries a) \<and> dead_ok s \<and> sp_dead a = dead_list s \<and>
    sp_closed a = ms_closed s \<and> sp_exchanges a = ms_exchanges s \<and> sp_queues a = ms_queues s \<and>
    sp_bindings a = ms_bindings s \<and> sp_history a = ms_history s"

text \<open>A change of the messages only.\<close>

definition msgs_change :: "Store \<Rightarrow> Store \<Rightarrow> bool" where
  "msgs_change s s' \<longleftrightarrow> ms_deadLetters s' = ms_deadLetters s \<and> ms_deadOrder s' = ms_deadOrder s \<and>
    ms_closed s' = ms_closed s \<and> ms_exchanges s' = ms_exchanges s \<and> ms_queues s' = ms_queues s \<and>
    ms_bindings s' = ms_bindings s \<and> ms_history s' = ms_history s"

lemma mem_sim_msgs:
  "mem_sim s a \<Longrightarrow> msgs_change s s' \<Longrightarrow> msgs_sim s' es \<Longrightarrow> mem_sim s' (a\<lparr>sp_entries := es\<rparr>)"
  by (auto simp: mem_sim_def msgs_change_def dead_ok_def dead_list_def)

lemma msgs_change_ops:
  "msgs_change s s" "msgs_change s (replace s mid e)" "msgs_change s (snd (mem_update s mid f))"
  "msgs_change s (reindexed s q ids)" "msgs_change s (purged s q)" "msgs_change s (s\<lparr>ms_messages := m\<rparr>)"
  by (auto simp: msgs_change_def replace_def mem_update_def reindexed_def purged_def dropped_def
      split: option.split sum.split)

lemma msgs_change_trans: "msgs_change s t \<Longrightarrow> msgs_change t u \<Longrightarrow> msgs_change s u"
  by (simp add: msgs_change_def)

lemma msgs_change_append: "msgs_change s (fold append_one ms s)"
proof (induction ms arbitrary: s)
  case (Cons m ms)
  then show ?case using Cons [of "append_one m s"] by (simp add: msgs_change_def)
qed (simp add: msgs_change_def)

lemma spec_update_entries:
  "snd (spec_update a mid f) = a\<lparr>sp_entries := sp_entries (snd (spec_update a mid f))\<rparr>"
  by (simp add: spec_update_def split: option.split sum.split)

lemma update_mem_sim:
  assumes "mem_sim s a" and "ends_lease f"
  shows "fst (mem_update s mid f) = fst (spec_update a mid f) \<and>
    mem_sim (snd (mem_update s mid f)) (snd (spec_update a mid f))"
proof -
  have "msgs_sim s (sp_entries a)" using assms(1) by (simp add: mem_sim_def)
  note u = update_sim [OF this assms(2), of mid]
  have "mem_sim (snd (mem_update s mid f)) (a\<lparr>sp_entries := sp_entries (snd (spec_update a mid f))\<rparr>)"
    using u by (intro mem_sim_msgs [OF assms(1) msgs_change_ops(3)]) simp
  with u show ?thesis by (simp flip: spec_update_entries)
qed

lemma append_mem_sim:
  assumes sim: "mem_sim s a" and "appendable ms"
  shows "fst (memory_Append s ms) = fst (spec_Append a ms) \<and>
    mem_sim (snd (memory_Append s ms)) (snd (spec_Append a ms))"
proof -
  have m: "msgs_sim s (sp_entries a)" and c: "sp_closed a = ms_closed s"
    using sim by (simp_all add: mem_sim_def)
  have dup: "list_ex (\<lambda>m. mget (ms_messages s) (msg_ID m) \<noteq> None) ms \<longleftrightarrow>
      list_ex (\<lambda>m. entry_at (sp_entries a) (msg_ID m) \<noteq> None) ms"
    using msgs_simD(3) [OF m] by (simp add: list_ex_iff)
  show ?thesis
  proof (cases "ms_closed s \<or> list_ex (\<lambda>m. mget (ms_messages s) (msg_ID m) \<noteq> None) ms")
    case True
    then show ?thesis using sim c unfolding memory_Append_def spec_Append_def dup by auto
  next
    case False
    then have "\<forall>m\<in>set ms. mget (ms_messages s) (msg_ID m) = None" by (auto simp: list_ex_iff)
    note app = append_sim [OF m assms(2) this]
    have "mem_sim (fold append_one ms s) (a\<lparr>sp_entries := sp_entries a @
        map (\<lambda>m. \<lparr>en_msg = m, en_lease = zero_time, en_consumer = []\<rparr>) ms\<rparr>)"
      by (rule mem_sim_msgs [OF sim msgs_change_append app])
    with False show ?thesis using c unfolding memory_Append_def spec_Append_def dup by simp
  qed
qed

lemma claim_mem_sim:
  assumes sim: "mem_sim s a"
  shows "fst (memory_Claim s req) = fst (spec_Claim a req) \<and>
    mem_sim (snd (memory_Claim s req)) (snd (spec_Claim a req))"
proof (cases "ms_closed s")
  case True
  then show ?thesis using sim by (simp add: memory_Claim_def spec_Claim_def mem_sim_def)
next
  case open_: False
  have m: "msgs_sim s (sp_entries a)" and c: "\<not> sp_closed a"
    using sim open_ by (simp_all add: mem_sim_def)
  obtain ids where ids: "compactLocked s (cr_Queue req) = (None, reindexed s (cr_Queue req) ids)"
      "set ids \<subseteq> set (ms_order s (cr_Queue req))" "distinct ids"
      "filter (\<lambda>i. \<not> isSettledLocked s i) ids = live_ids s (cr_Queue req)"
    by (rule compact_reindexes [OF msgs_simD(1) [OF m], of "cr_Queue req"])
  let ?s = "reindexed s (cr_Queue req) ids"
  have m': "msgs_sim ?s (sp_entries a)" by (rule reindexed_sim [OF m ids(2-4)])
  show ?thesis
  proof (cases "cr_Limit req < 0")
    case True
    have "mem_sim ?s (a\<lparr>sp_entries := sp_entries a\<rparr>)"
      by (rule mem_sim_msgs [OF sim msgs_change_ops(4) m'])
    with True c open_ ids(1) show ?thesis by (simp add: memory_Claim_def spec_Claim_def)
  next
    case False
    note run = claim_run [OF m', of req]
    let ?es = "fold (\<lambda>e es. set_entry es (en_ID e) (claimed_entry req e)) (selection a req) (sp_entries a)"
    let ?l = "claim_loop req (ms_order ?s (cr_Queue req)) (ms_messages ?s) []"
    have "mem_sim (?s\<lparr>ms_messages := snd ?l\<rparr>) (a\<lparr>sp_entries := ?es\<rparr>)"
      using False
      by (intro mem_sim_msgs [OF sim msgs_change_trans [OF msgs_change_ops(4,6)]] run(2)) simp
    moreover have "memory_Claim s req = (fst ?l, ?s\<lparr>ms_messages := snd ?l\<rparr>)"
      using False open_ ids(1) by (simp add: memory_Claim_def case_prod_beta)
    ultimately show ?thesis using False c run(1) by (simp add: spec_Claim_def)
  qed
qed

lemma purge_mem_sim:
  assumes sim: "mem_sim s a"
  shows "fst (memory_Purge s q) = fst (spec_Purge a q) \<and>
    mem_sim (snd (memory_Purge s q)) (snd (spec_Purge a q))"
proof -
  have m: "msgs_sim s (sp_entries a)" and q: "sp_queues a = ms_queues s"
    using sim by (simp_all add: mem_sim_def)
  have "length (live_ids s q) = length (filter (unsettled q) (sp_entries a))"
    unfolding msgs_simD(4) [OF m] by simp
  with sim mem_sim_msgs [OF sim msgs_change_ops(5) purged_sim [OF m, of q]] show ?thesis
    by (simp add: Purge_eq [OF msgs_simD(1) [OF m]] spec_Purge_def q)
qed

section \<open>Dead letters and topology\<close>

lemma msgs_sim_frame [simp]:
  "msgs_sim (s\<lparr>ms_deadLetters := m\<rparr>) es = msgs_sim s es"
  "msgs_sim (s\<lparr>ms_deadOrder := ord\<rparr>) es = msgs_sim s es"
  "msgs_sim (s\<lparr>ms_exchanges := xs\<rparr>) es = msgs_sim s es"
  "msgs_sim (s\<lparr>ms_queues := qs\<rparr>) es = msgs_sim s es"
  "msgs_sim (s\<lparr>ms_bindings := bs\<rparr>) es = msgs_sim s es"
  "msgs_sim (s\<lparr>ms_history := h\<rparr>) es = msgs_sim s es"
  "msgs_sim (s\<lparr>ms_closed := c\<rparr>) es = msgs_sim s es"
  by (rule msgs_sim_cong; simp)+

lemma mem_sim_dead:
  "mem_sim s a \<Longrightarrow> dead_ok (s\<lparr>ms_deadLetters := m, ms_deadOrder := ord\<rparr>) \<Longrightarrow>
    ds = dead_list (s\<lparr>ms_deadLetters := m, ms_deadOrder := ord\<rparr>) \<Longrightarrow>
    mem_sim (s\<lparr>ms_deadLetters := m, ms_deadOrder := ord\<rparr>) (a\<lparr>sp_dead := ds\<rparr>)"
  by (simp add: mem_sim_def)

lemma mem_sim_deadD:
  assumes "mem_sim s a"
  shows "dead_ok s" "sp_dead a = dead_list s" "dead_at (sp_dead a) did = mget (ms_deadLetters s) did"
  using assms dead_at_list [of s did] by (simp_all add: mem_sim_def)

lemma save_dead_sim:
  assumes sim: "mem_sim s a"
  shows "fst (memory_SaveDeadLetter s d fresh) = fst (spec_SaveDeadLetter a d fresh) \<and>
    mem_sim (snd (memory_SaveDeadLetter s d fresh)) (snd (spec_SaveDeadLetter a d fresh))"
proof -
  note D = mem_sim_deadD [OF sim] and ok = dead_okD [OF mem_sim_deadD(1) [OF sim]]
  let ?d = "d\<lparr>dl_ID := if dl_ID d = [] then fresh else dl_ID d\<rparr>"
  have d: "(if dl_ID d = [] then d\<lparr>dl_ID := fresh\<rparr> else d) = ?d" by simp
  have c: "sp_closed a = ms_closed s" using sim by (simp add: mem_sim_def)
  let ?s = "s\<lparr>ms_deadLetters := mput (ms_deadLetters s) (dl_ID ?d) ?d, ms_deadOrder := ms_deadOrder s @ [dl_ID ?d]\<rparr>"
  show ?thesis
  proof (cases "ms_closed s \<or> mget (ms_deadLetters s) (dl_ID ?d) \<noteq> None")
    case True
    with sim c D(3) show ?thesis
      unfolding memory_SaveDeadLetter_def spec_SaveDeadLetter_def d Let_def by auto
  next
    case False
    then have new: "mget (ms_deadLetters s) (dl_ID ?d) = None" by blast
    have fresh: "dl_ID ?d \<notin> set (ms_deadOrder s)" using ok(3) [of "dl_ID ?d"] new by blast
    have "dead_ok ?s"
    proof (rule dead_okI)
      show "i \<in> set (ms_deadOrder ?s) \<longleftrightarrow> mget (ms_deadLetters ?s) i \<noteq> None" for i
        using ok(3) [of i] by simp
      show "dl_ID e = i" if "mget (ms_deadLetters ?s) i = Some e" for i e
        using that ok(4) [of i e] by (auto split: if_splits)
    qed (use ok(1,2) fresh in simp_all)
    moreover have "sp_dead a @ [?d] = dead_list ?s"
      using fresh unfolding D(2) by (auto simp: dead_list_def)
    ultimately have "mem_sim ?s (a\<lparr>sp_dead := sp_dead a @ [?d]\<rparr>)"
      by (rule mem_sim_dead [OF sim])
    moreover have "memory_SaveDeadLetter s d fresh = (Inr ?d, ?s)"
      using False unfolding memory_SaveDeadLetter_def d Let_def by simp
    moreover have "spec_SaveDeadLetter a d fresh = (Inr ?d, a\<lparr>sp_dead := sp_dead a @ [?d]\<rparr>)"
      using False c D(3) unfolding spec_SaveDeadLetter_def Let_def by simp
    ultimately show ?thesis by (simp only: fst_conv snd_conv)
  qed
qed

lemma replayed_sim:
  assumes sim: "mem_sim s a"
  shows "fst (memory_MarkDeadLetterReplayed s did as at) = fst (spec_MarkDeadLetterReplayed a did as at) \<and>
    mem_sim (snd (memory_MarkDeadLetterReplayed s did as at)) (snd (spec_MarkDeadLetterReplayed a did as at))"
proof (cases "mget (ms_deadLetters s) did")
  case None
  with sim mem_sim_deadD(3) [OF sim, of did] show ?thesis
    by (simp add: memory_MarkDeadLetterReplayed_def spec_MarkDeadLetterReplayed_def)
next
  case (Some d)
  note D = mem_sim_deadD [OF sim] and ok = dead_okD [OF mem_sim_deadD(1) [OF sim]]
  let ?f = "\<lambda>d. d\<lparr>dl_ReplayedAs := as, dl_ReplayedAt := at, dl_ReplayCount := dl_ReplayCount d + 1\<rparr>"
  let ?s = "s\<lparr>ms_deadLetters := mput (ms_deadLetters s) did (?f d), ms_deadOrder := ms_deadOrder s\<rparr>"
  have "dead_ok ?s"
  proof (rule dead_okI)
    show "i \<in> set (ms_deadOrder ?s) \<longleftrightarrow> mget (ms_deadLetters ?s) i \<noteq> None" for i
      using ok(3) [of i] Some by simp
    show "dl_ID e = i" if "mget (ms_deadLetters ?s) i = Some e" for i e
      using that ok(4) [of i e] ok(4) [OF Some] by (auto split: if_splits)
  qed (use ok(1,2) in simp_all)
  moreover have "map (\<lambda>d. if dl_ID d = did then ?f d else d) (sp_dead a) = dead_list ?s"
  proof -
    have "(if dl_ID (the (mget (ms_deadLetters s) i)) = did then ?f (the (mget (ms_deadLetters s) i))
        else the (mget (ms_deadLetters s) i)) = the (mget (ms_deadLetters ?s) i)"
      if "i \<in> set (ms_deadOrder s)" for i
      using that ok(3) [of i] ok(4) [of i] Some by (cases "mget (ms_deadLetters s) i") auto
    then show ?thesis unfolding D(2) by (simp add: dead_list_def)
  qed
  ultimately have "mem_sim ?s (a\<lparr>sp_dead := map (\<lambda>d. if dl_ID d = did then ?f d else d) (sp_dead a)\<rparr>)"
    by (rule mem_sim_dead [OF sim])
  then show ?thesis
    using Some D(3) [of did]
    by (simp add: memory_MarkDeadLetterReplayed_def spec_MarkDeadLetterReplayed_def)
qed

lemma delete_dead_sim:
  assumes sim: "mem_sim s a"
  shows "fst (memory_DeleteDeadLetter s did) = fst (spec_DeleteDeadLetter a did) \<and>
    mem_sim (snd (memory_DeleteDeadLetter s did)) (snd (spec_DeleteDeadLetter a did))"
proof (cases "mget (ms_deadLetters s) did = None")
  case True
  with sim mem_sim_deadD(3) [OF sim, of did] show ?thesis
    by (simp add: memory_DeleteDeadLetter_def spec_DeleteDeadLetter_def)
next
  case False
  note D = mem_sim_deadD [OF sim] and ok = dead_okD [OF mem_sim_deadD(1) [OF sim]]
  let ?ord = "filter (\<lambda>i. i \<noteq> did) (ms_deadOrder s)"
  let ?s = "s\<lparr>ms_deadLetters := mdel (ms_deadLetters s) did, ms_deadOrder := ?ord\<rparr>"
  have "remove1 did (ms_deadOrder s) = ?ord" by (rule distinct_remove1_filter [OF ok(2)])
  moreover have "dead_ok ?s"
  proof (rule dead_okI)
    show "i \<in> set (ms_deadOrder ?s) \<longleftrightarrow> mget (ms_deadLetters ?s) i \<noteq> None" for i
      using ok(3) [of i] by simp
    show "dl_ID e = i" if "mget (ms_deadLetters ?s) i = Some e" for i e
      using that ok(4) [of i e] by (simp split: if_splits)
  qed (use ok(1,2) in simp_all)
  moreover have "filter (\<lambda>d. dl_ID d \<noteq> did) (sp_dead a) = dead_list ?s"
  proof -
    have "dl_ID (the (mget (ms_deadLetters s) i)) = i" if "i \<in> set (ms_deadOrder s)" for i
      using that ok(3) [of i] ok(4) [of i] by (cases "mget (ms_deadLetters s) i") auto
    then have "filter (\<lambda>i. dl_ID (the (mget (ms_deadLetters s) i)) \<noteq> did) (ms_deadOrder s) = ?ord"
      by (intro filter_cong) auto
    then show ?thesis unfolding D(2) by (simp add: dead_list_def filter_map comp_def)
  qed
  moreover from calculation have "mem_sim ?s (a\<lparr>sp_dead := filter (\<lambda>d. dl_ID d \<noteq> did) (sp_dead a)\<rparr>)"
    by (intro mem_sim_dead [OF sim])
  ultimately show ?thesis
    unfolding memory_DeleteDeadLetter_def spec_DeleteDeadLetter_def D(3) by (simp add: False)
qed

lemma count_dead_sim:
  assumes "mem_sim s a"
  shows "memory_CountDeadLetters s q = spec_CountDeadLetters a q"
proof -
  let ?P = "\<lambda>d. q = [] \<or> dl_Queue d = q"
  have "mset (filter ?P (mvals (ms_deadLetters s))) = mset (filter ?P (dead_list s))"
    using dead_mset [OF mem_sim_deadD(1) [OF assms]] by (simp only: mset_filter)
  then have "length (filter ?P (mvals (ms_deadLetters s))) = length (filter ?P (dead_list s))"
    by (rule mset_eq_length)
  then show ?thesis
    using mem_sim_deadD(2) [OF assms] by (simp only: memory_CountDeadLetters_def spec_CountDeadLetters_def)
qed

lemma mem_sim_simps:
  assumes "mem_sim s a"
  shows "sp_closed a = ms_closed s" "sp_exchanges a = ms_exchanges s" "sp_queues a = ms_queues s"
    "sp_bindings a = ms_bindings s" "sp_history a = ms_history s" "msgs_sim s (sp_entries a)"
    "msgs_ok s"
  using assms msgs_simD(1) by (auto simp: mem_sim_def)

lemma topology_sim:
  assumes "mem_sim s a"
  shows "mem_sim (s\<lparr>ms_exchanges := es\<rparr>) (a\<lparr>sp_exchanges := es\<rparr>)"
    "mem_sim (s\<lparr>ms_queues := qs\<rparr>) (a\<lparr>sp_queues := qs\<rparr>)"
    "mem_sim (s\<lparr>ms_bindings := bs\<rparr>) (a\<lparr>sp_bindings := bs\<rparr>)"
    "mem_sim (s\<lparr>ms_history := h\<rparr>) (a\<lparr>sp_history := h\<rparr>)"
    "mem_sim (s\<lparr>ms_closed := c\<rparr>) (a\<lparr>sp_closed := c\<rparr>)"
  using assms by (simp_all add: mem_sim_def dead_ok_def dead_list_def)

lemma bindingKey_key: "bindingKey = BindingSpec_key"
  by (simp add: fun_eq_iff bindingKey_def BindingSpec_key_def)

lemma message_sim: "mem_sim s a \<Longrightarrow> memory_Message s mid = spec_Message a mid"
  using msgs_simD(3) [of s "sp_entries a" mid]
  by (cases "mget (ms_messages s) mid") (auto simp: mem_sim_def memory_Message_def spec_Message_def)

lemma mem_sim_New: "mem_sim memory_New spec_New"
proof -
  have "msgs_ok memory_New" "dead_ok memory_New" using memory_New_ok by (simp_all add: store_ok_def)
  then show ?thesis
    by (simp add: mem_sim_def msgs_sim_def dead_list_def spec_New_def entry_at_def live_ids_def)
      (simp add: memory_New_def)
qed

lemma mem_sim_exec:
  assumes sim: "mem_sim s a" and "op_ok op"
  shows "fst (exec memory_store s op) = fst (exec spec_store a op) \<and>
    mem_sim (snd (exec memory_store s op)) (snd (exec spec_store a op))"
proof -
  note S = mem_sim_simps [OF sim]
  note ops = memory_store_def spec_store_def
  show ?thesis
  proof (cases op)
    case (OpAppend ms)
    then show ?thesis using append_mem_sim [OF sim, of ms] assms(2) by (simp add: ops)
  next
    case (OpClaim req)
    then show ?thesis using claim_mem_sim [OF sim, of req] by (simp add: ops)
  next
    case (OpAcknowledge i t)
    then show ?thesis
      using update_mem_sim [OF sim ends_lease_ops(1), of i t]
      by (simp add: ops Acknowledge_update [OF S(7)] spec_Acknowledge_def)
  next
    case (OpScheduleRetry req)
    then show ?thesis
      using update_mem_sim [OF sim ends_lease_ops(2), of "rr_ID req" req]
      by (simp add: ops ScheduleRetry_update [OF S(7)] spec_ScheduleRetry_def)
  next
    case (OpRelease i t)
    then show ?thesis
      using update_mem_sim [OF sim ends_lease_ops(3), of i t]
      by (simp add: ops Release_update [OF S(7)] spec_Release_def)
  next
    case (OpMarkDeadLettered i r t)
    then show ?thesis
      using update_mem_sim [OF sim ends_lease_ops(4), of i r t]
      by (simp add: ops MarkDeadLettered_update spec_MarkDeadLettered_def)
  next
    case (OpPurge q)
    then show ?thesis using purge_mem_sim [OF sim, of q] by (simp add: ops)
  next
    case (OpSaveDeadLetter d i)
    then show ?thesis using save_dead_sim [OF sim, of d i] by (simp add: ops)
  next
    case (OpMarkDeadLetterReplayed i r t)
    then show ?thesis using replayed_sim [OF sim, of i r t] by (simp add: ops)
  next
    case (OpDeleteDeadLetter i)
    then show ?thesis using delete_dead_sim [OF sim, of i] by (simp add: ops)
  next
    case (OpDeadLetter i)
    then show ?thesis
      using sim mem_sim_deadD(3) [OF sim, of i]
      by (simp add: ops memory_DeadLetter_def spec_DeadLetter_def)
  next
    case (OpSaveExchange e)
    then show ?thesis
      using sim topology_sim(1) [OF sim]
      by (simp add: ops memory_SaveExchange_def spec_save_def S)
  next
    case OpExchanges
    then show ?thesis
      using sim
      by (simp add: ops memory_Exchanges_def S)
  next
    case (OpSaveQueue q)
    then show ?thesis
      using sim topology_sim(2) [OF sim]
      by (simp add: ops memory_SaveQueue_def spec_save_def S)
  next
    case OpQueues
    then show ?thesis
      using sim
      by (simp add: ops memory_Queues_def S)
  next
    case (OpDeleteQueue n)
    then show ?thesis
      using assms(2)
      by (simp add: ops)
  next
    case (OpSaveBinding b)
    then show ?thesis
      using sim topology_sim(3) [OF sim]
      by (simp add: ops memory_SaveBinding_def spec_save_def S bindingKey_key)
  next
    case OpBindings
    then show ?thesis
      using sim
      by (simp add: ops memory_Bindings_def S bindingKey_key)
  next
    case (OpDeleteBinding b)
    then show ?thesis
      using sim topology_sim(3) [OF sim]
      by (simp add: ops memory_DeleteBinding_def S bindingKey_key Let_def)
  next
    case (OpMessage i)
    then show ?thesis
      using sim message_sim [OF sim, of i]
      by (simp add: ops)
  next
    case (OpExpiredLeases t l)
    then show ?thesis
      using sim expired_sim [OF S(6), of t l]
      by (simp add: ops)
  next
    case (OpDepth q)
    then show ?thesis
      using sim Depth_sim [OF S(6,3), of q]
      by (simp add: ops)
  next
    case (OpDeadLetters f)
    then show ?thesis
      using sim DeadLetters_eq [OF mem_sim_deadD(1,2) [OF sim], of f]
      by (simp add: ops)
  next
    case (OpCountDeadLetters q)
    then show ?thesis
      using sim count_dead_sim [OF sim, of q]
      by (simp add: ops)
  next
    case (OpAppendHistory h)
    then show ?thesis
      using sim topology_sim(4) [OF sim]
      by (simp add: ops memory_AppendHistory_def spec_save_def S)
  next
    case (OpHistory i)
    then show ?thesis
      using sim
      by (simp add: ops memory_History_def S)
  next
    case OpClose
    then show ?thesis
      using sim topology_sim(5) [OF sim]
      by (simp add: ops memory_Close_def)
  qed
qed

interpretation memory: store_refinement memory_store memory_New mem_sim
  by unfold_locales (rule mem_sim_New, rule mem_sim_exec)

end
