(* ===== verification/MemoryProps.thy ===== *)
theory MemoryProps
  imports MemoryRefine
begin

text \<open>
  The properties of the in-memory store: refinement and invariant over every sequence of calls,
  first-in first-out claiming with invisible compaction, exclusive leases, and the life of a message
  between its append and its end.
\<close>

section \<open>The invariant over all calls\<close>

definition store_inv :: "Store \<Rightarrow> bool" where
  "store_inv s \<longleftrightarrow> (\<exists>a. mem_sim s a)"

fun op_safe :: "store_op \<Rightarrow> bool" where
  "op_safe (OpAppend ms) = appendable ms"
| "op_safe _ = True"

lemma store_inv_ok: "store_inv s \<Longrightarrow> store_ok s"
  by (auto simp: store_inv_def mem_sim_def store_ok_def dest: msgs_simD(1))

lemma store_inv_msgs: "store_inv s \<Longrightarrow> msgs_ok s"
  using store_inv_ok by (simp add: store_ok_def)

lemma DeleteQueue_eq:
  "memory_DeleteQueue s n = (if mget (ms_queues s) n = None then (Some ErrNotFound, s)
    else (None, (dropped s n (\<lambda>_. False))\<lparr>ms_queues := mdel (ms_queues s) n\<rparr>))"
  by (simp add: memory_DeleteQueue_def dropped_def)

lemma DeleteQueue_inv:
  assumes "store_inv s"
  shows "store_inv (snd (memory_DeleteQueue s n))"
proof (cases "mget (ms_queues s) n = None")
  case True
  with assms show ?thesis by (simp add: memory_DeleteQueue_def)
next
  case False
  obtain a where a: "mem_sim s a" using assms by (auto simp: store_inv_def)
  let ?s = "dropped s n (\<lambda>_. False)"
  have "msgs_sim ?s (filter (\<lambda>e. \<not> drops s n (\<lambda>_. False) (en_ID e)) (sp_entries a))"
    using mem_sim_simps(6) [OF a] by (rule dropped_sim) simp
  moreover have "msgs_change s ?s" by (simp add: msgs_change_def dropped_def)
  ultimately have "mem_sim ?s (a\<lparr>sp_entries := filter (\<lambda>e. \<not> drops s n (\<lambda>_. False) (en_ID e)) (sp_entries a)\<rparr>)"
    by (rule mem_sim_msgs [OF a, rotated])
  from topology_sim(2) [OF this, of "mdel (ms_queues s) n"] show ?thesis
    unfolding DeleteQueue_eq store_inv_def using False by auto
qed

lemma exec_inv:
  assumes "store_inv s" and "op_safe op"
  shows "store_inv (snd (exec memory_store s op))"
proof (cases "op_ok op")
  case True
  obtain a where "mem_sim s a" using assms(1) by (auto simp: store_inv_def)
  with mem_sim_exec [OF this True] show ?thesis by (auto simp: store_inv_def)
next
  case False
  with assms(2) obtain n where "op = OpDeleteQueue n" by (cases op) auto
  with DeleteQueue_inv [OF assms(1), of n] show ?thesis by (simp add: memory_store_def)
qed

lemma run_inv:
  "store_inv s \<Longrightarrow> list_all op_safe calls \<Longrightarrow> store_inv (snd (run memory_store s calls))"
  by (induction calls arbitrary: s) (auto simp: split_def Let_def exec_inv)

lemma store_inv_New: "store_inv memory_New"
  using mem_sim_New by (auto simp: store_inv_def)

section \<open>Claiming\<close>

definition claim_ids :: "Store \<Rightarrow> ClaimRequest \<Rightarrow> string list" where
  "claim_ids s req = take (nat (cr_Limit req))
     (filter (claimable_in (ms_messages s) (cr_Now req)) (ms_order s (cr_Queue req)))"

lemma claim_ids_claimable: "i \<in> set (claim_ids s req) \<Longrightarrow> claimable_in (ms_messages s) (cr_Now req) i"
  by (auto simp: claim_ids_def dest: in_set_takeD)

lemma claim_eq:
  assumes ok: "msgs_ok s" and "\<not> ms_closed s" and "0 \<le> cr_Limit req"
  obtains ids where
    "memory_Claim s req =
      (Inr (map (\<lambda>i. claimed_msg req (rec_msg (the (mget (ms_messages s) i)))) (claim_ids s req)),
       (reindexed s (cr_Queue req) ids)\<lparr>ms_messages :=
          fold (\<lambda>i m. mput m i (claimed_rec req (the (mget (ms_messages s) i)))) (claim_ids s req)
            (ms_messages s)\<rparr>)"
    "filter (\<lambda>i. \<not> isSettledLocked s i) ids = live_ids s (cr_Queue req)"
    "int (length (filter (isSettledLocked s) ids)) < compactionThreshold \<or>
      int (length (filter (isSettledLocked s) ids)) * 2 < int (length ids)"
proof -
  let ?q = "cr_Queue req"
  obtain ids where ids: "compactLocked s ?q = (None, reindexed s ?q ids)" "distinct ids"
      "filter (\<lambda>i. \<not> isSettledLocked s i) ids = live_ids s ?q"
      "ms_settled (reindexed s ?q ids) ?q < compactionThreshold \<or>
        ms_settled (reindexed s ?q ids) ?q * 2 < int (length ids)"
    by (rule compact_reindexes [OF ok, of ?q])
  let ?P = "claimable_in (ms_messages s) (cr_Now req)"
  have imp: "\<not> isSettledLocked s i" if "?P i" for i
    using that by (auto simp: claimable_in_def claimable_def isSettledLocked_def
        split: option.splits if_splits)
  have "filter ?P xs = filter ?P (filter (\<lambda>i. \<not> isSettledLocked s i) xs)" for xs
    unfolding filter_filter using imp by (intro filter_cong) auto
  then have sel: "filter ?P ids = filter ?P (ms_order s ?q)"
    using ids(3) by (metis live_ids_def)
  have "claim_loop req ids (ms_messages s) [] =
      (Inr (map (\<lambda>i. claimed_msg req (rec_msg (the (mget (ms_messages s) i)))) (claim_ids s req)),
       fold (\<lambda>i m. mput m i (claimed_rec req (the (mget (ms_messages s) i)))) (claim_ids s req)
         (ms_messages s))"
    using claim_loop_spec [OF ids(2), of req "ms_messages s" "[]"] by (simp add: sel claim_ids_def Let_def)
  moreover have "ms_order (reindexed s ?q ids) ?q = ids" "ms_messages (reindexed s ?q ids) = ms_messages s"
    by (simp_all add: reindexed_def)
  ultimately show ?thesis
    using ids(1,3,4) assms(2,3)
    by (intro that [of ids]) (simp_all add: memory_Claim_def reindexed_def)
qed

lemma claimed_rec_msg [simp]: "rec_msg (claimed_rec req r) = claimed_msg req (rec_msg r)"
  by (simp add: claimed_rec_def)

lemma get_claimed:
  "mget (fold (\<lambda>i m. mput m i (claimed_rec req (the (mget msgs i)))) ids msgs0) i =
    (if i \<in> set ids then Some (claimed_rec req (the (mget msgs i))) else mget msgs0 i)"
  by (induction ids arbitrary: msgs0) auto

section \<open>The life of a message\<close>

text \<open>\<open>evolves m m'\<close>: the content of the message is untouched, its state moved along the transition
  table, it was never delivered fewer times, and once settled nothing about it changes.\<close>

definition evolves :: "Message \<Rightarrow> Message \<Rightarrow> bool" where
  "evolves m m' \<longleftrightarrow>
    m' = m\<lparr> msg_State := msg_State m', msg_Attempts := msg_Attempts m', msg_LastError := msg_LastError m',
            msg_UpdatedAt := msg_UpdatedAt m', msg_AvailableAt := msg_AvailableAt m' \<rparr> \<and>
    CanTransitionTo\<^sup>*\<^sup>* (msg_State m) (msg_State m') \<and> msg_Attempts m \<le> msg_Attempts m' \<and>
    (State_Terminal (msg_State m) \<longrightarrow> m' = m)"

lemma evolves_refl [simp]: "evolves m m"
  by (simp add: evolves_def)

lemma evolves_trans: "evolves a b \<Longrightarrow> evolves b c \<Longrightarrow> evolves a c"
proof -
  assume ab: "evolves a b" and bc: "evolves b c"
  have "c = a\<lparr> msg_State := msg_State c, msg_Attempts := msg_Attempts c, msg_LastError := msg_LastError c,
      msg_UpdatedAt := msg_UpdatedAt c, msg_AvailableAt := msg_AvailableAt c \<rparr>"
    using ab bc unfolding evolves_def by (cases a; cases b; cases c) simp
  moreover have "CanTransitionTo\<^sup>*\<^sup>* (msg_State a) (msg_State c)"
    using ab bc unfolding evolves_def by (meson rtranclp_trans)
  moreover have "msg_Attempts a \<le> msg_Attempts c"
    using ab bc unfolding evolves_def by linarith
  moreover have "State_Terminal (msg_State a) \<longrightarrow> c = a"
    using ab bc unfolding evolves_def by auto
  ultimately show "evolves a c" unfolding evolves_def by blast
qed

lemma can_paths:
  "CanTransitionTo\<^sup>*\<^sup>* StateProcessing StateAcknowledged" "CanTransitionTo\<^sup>*\<^sup>* StateProcessing StateRetrying"
  "CanTransitionTo\<^sup>*\<^sup>* StateProcessing StateQueued" "CanTransitionTo\<^sup>*\<^sup>* StateProcessing StateDeadLettered"
  "CanTransitionTo\<^sup>*\<^sup>* StateFailed StateDeadLettered" "CanTransitionTo\<^sup>*\<^sup>* StateQueued StateProcessing"
  "CanTransitionTo\<^sup>*\<^sup>* StateRetrying StateProcessing"
proof -
  have 1: "CanTransitionTo StateProcessing StateAcknowledged" "CanTransitionTo StateProcessing StateFailed"
    "CanTransitionTo StateProcessing StateQueued" "CanTransitionTo StateFailed StateRetrying"
    "CanTransitionTo StateFailed StateDeadLettered" "CanTransitionTo StateQueued StateProcessing"
    "CanTransitionTo StateRetrying StateQueued" by (simp_all add: CanTransitionTo_iff)
  show "CanTransitionTo\<^sup>*\<^sup>* StateProcessing StateAcknowledged" "CanTransitionTo\<^sup>*\<^sup>* StateProcessing StateRetrying"
    "CanTransitionTo\<^sup>*\<^sup>* StateProcessing StateQueued" "CanTransitionTo\<^sup>*\<^sup>* StateProcessing StateDeadLettered"
    "CanTransitionTo\<^sup>*\<^sup>* StateFailed StateDeadLettered" "CanTransitionTo\<^sup>*\<^sup>* StateQueued StateProcessing"
    "CanTransitionTo\<^sup>*\<^sup>* StateRetrying StateProcessing"
    using 1 by (meson rtranclp.simps)+
qed

lemma evolves_changes:
  "msg_State m = StateProcessing \<Longrightarrow> evolves m (acked_msg at m)"
  "msg_State m = StateProcessing \<Longrightarrow> evolves m (retry_msg req m)"
  "msg_State m = StateProcessing \<Longrightarrow> evolves m (released_msg at m)"
  "msg_State m \<in> {StateProcessing, StateFailed} \<Longrightarrow> evolves m (buried_msg reason at m)"
  "claimable m now \<Longrightarrow> evolves m (claimed_msg creq m)"
  by (auto simp: evolves_def msg_change_defs can_paths claimable_def split: if_splits)

text \<open>\<open>survives s s'\<close>: every message of \<open>s\<close> is in \<open>s'\<close> and has evolved.\<close>

definition survives :: "Store \<Rightarrow> Store \<Rightarrow> bool" where
  "survives s s' \<longleftrightarrow> (\<forall>i r. mget (ms_messages s) i = Some r \<longrightarrow>
     (\<exists>r'. mget (ms_messages s') i = Some r' \<and> evolves (rec_msg r) (rec_msg r')))"

lemma survivesI:
  "(\<And>i r. mget (ms_messages s) i = Some r \<Longrightarrow>
     \<exists>r'. mget (ms_messages s') i = Some r' \<and> evolves (rec_msg r) (rec_msg r')) \<Longrightarrow> survives s s'"
  by (simp add: survives_def)

lemma survives_same: "ms_messages s' = ms_messages s \<Longrightarrow> survives s s'"
  by (simp add: survives_def)

lemma survives_trans: "survives a b \<Longrightarrow> survives b c \<Longrightarrow> survives a c"
  unfolding survives_def by (meson evolves_trans)

lemma update_survives:
  assumes "\<And>m m'. f m = Inr m' \<Longrightarrow> evolves m m'"
  shows "survives s (snd (mem_update s mid f))"
proof (rule survivesI)
  fix i r assume r: "mget (ms_messages s) i = Some r"
  show "\<exists>r'. mget (ms_messages (snd (mem_update s mid f))) i = Some r' \<and> evolves (rec_msg r) (rec_msg r')"
  proof (cases "i = mid")
    case True
    with r assms [of "rec_msg r"] show ?thesis
      by (cases "f (rec_msg r)") (auto simp: mem_update_def replace_def)
  next
    case False
    with r show ?thesis
      by (auto simp: mem_update_def replace_def split: option.split sum.split)
  qed
qed

lemma append_survives:
  assumes "\<forall>m\<in>set ms. mget (ms_messages s) (msg_ID m) = None"
  shows "survives s (fold append_one ms s)"
proof -
  have "mget (ms_messages (fold append_one ms s)) i = mget (ms_messages s) i"
    if "i \<notin> msg_ID ` set ms" for i s
    using that by (induction ms arbitrary: s) auto
  moreover have "i \<notin> msg_ID ` set ms" if "mget (ms_messages s) i = Some r" for i r
    using assms that by force
  ultimately show ?thesis unfolding survives_def by force
qed

lemma claim_survives:
  assumes ok: "msgs_ok s"
  shows "survives s (snd (memory_Claim s req))"
proof (cases "ms_closed s \<or> cr_Limit req < 0")
  case True
  obtain ids where "compactLocked s (cr_Queue req) = (None, reindexed s (cr_Queue req) ids)"
    by (rule compact_reindexes [OF ok, of "cr_Queue req"])
  with True show ?thesis by (auto simp: memory_Claim_def reindexed_def intro!: survives_same)
next
  case False
  then have lim: "\<not> ms_closed s" "0 \<le> cr_Limit req" by auto
  obtain ids where c: "snd (memory_Claim s req) = (reindexed s (cr_Queue req) ids)\<lparr>ms_messages :=
      fold (\<lambda>i m. mput m i (claimed_rec req (the (mget (ms_messages s) i)))) (claim_ids s req)
        (ms_messages s)\<rparr>"
    by (rule claim_eq [OF ok lim]) simp
  show ?thesis
  proof (rule survivesI)
    fix i r assume r: "mget (ms_messages s) i = Some r"
    show "\<exists>r'. mget (ms_messages (snd (memory_Claim s req))) i = Some r' \<and> evolves (rec_msg r) (rec_msg r')"
    proof (cases "i \<in> set (claim_ids s req)")
      case True
      then have "claimable (rec_msg r) (cr_Now req)"
        using claim_ids_claimable [OF True] r by (simp add: claimable_in_def)
      with True r show ?thesis
        by (auto simp: c get_claimed intro: evolves_changes(5))
    qed (use r in \<open>simp add: c get_claimed\<close>)
  qed
qed

fun op_keeps :: "store_op \<Rightarrow> bool" where
  "op_keeps (OpAppend ms) = appendable ms"
| "op_keeps (OpDeleteQueue n) = False"
| "op_keeps (OpPurge q) = False"
| "op_keeps _ = True"

lemma exec_survives:
  assumes inv: "store_inv s" and "op_keeps op"
  shows "survives s (snd (exec memory_store s op))"
proof -
  note ok = store_inv_msgs [OF inv]
  note ev = evolves_changes
  show ?thesis
  proof (cases op)
    case (OpAppend ms)
    show ?thesis
    proof (cases "ms_closed s \<or> list_ex (\<lambda>m. mget (ms_messages s) (msg_ID m) \<noteq> None) ms")
      case True
      then show ?thesis
        using OpAppend by (auto simp: memory_store_def memory_Append_def intro: survives_same)
    next
      case False
      then have "\<forall>m\<in>set ms. mget (ms_messages s) (msg_ID m) = None" by (auto simp: list_ex_iff)
      from append_survives [OF this] False OpAppend show ?thesis
        by (simp add: memory_store_def memory_Append_def)
    qed
  next
    case (OpClaim req)
    then show ?thesis using claim_survives [OF ok] by (simp add: memory_store_def)
  next
    case (OpAcknowledge i t)
    then show ?thesis
      by (auto simp: memory_store_def Acknowledge_update [OF ok] if_leased_def
          intro!: update_survives ev split: if_splits)
  next
    case (OpScheduleRetry req)
    then show ?thesis
      by (auto simp: memory_store_def ScheduleRetry_update [OF ok] if_leased_def
          intro!: update_survives ev split: if_splits)
  next
    case (OpRelease i t)
    then show ?thesis
      by (auto simp: memory_store_def Release_update [OF ok] if_leased_def
          intro!: update_survives ev split: if_splits)
  next
    case (OpMarkDeadLettered i r t)
    then show ?thesis
      by (auto simp: memory_store_def MarkDeadLettered_update
          intro!: update_survives ev split: if_splits)
  qed (use assms(2) in \<open>auto simp: memory_store_def memory_SaveExchange_def memory_SaveQueue_def
      memory_SaveBinding_def memory_DeleteBinding_def memory_SaveDeadLetter_def
      memory_MarkDeadLetterReplayed_def memory_DeleteDeadLetter_def memory_AppendHistory_def
      memory_Close_def Let_def intro!: survives_same split: option.split\<close>)
qed

lemma run_survives:
  "store_inv s \<Longrightarrow> list_all op_keeps calls \<Longrightarrow> survives s (snd (run memory_store s calls))"
proof (induction calls arbitrary: s)
  case Nil
  then show ?case by (simp add: survives_same)
next
  case (Cons op calls)
  have "op_keeps op" "list_all op_keeps calls" using Cons.prems(2) by simp_all
  moreover have "op_safe op" using \<open>op_keeps op\<close> by (cases op) auto
  ultimately show ?case
    using survives_trans [OF exec_survives [OF Cons.prems(1)] Cons.IH [OF exec_inv [OF Cons.prems(1)]]]
    by (simp add: split_def Let_def)
qed

section \<open>Examples\<close>

definition ex_msg :: "string \<Rightarrow> Message" where
  "ex_msg i =
    \<lparr> msg_ID = i, msg_Exchange = ''orders'', msg_RoutingKey = ''order.created'', msg_Queue = ''billing'',
      msg_Schema = [], msg_Payload = ''{}'', msg_Headers = [], msg_State = StateQueued,
      msg_Attempts = 0, msg_MaxAttempts = 3, msg_LastError = [], msg_CreatedAt = 10,
      msg_UpdatedAt = 10, msg_AvailableAt = 10 \<rparr>"

definition ex_queue :: Queue where
  "ex_queue = \<lparr> q_Spec = \<lparr> qs_Name = ''billing'', qs_Durable = True, qs_MaxAttempts = 3,
      qs_VisibilityTimeout = 30 * second, qs_Schema = [] \<rparr>, q_CreatedAt = 1 \<rparr>"

definition ex_claim :: ClaimRequest where
  "ex_claim = \<lparr> cr_Queue = ''billing'', cr_Consumer = ''worker'', cr_Limit = 1, cr_Lease = 30 * second,
     cr_Now = 20 \<rparr>"

definition ex_calls :: "store_op list" where
  "ex_calls = [OpSaveQueue ex_queue, OpAppend [ex_msg ''m1'', ex_msg ''m2'']]"

definition ex_store :: Store where
  "ex_store = snd (run memory_store memory_New ex_calls)"

lemma ex_calls_ok: "list_all op_ok ex_calls" "list_all op_safe ex_calls"
  by (simp_all add: ex_calls_def appendable_def ex_msg_def)

lemma ex_store_inv: "store_inv ex_store"
  unfolding ex_store_def by (rule run_inv [OF store_inv_New ex_calls_ok(2)])

section \<open>Properties\<close>



text \<open>(invariant) After any sequence of calls, queue deletions included, the store is well
  formed: every record is stored under its own identifier in a valid state, only a message in
  processing has a lease, the index of a queue lists each identifier once and every unsettled
  message of the queue, the settled counter is the number of settled identifiers in the index, and
  the dead-letter order lists exactly the dead letters.\<close>

lemma memory_store_invariant:
  assumes "list_all op_safe calls"
  shows "store_ok (snd (run memory_store memory_New calls))"
  by (rule store_inv_ok [OF run_inv [OF store_inv_New assms]])

text \<open>C16: (claim) On an open store with a limit that is not negative, \<open>Claim\<close> succeeds and returns
  the first \<open>Limit\<close> claimable messages of the queue in append order, each in processing with one
  more attempt and a lease for the consumer until \<open>Now + Lease\<close>; every other record is untouched.
  The compaction it performs never panics, changes no unsettled identifier of the queue and leaves
  fewer than 64 settled identifiers in the index or fewer than half of it.\<close>

theorem memory_Claim_fifo:
  assumes "store_ok s" and "\<not> ms_closed s" and "0 \<le> cr_Limit req"
    and "memory_Claim s req = (res, s')"
  shows "res = Inr (map (\<lambda>i. claimed_msg req (rec_msg (the (mget (ms_messages s) i)))) (claim_ids s req)) \<and>
    (\<forall>i. mget (ms_messages s') i =
       (if i \<in> set (claim_ids s req)
        then Some (claimed_rec req (the (mget (ms_messages s) i))) else mget (ms_messages s) i)) \<and>
    live_ids s' (cr_Queue req) = live_ids s (cr_Queue req) \<and>
    (let settled = length (filter (isSettledLocked s') (ms_order s' (cr_Queue req)))
     in settled < 64 \<or> 2 * settled < length (ms_order s' (cr_Queue req)))"
proof -
  have ok: "msgs_ok s" using assms(1) by (simp add: store_ok_def)
  let ?q = "cr_Queue req"
  let ?msgs = "fold (\<lambda>i m. mput m i (claimed_rec req (the (mget (ms_messages s) i)))) (claim_ids s req)
      (ms_messages s)"
  obtain ids where c: "memory_Claim s req =
      (Inr (map (\<lambda>i. claimed_msg req (rec_msg (the (mget (ms_messages s) i)))) (claim_ids s req)),
       (reindexed s ?q ids)\<lparr>ms_messages := ?msgs\<rparr>)"
    and live: "filter (\<lambda>i. \<not> isSettledLocked s i) ids = live_ids s ?q"
    and bound: "int (length (filter (isSettledLocked s) ids)) < compactionThreshold \<or>
      int (length (filter (isSettledLocked s) ids)) * 2 < int (length ids)"
    by (rule claim_eq [OF ok assms(2,3)])
  have s': "s' = (reindexed s ?q ids)\<lparr>ms_messages := ?msgs\<rparr>" using c assms(4) by simp
  have "isSettledLocked s' i = isSettledLocked s i" for i
  proof (cases "i \<in> set (claim_ids s req)")
    case True
    then show ?thesis
      using claim_ids_claimable [OF True]
      by (auto simp: isSettledLocked_def s' get_claimed claimable_in_def claimable_def
          split: option.splits if_splits)
  qed (simp add: isSettledLocked_def s' get_claimed)
  then have settled: "isSettledLocked s' = isSettledLocked s" by (rule ext)
  have order: "ms_order s' ?q = ids" by (simp add: s' reindexed_def)
  have "live_ids s' ?q = live_ids s ?q" unfolding live_ids_def settled order using live by (simp add: live_ids_def)
  moreover have "mget (ms_messages s') i = (if i \<in> set (claim_ids s req)
      then Some (claimed_rec req (the (mget (ms_messages s) i))) else mget (ms_messages s) i)" for i
    by (simp add: s' get_claimed)
  ultimately show ?thesis
    using c assms(4) bound unfolding settled order by (auto simp: compactionThreshold_def Let_def)
qed

theorem memory_Claim_fifo_witness:
  "fst (memory_Claim ex_store ex_claim) = Inr [claimed_msg ex_claim (ex_msg ''m1'')]"
proof -
  have "\<not> ms_closed ex_store" "0 \<le> cr_Limit ex_claim" by code_simp+
  from memory_Claim_fifo [OF store_inv_ok [OF ex_store_inv] this, of "fst (memory_Claim ex_store ex_claim)"
      "snd (memory_Claim ex_store ex_claim)"]
  have "fst (memory_Claim ex_store ex_claim) =
      Inr (map (\<lambda>i. claimed_msg ex_claim (rec_msg (the (mget (ms_messages ex_store) i)))) (claim_ids ex_store ex_claim))"
    by simp
  moreover have "map (\<lambda>i. claimed_msg ex_claim (rec_msg (the (mget (ms_messages ex_store) i))))
      (claim_ids ex_store ex_claim) = [claimed_msg ex_claim (ex_msg ''m1'')]" by code_simp
  ultimately show ?thesis by simp
qed

lemma Claim_Inr:
  assumes ok: "msgs_ok s" and c: "memory_Claim s req = (Inr ms, s')"
  shows "map msg_ID ms = claim_ids s req"
    and "mget (ms_messages s') i = (if i \<in> set (claim_ids s req)
      then Some (claimed_rec req (the (mget (ms_messages s) i))) else mget (ms_messages s) i)"
proof -
  obtain ids where "compactLocked s (cr_Queue req) = (None, reindexed s (cr_Queue req) ids)"
    by (rule compact_reindexes [OF ok, of "cr_Queue req"])
  with c have lim: "\<not> ms_closed s" "0 \<le> cr_Limit req" by (auto simp: memory_Claim_def split: if_splits)
  obtain ix where ix: "memory_Claim s req =
      (Inr (map (\<lambda>i. claimed_msg req (rec_msg (the (mget (ms_messages s) i)))) (claim_ids s req)),
       (reindexed s (cr_Queue req) ix)\<lparr>ms_messages :=
          fold (\<lambda>i m. mput m i (claimed_rec req (the (mget (ms_messages s) i)))) (claim_ids s req)
            (ms_messages s)\<rparr>)"
    by (rule claim_eq [OF ok lim])
  have "msg_ID (rec_msg (the (mget (ms_messages s) i))) = i" if i: "i \<in> set (claim_ids s req)" for i
    using claim_ids_claimable [OF i] rec_ID [OF ok, of i]
    by (cases "mget (ms_messages s) i") (auto simp: claimable_in_def)
  then show "map msg_ID ms = claim_ids s req" using ix c by (auto intro!: map_idI)
  show "mget (ms_messages s') i = (if i \<in> set (claim_ids s req)
      then Some (claimed_rec req (the (mget (ms_messages s) i))) else mget (ms_messages s) i)"
    using ix c by (simp add: get_claimed)
qed

text \<open>C17: (exclusive leases) Two claims one after the other, on any queues, at any times and with
  any limits, never return the same message: what is leased is not handed out again.\<close>

theorem Claim_exclusive:
  assumes "store_inv s" and "memory_Claim s req = (Inr ms, s')" and "memory_Claim s' req' = (Inr ms', s'')"
  shows "msg_ID ` set ms \<inter> msg_ID ` set ms' = {}"
proof -
  have "store_inv s'"
    using exec_inv [OF assms(1), of "OpClaim req"] assms(2) by (simp add: memory_store_def)
  then have ok: "msgs_ok s" "msgs_ok s'" using assms(1) by (simp_all add: store_inv_msgs)
  have "\<not> claimable_in (ms_messages s') (cr_Now req') i" if "i \<in> set (claim_ids s req)" for i
    using that by (simp add: Claim_Inr(2) [OF ok(1) assms(2)] claimable_in_def claimable_def)
  then have "set (claim_ids s req) \<inter> set (claim_ids s' req') = {}"
    using claim_ids_claimable by blast
  then show ?thesis
    using Claim_Inr(1) [OF ok(1) assms(2)] Claim_Inr(1) [OF ok(2) assms(3)] by (metis set_map)
qed

theorem Claim_exclusive_witness:
  "let c1 = memory_Claim ex_store ex_claim; c2 = memory_Claim (snd c1) ex_claim
   in fst c1 = Inr [claimed_msg ex_claim (ex_msg ''m1'')] \<and>
      fst c2 = Inr [claimed_msg ex_claim (ex_msg ''m2'')] \<and>
      msg_ID ` {claimed_msg ex_claim (ex_msg ''m1'')} \<inter> msg_ID ` {claimed_msg ex_claim (ex_msg ''m2'')} = {}"
proof -
  define c1 where "c1 = memory_Claim ex_store ex_claim"
  define c2 where "c2 = memory_Claim (snd c1) ex_claim"
  have 1: "fst c1 = Inr [claimed_msg ex_claim (ex_msg ''m1'')]"
    and 2: "fst c2 = Inr [claimed_msg ex_claim (ex_msg ''m2'')]"
    unfolding c2_def c1_def by code_simp+
  have "memory_Claim ex_store ex_claim = (Inr [claimed_msg ex_claim (ex_msg ''m1'')], snd c1)"
    "memory_Claim (snd c1) ex_claim = (Inr [claimed_msg ex_claim (ex_msg ''m2'')], snd c2)"
    using 1 2 by (simp_all add: c1_def [symmetric] c2_def [symmetric] prod_eq_iff)
  from Claim_exclusive [OF ex_store_inv this] 1 2 show ?thesis
    unfolding Let_def c1_def [symmetric] c2_def [symmetric] by simp
qed

text \<open>(no message is lost) Whatever calls follow, short of purging or deleting a queue, a stored
  message stays in the store; its content never changes, its state only moves along the transition
  table, its attempt counter never decreases, and once it is acknowledged or dead-lettered its
  record is frozen.\<close>

lemma message_never_lost:
  assumes "store_inv s" and "list_all op_keeps calls" and "memory_Message s mid = Inr m"
  shows "\<exists>m'. memory_Message (snd (run memory_store s calls)) mid = Inr m' \<and> evolves m m'"
proof -
  obtain r where "mget (ms_messages s) mid = Some r" "m = rec_msg r"
    using assms(3) by (auto simp: memory_Message_def split: option.splits)
  with run_survives [OF assms(1,2)] obtain r' where
    "mget (ms_messages (snd (run memory_store s calls))) mid = Some r'" "evolves m (rec_msg r')"
    unfolding survives_def by blast
  then show ?thesis by (auto simp: memory_Message_def)
qed

text \<open>C27: (settling is final) A message that could be acknowledged is acknowledged, and from then on
  every attempt to acknowledge, retry or release it is refused with a \<open>StateError\<close> that names the
  acknowledged state, to bury it with an \<open>InvalidTransitionError\<close>, and changes nothing.\<close>

theorem Acknowledge_once:
  assumes "store_ok s" and "memory_Acknowledge s mid at = (None, s')" and "rr_ID req = mid"
  shows "memory_Acknowledge s' mid at' = (Some (StateError mid StateProcessing StateAcknowledged), s') \<and>
    memory_Release s' mid at' = (Some (StateError mid StateProcessing StateAcknowledged), s') \<and>
    memory_ScheduleRetry s' req = (Some (StateError mid StateProcessing StateAcknowledged), s') \<and>
    memory_MarkDeadLettered s' mid reason at' =
      (Some (InvalidTransitionError StateAcknowledged StateDeadLettered), s')"
proof -
  have ok: "msgs_ok s" using assms(1) by (simp add: store_ok_def)
  obtain r where "mget (ms_messages s') mid = Some r" "msg_State (rec_msg r) = StateAcknowledged"
    using assms(2) unfolding Acknowledge_update [OF ok]
    by (auto simp: mem_update_def if_leased_def acked_msg_def replace_def split: option.splits if_splits)
  then show ?thesis
    using assms(3)
    by (auto simp: memory_Acknowledge_def memory_Release_def memory_ScheduleRetry_def leased_def
        MarkDeadLettered_update mem_update_def)
qed

theorem Acknowledge_once_witness:
  "let s = snd (memory_Claim ex_store ex_claim); s' = snd (memory_Acknowledge s ''m1'' 30)
   in fst (memory_Acknowledge s ''m1'' 30) = None \<and>
      fst (memory_Acknowledge s' ''m1'' 31) = Some (StateError ''m1'' StateProcessing StateAcknowledged)"
proof -
  define s where "s = snd (memory_Claim ex_store ex_claim)"
  define s' where "s' = snd (memory_Acknowledge s ''m1'' 30)"
  have "store_inv s"
    using exec_inv [OF ex_store_inv, of "OpClaim ex_claim"] by (simp add: s_def memory_store_def)
  moreover have n: "fst (memory_Acknowledge s ''m1'' 30) = None" unfolding s_def by code_simp
  then have "memory_Acknowledge s ''m1'' 30 = (None, s')" by (simp add: s'_def prod_eq_iff)
  ultimately have "memory_Acknowledge s' ''m1'' 31 = (Some (StateError ''m1'' StateProcessing StateAcknowledged), s')"
    using Acknowledge_once [OF store_inv_ok, of s "''m1''" 30 s'
        "\<lparr>rr_ID = ''m1'', rr_Attempt = 1, rr_Reason = [], rr_AvailableAt = 0, rr_Now = 0\<rparr>" 31 "[]"] by simp
  with n show ?thesis unfolding Let_def s_def [symmetric] s'_def [symmetric] by simp
qed

definition in_state :: "Store \<Rightarrow> string \<Rightarrow> State set \<Rightarrow> string set" where
  "in_state s q S = {i. \<exists>r. mget (ms_messages s) i = Some r \<and> msg_Queue (rec_msg r) = q \<and>
     msg_State (rec_msg r) \<in> S}"

lemma count_in_state:
  assumes sim: "msgs_sim s (sp_entries a)"
  shows "count_state a q S = int (card (in_state s q S))"
proof -
  let ?P = "\<lambda>e. en_Queue e = q \<and> en_State e \<in> S"
  note D = msgs_simD [OF sim]
  have "length (filter ?P (sp_entries a)) = length (map en_ID (filter ?P (sp_entries a)))" by simp
  also have "\<dots> = card (set (map en_ID (filter ?P (sp_entries a))))"
    using D(2) by (intro distinct_card [symmetric]) (simp add: distinct_map_filter)
  also have "set (map en_ID (filter ?P (sp_entries a))) = in_state s q S"
  proof (rule set_eqI)
    fix i
    have "i \<in> set (map en_ID (filter ?P (sp_entries a))) \<longleftrightarrow> (\<exists>e. entry_at (sp_entries a) i = Some e \<and> ?P e)"
      using entry_at_Some [of "sp_entries a" i] entry_at_mem [OF D(2)] by auto
    also have "\<dots> \<longleftrightarrow> i \<in> in_state s q S"
      unfolding D(3) by (auto simp: in_state_def)
    finally show "i \<in> set (map en_ID (filter ?P (sp_entries a))) \<longleftrightarrow> i \<in> in_state s q S" .
  qed
  finally show ?thesis by (simp add: count_state_def)
qed

text \<open>C32: (depth) \<open>Depth\<close> of a saved queue counts exactly the stored messages of that queue that are
  queued, in processing, and retrying or failed, although it only walks the compacted index; the
  total is their sum. For any other name the answer is \<open>ErrNotFound\<close>.\<close>

theorem Depth_exact:
  assumes "store_inv s"
  shows "memory_Depth s q =
    (if mget (ms_queues s) q = None then Inl ErrNotFound
     else Inr \<lparr> d_Ready = int (card (in_state s q {StateQueued})),
                d_InFlight = int (card (in_state s q {StateProcessing})),
                d_Scheduled = int (card (in_state s q {StateRetrying, StateFailed})),
                d_Total = int (card (in_state s q {StateQueued, StateProcessing, StateRetrying, StateFailed})) \<rparr>)"
proof -
  obtain a where a: "mem_sim s a" using assms by (auto simp: store_inv_def)
  note S = mem_sim_simps [OF a]
  show ?thesis
    unfolding Depth_sim [OF S(6,3)] spec_Depth_def count_in_state [OF S(6)] S(3) ..
qed

theorem Depth_exact_witness:
  "memory_Depth ex_store ''billing'' = Inr \<lparr>d_Ready = 2, d_InFlight = 0, d_Scheduled = 0, d_Total = 2\<rparr> \<and>
   card (in_state ex_store ''billing'' {StateQueued}) = 2"
proof -
  have "memory_Depth ex_store ''billing'' = Inr \<lparr>d_Ready = 2, d_InFlight = 0, d_Scheduled = 0, d_Total = 2\<rparr>"
    by code_simp
  with Depth_exact [OF ex_store_inv, of "''billing''"] show ?thesis by (simp split: if_splits)
qed

text \<open>C34: (queue deletion) Deleting a saved queue removes every unsettled message of the queue and its
  declaration, and leaves every message and declaration of other queues as they were; a name that
  is not saved is refused with \<open>ErrNotFound\<close> and nothing changes.\<close>

theorem memory_DeleteQueue_effect:
  assumes "store_ok s" and "memory_DeleteQueue s n = (err, s')"
  shows "err = (if mget (ms_queues s) n = None then Some ErrNotFound else None) \<and>
    (err \<noteq> None \<longrightarrow> s' = s) \<and>
    (err = None \<longrightarrow>
      (\<forall>i r. mget (ms_messages s') i = Some r \<longrightarrow> mget (ms_messages s) i = Some r \<and>
         (msg_Queue (rec_msg r) = n \<longrightarrow> State_Terminal (msg_State (rec_msg r)))) \<and>
      (\<forall>i r. mget (ms_messages s) i = Some r \<and> msg_Queue (rec_msg r) \<noteq> n \<longrightarrow>
         mget (ms_messages s') i = Some r) \<and>
      (\<forall>q. mget (ms_queues s') q = (if q = n then None else mget (ms_queues s) q)) \<and>
      ms_order s' n = [] \<and> ms_settled s' n = 0)"
proof -
  have ok: "msgs_ok s" using assms(1) by (simp add: store_ok_def)
  show ?thesis
  proof (cases "mget (ms_queues s) n = None")
    case True
    with assms(2) show ?thesis by (auto simp: memory_DeleteQueue_def)
  next
    case False
    let ?d = "dropped s n (\<lambda>_. False)"
    have r: "err = None" "s' = ?d\<lparr>ms_queues := mdel (ms_queues s) n\<rparr>"
      using assms(2) False unfolding DeleteQueue_eq by auto
    have 1: "State_Terminal (msg_State (rec_msg e))"
      if "mget (ms_messages s) i = Some e" "i \<notin> set (ms_order s n)" "msg_Queue (rec_msg e) = n" for i e
      using msgs_okD(2) [OF ok that(1)] that by (auto simp: rec_ok_def)
    have 2: "i \<notin> set (ms_order s n)"
      if "mget (ms_messages s) i = Some e" "msg_Queue (rec_msg e) \<noteq> n" for i e
      using order_rec [OF ok, of i n] that by auto
    have "mget (ms_queues s') q = (if q = n then None else mget (ms_queues s) q)" for q
      by (simp add: r)
    then show ?thesis
      using False r 1 2 by (auto simp: dropped_get drops_def dropped_order split: if_splits)
  qed
qed

theorem memory_DeleteQueue_effect_witness:
  "fst (memory_DeleteQueue ex_store ''billing'') = None \<and>
   ms_order (snd (memory_DeleteQueue ex_store ''billing'')) ''billing'' = []"
proof -
  have n: "fst (memory_DeleteQueue ex_store ''billing'') = None" by code_simp
  then show ?thesis
    using memory_DeleteQueue_effect [OF store_inv_ok [OF ex_store_inv] prod.collapse [symmetric], of "''billing''"]
    by simp
qed



definition ex_dead :: "string \<Rightarrow> DeadLetter" where
  "ex_dead i =
    \<lparr> dl_ID = i, dl_MessageID = ''m1'', dl_Queue = ''billing'', dl_Exchange = ''orders'',
      dl_RoutingKey = ''order.created'', dl_Schema = [], dl_Payload = ''{}'', dl_Headers = [],
      dl_Reason = ''boom'', dl_ErrorKind = ''exhausted'', dl_Attempts = 3, dl_PublishedAt = 10,
      dl_FirstFailedAt = 20, dl_DeadLetteredAt = 30, dl_ReplayedAs = [], dl_ReplayedAt = zero_time,
      dl_ReplayCount = 0 \<rparr>"


end
