(* ===== verification/EngineReach.thy ===== *)
theory EngineReach
  imports EngineFacts MemoryProps
begin

text \<open>
  What every run of the engine keeps, over any store that keeps the contract: messages evolve along
  the transition table and are never lost, and every buried message has a dead letter.
\<close>

section \<open>What the state machine keeps\<close>

text \<open>Every buried message has a dead letter that names it.\<close>

definition covered :: "View \<Rightarrow> bool" where
  "covered v \<longleftrightarrow> (\<forall>i m. v_msgs v i = Some m \<and> msg_State m = StateDeadLettered \<longrightarrow>
    (\<exists>did d. v_dead v did = Some d \<and> dl_MessageID d = i))"

lemma covered_update:
  assumes "covered v" "\<And>m m'. f m = Inr m' \<Longrightarrow> msg_State m' \<noteq> StateDeadLettered"
  shows "covered (snd (view_update v i f))"
proof -
  have "\<exists>did d. v_dead v did = Some d \<and> dl_MessageID d = j"
    if "v_msgs (snd (view_update v i f)) j = Some m" "msg_State m = StateDeadLettered" for j m
    using that assms unfolding covered_def
    by (auto simp: view_update_def split: option.splits sum.splits if_splits)
  moreover have "v_dead (snd (view_update v i f)) = v_dead v"
    by (simp add: view_update_def split: option.split sum.split)
  ultimately show ?thesis by (auto simp: covered_def)
qed

lemma covered_bury:
  assumes "covered v" "dl_MessageID d = i"
  shows "covered (view_bury v i d reason t fresh)"
proof (cases "v_closed v \<or> v_dead v fresh \<noteq> None")
  case True
  then show ?thesis using assms(1) by (simp add: view_bury_def)
next
  case False
  let ?v = "v\<lparr>v_dead := (v_dead v)(fresh \<mapsto> d\<lparr>dl_ID := fresh\<rparr>)\<rparr>"
  have dead: "v_dead (snd (view_update ?v i f)) = (v_dead v)(fresh \<mapsto> d\<lparr>dl_ID := fresh\<rparr>)" for f
    by (simp add: view_update_def split: option.split sum.split)
  have "\<exists>did d'. v_dead (view_bury v i d reason t fresh) did = Some d' \<and> dl_MessageID d' = j"
    if m: "v_msgs (view_bury v i d reason t fresh) j = Some m" "msg_State m = StateDeadLettered" for j m
  proof (cases "j = i")
    case True
    then show ?thesis using False assms(2) by (intro exI [of _ fresh]) (simp add: view_bury_def dead)
  next
    case other: False
    then have "v_msgs v j = Some m"
      using m(1) False by (simp add: view_bury_def view_update_def split: option.splits sum.splits)
    then obtain did d' where "v_dead v did = Some d'" "dl_MessageID d' = j"
      using assms(1) m(2) unfolding covered_def by blast
    then show ?thesis using False by (intro exI [of _ did]) (auto simp: view_bury_def dead)
  qed
  then show ?thesis by (simp add: covered_def)
qed

lemma covered_vstep: "vstep k v v' \<Longrightarrow> k \<noteq> Discard \<Longrightarrow> covered v \<Longrightarrow> covered v'"
proof (induction rule: vstep.induct)
  case (v_append ms v)
  then show ?case
    by (fastforce simp: covered_def view_Append_def find_Some_iff split: option.splits)
next
  case (v_claim I v req lease)
  then show ?case by (auto simp: covered_def view_claimed_def claimed_msg_def split: if_splits)
next
  case (v_park v d fresh)
  then show ?case
    unfolding covered_def view_SaveDeadLetter_def Let_def
    by (auto split: if_splits) (metis option.distinct(1) option.inject)+
next
  case (v_replayed v did as t)
  then show ?case
    unfolding covered_def view_MarkReplayed_def
    by (auto simp: replayed_dead_def split: option.splits) (metis option.inject)+
next
  case (v_shrink v v')
  then show ?case by (fastforce simp: covered_def view_shrinks_def split: if_splits)
qed (auto simp: if_leased_def msg_change_defs intro!: covered_update covered_bury split: if_splits)

lemma vstep_evolves:
  assumes "vstep k v v'" "k \<noteq> Remove" "v_msgs v i = Some m"
  shows "\<exists>m'. v_msgs v' i = Some m' \<and> evolves m m'"
proof -
  have upd: "\<exists>m'. v_msgs (snd (view_update w j f)) i = Some m' \<and> evolves m m'"
    if "v_msgs w i = Some m" "\<And>m m'. f m = Inr m' \<Longrightarrow> evolves m m'" for w j f
    using that by (auto simp: view_update_def split: option.split sum.split)
  note ev = evolves_changes
  from assms show ?thesis
  proof (induction rule: vstep.induct)
    case (v_append ms v)
    then show ?case
      by (auto simp: view_Append_def list_ex_iff find_Some_iff split: option.splits)
  next
    case (v_claim I v req lease)
    then show ?case
      using ev(5) [of m "cr_Now req" req, unfolded claimable_ready]
      by (auto simp: view_claimed_def claimable_from_def split: option.splits)
  next
    case (v_bury d j v reason t fresh)
    then show ?case
      by (auto simp: view_bury_def bury_def intro!: upd ev split: if_splits)
  next
    case (v_replayed v did as t)
    then show ?case by (auto simp: view_MarkReplayed_def split: option.split)
  next
    case (v_discard v did)
    then show ?case by (auto simp: view_DeleteDead_def split: option.split)
  qed (auto simp: if_leased_def view_SaveDeadLetter_def Let_def intro!: upd ev split: if_splits)
qed

lemma vsteps_evolves:
  assumes "vsteps K v v'" "Remove \<notin> K" "v_msgs v i = Some m"
  shows "\<exists>m'. v_msgs v' i = Some m' \<and> evolves m m'"
  using assms(1) unfolding vsteps_def
proof (induction rule: rtranclp_induct)
  case base
  then show ?case using assms(3) by simp
next
  case (step y z)
  then obtain m' where "v_msgs y i = Some m'" "evolves m m'" by blast
  moreover from step obtain k where "k \<in> K" "vstep k y z" by blast
  moreover have "k \<noteq> Remove" using assms(2) \<open>k \<in> K\<close> by blast
  ultimately show ?case using vstep_evolves [of k y z i m'] evolves_trans by blast
qed

lemma vsteps_covered: "vsteps K v v' \<Longrightarrow> Discard \<notin> K \<Longrightarrow> covered v \<Longrightarrow> covered v'"
  unfolding vsteps_def by (induction rule: rtranclp_induct) (use covered_vstep in blast)+

section \<open>Runs of the engine\<close>

text \<open>One operation of the engine, of one of the given kinds.\<close>

definition engine_steps :: "'s store_ops \<Rightarrow> kind set \<Rightarrow> 's Engine \<Rightarrow> 's Engine \<Rightarrow> bool" where
  "engine_steps ops K e e' \<longleftrightarrow> (\<exists>k\<in>K. engine_step ops k e e')"

lemma engine_steps_mono: "engine_steps ops K e e' \<Longrightarrow> K \<subseteq> L \<Longrightarrow> engine_steps ops L e e'"
  by (auto simp: engine_steps_def)

context message_store
begin

lemma steps_refine:
  assumes "engine_steps ops K e e'" "inv (eg_store e)"
  shows "inv (eg_store e') \<and> vsteps K (strip (view (eg_store e))) (strip (view (eg_store e')))"
proof -
  obtain k where k: "k \<in> K" "engine_step ops k e e'" using assms(1) by (auto simp: engine_steps_def)
  have "vsteps {k} v v' \<Longrightarrow> vsteps K v v'" for v v'
    unfolding vsteps_def using k(1) by (auto elim: rtranclp_mono [THEN predicate2D, rotated])
  then show ?thesis using step_refines [OF k(2)] assms(2) by (auto simp: refines_def)
qed

lemma steps_covered:
  "engine_steps ops K e e' \<Longrightarrow> inv (eg_store e) \<Longrightarrow> Discard \<notin> K \<Longrightarrow> covered (view (eg_store e)) \<Longrightarrow> covered (view (eg_store e'))"
  using steps_refine [of K e e'] vsteps_covered [of K "strip (view (eg_store e))" "strip (view (eg_store e'))"]
  by (auto simp: covered_def)

lemma steps_keep:
  assumes "(engine_steps ops {Deliver, Discard})\<^sup>*\<^sup>* e e'" "inv (eg_store e)" "v_msgs (view (eg_store e)) i = Some m"
  shows "\<exists>m'. v_msgs (view (eg_store e')) i = Some m' \<and> evolves m m'"
proof -
  from assms(1,2) have "inv (eg_store e') \<and> vsteps {Deliver, Discard} (strip (view (eg_store e))) (strip (view (eg_store e')))"
    by (induction rule: rtranclp_induct) (auto dest: steps_refine intro: vsteps_trans)
  then show ?thesis
    using vsteps_evolves [of "{Deliver, Discard}" _ _ i m] assms(3) by fastforce
qed

end

end
