(* ===== verification/SqliteContract.thy ===== *)
theory SqliteContract
  imports SqliteSafety EngineReach
begin

text \<open>The SQLite store behind a working driver keeps the engine's contract: every law of the engine
  is a law of the engine over this store.\<close>

definition sqlite_inv :: "plain_db \<Rightarrow> bool" where
  "sqlite_inv s \<longleftrightarrow> db_open s \<and> tables_ok s"

definition sqlite_view :: "plain_db \<Rightarrow> View" where
  "sqlite_view s =
    \<lparr> v_closed = False,
      v_msgs = (\<lambda>i. map_option row_msg (row_at s i)),
      v_lease = (\<lambda>i. case row_at s i of None \<Rightarrow> None | Some r \<Rightarrow> mr_lease_expires_at r),
      v_dead = (\<lambda>i. map_option row_dead (dead_row_at s i)),
      v_events = events_of s \<rparr>"

lemma sqlite_view_sel [simp]:
  "\<not> v_closed (sqlite_view s)"
  "v_msgs (sqlite_view s) i = map_option row_msg (row_at s i)"
  "v_lease (sqlite_view s) i = (case row_at s i of None \<Rightarrow> None | Some r \<Rightarrow> mr_lease_expires_at r)"
  "v_dead (sqlite_view s) i = map_option row_dead (dead_row_at s i)"
  "v_events (sqlite_view s) = events_of s"
  by (simp_all add: sqlite_view_def)

lemma inv_open: "sqlite_inv s \<Longrightarrow> db_open s"
  by (simp add: sqlite_inv_def)

lemma inv_ids: "sqlite_inv s \<Longrightarrow> distinct (map mr_id (db_messages s))"
  by (simp add: sqlite_inv_def tables_ok_def messages_ok_def)

lemma inv_seqs: "sqlite_inv s \<Longrightarrow> sorted (map mr_seq (db_messages s))"
  by (auto simp: sqlite_inv_def tables_ok_def messages_ok_def rising_def strict_sorted_imp_sorted)

lemma inv_history: "sqlite_inv s \<Longrightarrow> sorted (map hr_id (db_history s))"
  by (auto simp: sqlite_inv_def tables_ok_def rising_def strict_sorted_imp_sorted)

lemma exec_sqlite_inv: "sqlite_inv s \<Longrightarrow> op \<noteq> OpClose \<Longrightarrow> sqlite_inv (snd (exec (sqlite_store plain_codec io) s op))"
  using exec_kept [of op s plain_codec io] by (simp add: sqlite_inv_def kept_def)

section \<open>Changes of messages\<close>

text \<open>The row under an identifier after the rows were mapped by a function that keeps it.\<close>

lemma find_map_key:
  assumes "\<And>r. key (f r) = key r"
  shows "find (\<lambda>r. key r = i) (map f rows) = map_option f (find (\<lambda>r. key r = i) rows)"
  using assms by (induction rows) auto

lemma find_filter_key:
  "find (\<lambda>r. key r = i) (filter (\<lambda>r. key r \<noteq> j) rows) = (if i = j then None else find (\<lambda>r. key r = i) rows)"
  by (induction rows) auto

lemma find_in: "find P xs = Some x \<Longrightarrow> x \<in> set xs \<and> P x"
  by (auto simp: find_Some_iff)

lemma find_filter_distinct:
  assumes "distinct (map key rows)"
  shows "find (\<lambda>r. key r = i) (filter P rows) =
    (case find (\<lambda>r. key r = i) rows of None \<Rightarrow> None | Some r \<Rightarrow> if P r then Some r else None)"
  using assms by (induction rows) (auto split: option.split dest!: find_in)

lemma row_at_put_row:
  assumes "\<And>r. mr_id (f r) = mr_id r"
  shows "row_at (put_row s i f) j = (if j = i then map_option f (row_at s j) else row_at s j)"
proof -
  have "row_at (put_row s i f) j = map_option (\<lambda>r. if mr_id r = i then f r else r) (row_at s j)"
    unfolding put_row_def by (simp add: find_map_key [where key = mr_id] assms)
  then show ?thesis by (cases "row_at s j") (auto dest: row_at_ID)
qed

lemma put_row_view:
  assumes "row_at s i = Some r" "\<And>r. mr_id (f r) = mr_id r"
  shows "sqlite_view (put_row s i f) = (sqlite_view s)
    \<lparr> v_msgs := (v_msgs (sqlite_view s))(i \<mapsto> row_msg (f r)),
      v_lease := (v_lease (sqlite_view s))(i := mr_lease_expires_at (f r)) \<rparr>"
proof (rule view_eqI)
  show "v_closed (sqlite_view (put_row s i f)) = v_closed ((sqlite_view s)
    \<lparr> v_msgs := (v_msgs (sqlite_view s))(i \<mapsto> row_msg (f r)),
      v_lease := (v_lease (sqlite_view s))(i := mr_lease_expires_at (f r)) \<rparr>)" by simp
qed (use assms in \<open>simp_all add: row_at_put_row\<close>, simp_all add: put_row_def events_of_def)

lemma row_msg_change:
  assumes "msg_ID m = mr_id r" "msg_Exchange m = mr_exchange r" "msg_RoutingKey m = mr_routing_key r"
    "msg_Queue m = mr_queue r" "msg_Schema m = mr_schema_name r" "msg_Payload m = mr_payload r"
    "msg_Headers m = mr_headers r" "msg_MaxAttempts m = mr_max_attempts r" "msg_CreatedAt m = mr_created_at r"
  shows "row_msg (row_change m l c r) = m"
  using assms by (cases m) (simp add: row_msg_def row_change_def)

lemma row_update_view:
  assumes "\<And>r m. row_at s i = Some r \<Longrightarrow> f (row_msg r) = Inr m \<Longrightarrow> row_msg (row_change m None [] r) = m"
  shows "apsnd sqlite_view (row_update s i f) = view_update (sqlite_view s) i f"
proof (cases "row_at s i")
  case None
  then show ?thesis by (simp add: row_update_def view_update_def)
next
  case (Some r)
  show ?thesis
  proof (cases "f (row_msg r)")
    case (Inl err)
    with Some show ?thesis by (simp add: row_update_def view_update_def)
  next
    case (Inr m)
    with Some show ?thesis
      using assms [OF Some Inr] by (simp add: row_update_def view_update_def put_row_view [OF Some])
  qed
qed

lemma leased_view:
  "apsnd sqlite_view (row_update s i (\<lambda>m. if_leased m (acked_msg t m))) = view_update (sqlite_view s) i (\<lambda>m. if_leased m (acked_msg t m))"
  "apsnd sqlite_view (row_update s i (\<lambda>m. if_leased m (retry_msg req m))) = view_update (sqlite_view s) i (\<lambda>m. if_leased m (retry_msg req m))"
  "apsnd sqlite_view (row_update s i (\<lambda>m. if_leased m (released_msg t m))) = view_update (sqlite_view s) i (\<lambda>m. if_leased m (released_msg t m))"
  "apsnd sqlite_view (row_update s i (bury reason t)) = view_update (sqlite_view s) i (bury reason t)"
  by (rule row_update_view, auto simp: if_leased_def bury_def split: if_splits,
      (rule row_msg_change; simp add: msg_change_defs row_msg_def)+)+

lemma sq_append_view:
  assumes o: "db_open s" and ok: "appendable ms"
  shows "apsnd sqlite_view (sqlite_Append plain_codec reliable s ms) = view_Append (sqlite_view s) ms"
proof -
  have d: "distinct (map msg_ID ms)" using ok by (simp add: appendable_def)
  have fresh: "find (\<lambda>r. mr_id r = i) (fresh_rows n ms) = None \<longleftrightarrow> i \<notin> msg_ID ` set ms" for i n
  proof -
    have "find (\<lambda>r. mr_id r = i) (fresh_rows n ms) = None \<longleftrightarrow> i \<notin> set (map mr_id (fresh_rows n ms))"
      by (auto simp: find_None_iff)
    then show ?thesis unfolding fresh_rows_map by simp
  qed
  have get: "map_option row_msg (find (\<lambda>r. mr_id r = i) (fresh_rows n ms)) = find (\<lambda>m. msg_ID m = i) ms" for i n
    by (induction ms arbitrary: n) auto
  have lease: "find (\<lambda>r. mr_id r = i) (fresh_rows n ms) = Some r \<Longrightarrow> mr_lease_expires_at r = None" for i n r
    by (induction ms arbitrary: n) (auto split: if_splits)
  have "sqlite_view (appended s ms) = (sqlite_view s)
      \<lparr> v_msgs := (\<lambda>i. case find (\<lambda>m. msg_ID m = i) ms of Some m \<Rightarrow> Some m | None \<Rightarrow> v_msgs (sqlite_view s) i),
        v_lease := (\<lambda>i. if i \<in> msg_ID ` set ms then None else v_lease (sqlite_view s) i) \<rparr>"
    if new: "\<not> list_ex (\<lambda>m. row_at s (msg_ID m) \<noteq> None) ms"
  proof (rule view_eqI)
    fix i
    let ?f = "find (\<lambda>r. mr_id r = i) (fresh_rows (db_message_seq s) ms)"
    have at: "row_at (appended s ms) i = (case ?f of None \<Rightarrow> row_at s i | Some r \<Rightarrow> Some r)"
      using new fresh [of i "db_message_seq s"]
      by (cases ?f; cases "row_at s i") (auto simp: appended_def find_append list_ex_iff)
    show "v_msgs (sqlite_view (appended s ms)) i = v_msgs ((sqlite_view s)
      \<lparr> v_msgs := (\<lambda>i. case find (\<lambda>m. msg_ID m = i) ms of Some m \<Rightarrow> Some m | None \<Rightarrow> v_msgs (sqlite_view s) i),
        v_lease := (\<lambda>i. if i \<in> msg_ID ` set ms then None else v_lease (sqlite_view s) i) \<rparr>) i"
      using get [of i "db_message_seq s", symmetric] by (cases ?f) (simp_all add: at)
    show "v_lease (sqlite_view (appended s ms)) i = v_lease ((sqlite_view s)
      \<lparr> v_msgs := (\<lambda>i. case find (\<lambda>m. msg_ID m = i) ms of Some m \<Rightarrow> Some m | None \<Rightarrow> v_msgs (sqlite_view s) i),
        v_lease := (\<lambda>i. if i \<in> msg_ID ` set ms then None else v_lease (sqlite_view s) i) \<rparr>) i"
      using fresh [of i "db_message_seq s"] lease [of i "db_message_seq s"] by (cases ?f) (auto simp: at)
  qed (simp_all add: appended_def events_of_def)
  then show ?thesis by (simp add: Append_plain [OF o d] view_Append_def)
qed

section \<open>Claims and leases\<close>

lemma row_at_lease_rows:
  "row_at (lease_rows req I s) i = map_option (\<lambda>r. if i \<in> I then lease_row req r else r) (row_at s i)"
proof -
  have "row_at (lease_rows req I s) i = map_option (\<lambda>r. if mr_id r \<in> I then lease_row req r else r) (row_at s i)"
    by (simp add: lease_rows_def find_map_key [where key = mr_id])
  then show ?thesis by (cases "row_at s i") (auto dest: row_at_ID)
qed

lemma lease_rows_view:
  assumes "\<forall>i \<in> I. row_at s i \<noteq> None"
  shows "sqlite_view (lease_rows req I s) = view_claimed (sqlite_view s) req (Some (cr_Now req + cr_Lease req)) I"
proof (rule view_eqI)
  fix i
  show "v_msgs (sqlite_view (lease_rows req I s)) i =
      v_msgs (view_claimed (sqlite_view s) req (Some (cr_Now req + cr_Lease req)) I) i"
    by (cases "row_at s i") (simp_all add: view_claimed_def row_at_lease_rows)
  show "v_lease (sqlite_view (lease_rows req I s)) i =
      v_lease (view_claimed (sqlite_view s) req (Some (cr_Now req + cr_Lease req)) I) i"
    using assms by (cases "row_at s i") (auto simp: view_claimed_def row_at_lease_rows)
qed (simp_all add: view_claimed_def lease_rows_def events_of_def)

lemma ready_rows:
  assumes "sqlite_inv s"
  shows "i \<in> mr_id ` set (filter (\<lambda>r. mr_queue r = cr_Queue req \<and> ready (row_msg r) (cr_Now req)) (db_messages s)) \<longleftrightarrow>
    claimable_from (sqlite_view s) req i"
proof
  assume "i \<in> mr_id ` set (filter (\<lambda>r. mr_queue r = cr_Queue req \<and> ready (row_msg r) (cr_Now req)) (db_messages s))"
  then obtain r where "r \<in> set (db_messages s)" "mr_id r = i" "mr_queue r = cr_Queue req" "ready (row_msg r) (cr_Now req)"
    by auto
  then show "claimable_from (sqlite_view s) req i"
    using find_distinct_key [OF inv_ids [OF assms]] by (auto simp: claimable_from_def)
next
  assume "claimable_from (sqlite_view s) req i"
  then show "i \<in> mr_id ` set (filter (\<lambda>r. mr_queue r = cr_Queue req \<and> ready (row_msg r) (cr_Now req)) (db_messages s))"
    by (force simp: claimable_from_def image_iff dest: find_in split: option.splits)
qed

lemma sq_claim_law:
  assumes inv: "sqlite_inv s" and c: "sqlite_Claim plain_codec reliable s req = (Inr ms, s')"
  shows "distinct (map msg_ID ms) \<and> int (length ms) \<le> max 0 (cr_Limit req) \<and>
      (\<forall>i \<in> msg_ID ` set ms. claimable_from (sqlite_view s) req i) \<and>
      (\<forall>m \<in> set ms. v_msgs (sqlite_view s') (msg_ID m) = Some m) \<and>
      sqlite_view s' = view_claimed (sqlite_view s) req (Some (cr_Now req + cr_Lease req)) (msg_ID ` set ms) \<and>
      (int (length ms) < cr_Limit req \<longrightarrow>
        (\<forall>i. claimable_from (sqlite_view s) req i \<longrightarrow> i \<in> msg_ID ` set ms))"
proof -
  let ?cs = "claim_selection s req"
  let ?all = "filter (\<lambda>r. mr_queue r = cr_Queue req \<and> ready (row_msg r) (cr_Now req)) (db_messages s)"
  have ms: "ms = map (\<lambda>r. claimed_msg req (row_msg r)) ?cs" and s': "s' = lease_rows req (mr_id ` set ?cs) s"
    using c Claim_plain [OF inv_open [OF inv] inv_ids [OF inv], of req] by (simp_all add: Let_def)
  have ids: "map msg_ID ms = map mr_id ?cs" by (simp add: ms claimed_msg_def)
  then have ids': "msg_ID ` set ms = mr_id ` set ?cs" by (metis set_map)
  have sub: "set ?cs \<subseteq> set ?all"
    unfolding claim_selection_def by (rule subset_trans [OF set_take_subset]) simp
  have cl: "claimable_from (sqlite_view s) req i" if "i \<in> mr_id ` set ?cs" for i
    using that sub ready_rows [OF inv, of i req] by blast
  have len: "length ?cs = min (length ?all) (nat (cr_Limit req))" by (simp add: claim_selection_def)
  have at: "row_at s (mr_id r) = Some r" if "r \<in> set ?cs" for r
    using find_distinct_key [OF inv_ids [OF inv], of r] claim_selection_set [of s req] that by blast
  have "i \<in> mr_id ` set ?cs" if "int (length ms) < cr_Limit req" "claimable_from (sqlite_view s) req i" for i
  proof -
    have "length ?all \<le> nat (cr_Limit req)" using that(1) len by (simp add: ms)
    then have "set ?cs = set ?all" by (simp add: claim_selection_def)
    with that(2) ready_rows [OF inv, of i req] show ?thesis by simp
  qed
  moreover have "sqlite_view s' = view_claimed (sqlite_view s) req (Some (cr_Now req + cr_Lease req)) (mr_id ` set ?cs)"
    unfolding s' by (rule lease_rows_view) (use at in auto)
  moreover have "v_msgs (sqlite_view s') (msg_ID m) = Some m" if "m \<in> set ms" for m
    using that at unfolding s' ms by (auto simp: row_at_lease_rows claimed_msg_def)
  moreover have "distinct (map mr_id ?cs)" by (rule claim_selection_distinct [OF inv_ids [OF inv]])
  moreover have "int (length ms) \<le> max 0 (cr_Limit req)" using len by (simp add: ms)
  ultimately show ?thesis using cl by (simp only: ids ids') blast
qed

lemma sq_expired_law:
  assumes inv: "sqlite_inv s" and lim: "0 < limit"
  shows "\<exists>ms. sqlite_ExpiredLeases plain_codec reliable s now limit = Inr ms \<and>
      distinct (map msg_ID ms) \<and> int (length ms) \<le> limit \<and>
      (\<forall>m \<in> set ms. v_msgs (sqlite_view s) (msg_ID m) = Some m \<and> lease_expired (sqlite_view s) now (msg_ID m)) \<and>
      (int (length ms) < limit \<longrightarrow> (\<forall>i. lease_expired (sqlite_view s) now i \<longrightarrow> i \<in> msg_ID ` set ms))"
proof -
  define all where "all = filter (expired_row now) (db_messages s)"
  let ?ms = "take (nat limit) (map row_msg all)"
  have res: "sqlite_ExpiredLeases plain_codec reliable s now limit = Inr ?ms"
    using ExpiredLeases_plain [OF inv_open [OF inv] inv_seqs [OF inv], of now limit] lim by (simp add: all_def)
  have at: "row_at s (mr_id r) = Some r" "expired_row now r" if "r \<in> set all" for r
    using that find_distinct_key [OF inv_ids [OF inv], of r] by (simp_all add: all_def)
  have "distinct (map mr_id all)" unfolding all_def by (rule distinct_map_filter [OF inv_ids [OF inv]])
  then have "distinct (map msg_ID ?ms)" by (simp add: take_map [symmetric] comp_def)
  moreover have "v_msgs (sqlite_view s) (msg_ID m) = Some m \<and> lease_expired (sqlite_view s) now (msg_ID m)"
    if "m \<in> set ?ms" for m
    using in_set_takeD [OF that] at by (auto simp: lease_expired_def expired_row_def)
  moreover have "i \<in> msg_ID ` set ?ms" if lt: "int (length ?ms) < limit" and le: "lease_expired (sqlite_view s) now i" for i
  proof -
    obtain r where "row_at s i = Some r" "expired_row now r"
      using le by (auto simp: lease_expired_def expired_row_def split: option.splits)
    then have "r \<in> set all" "mr_id r = i" by (auto simp: all_def dest: find_in)
    moreover have "?ms = map row_msg all" using lt by simp
    ultimately show ?thesis by (force simp del: take_map)
  qed
  moreover have "int (length ?ms) \<le> limit" using lim by simp
  ultimately show ?thesis using res by blast
qed

section \<open>Rows taken away\<close>

lemma filter_rows_view:
  assumes "distinct (map mr_id (db_messages s))"
  shows "view_shrinks (sqlite_view s) (sqlite_view (s\<lparr>db_messages := filter P (db_messages s)\<rparr>))"
  unfolding view_shrinks_def
proof
  let ?keep = "\<lambda>i. case row_at s i of None \<Rightarrow> True | Some r \<Rightarrow> P r"
  show "sqlite_view (s\<lparr>db_messages := filter P (db_messages s)\<rparr>) = (sqlite_view s)
      \<lparr> v_msgs := (\<lambda>i. if ?keep i then v_msgs (sqlite_view s) i else None),
        v_lease := (\<lambda>i. if ?keep i then v_lease (sqlite_view s) i else None) \<rparr>"
    by (rule view_eqI)
      (auto simp: find_filter_distinct [OF assms] events_of_def split: option.split)
qed

lemma sqlite_view_topology [simp]:
  "sqlite_view (s\<lparr>db_exchanges := a\<rparr>) = sqlite_view s" "sqlite_view (s\<lparr>db_queues := b\<rparr>) = sqlite_view s"
  "sqlite_view (s\<lparr>db_bindings := c\<rparr>) = sqlite_view s"
  by (simp_all add: sqlite_view_def events_of_def [abs_def])

lemma view_same_shrinks: "view_shrinks v v"
  unfolding view_shrinks_def by (rule exI [of _ "\<lambda>_. True"]) simp

lemma purge_view:
  assumes "sqlite_inv s"
  shows "view_shrinks (sqlite_view s) (sqlite_view (snd (sqlite_Purge reliable s q)))"
  using filter_rows_view [OF inv_ids [OF assms]] inv_open [OF assms]
  by (simp add: sqlite_Purge_def count_queues_def sqlite_simps Let_def view_same_shrinks)

lemma delete_view:
  assumes "sqlite_inv s"
  shows "view_shrinks (sqlite_view s) (sqlite_view (snd (sqlite_DeleteQueue reliable s q)))"
proof -
  have "sqlite_view (s\<lparr>db_queues := a, db_messages := b\<rparr>) = sqlite_view (s\<lparr>db_messages := b\<rparr>)" for a b
    by (simp add: sqlite_view_def events_of_def [abs_def])
  then show ?thesis
    using filter_rows_view [OF inv_ids [OF assms]] inv_open [OF assms]
    by (simp add: sqlite_DeleteQueue_def sqlite_simps Let_def view_same_shrinks)
qed

section \<open>Dead letters\<close>

lemma save_dead_view:
  assumes "db_open s"
  shows "apsnd sqlite_view (sqlite_SaveDeadLetter plain_codec reliable s d fresh) = view_SaveDeadLetter (sqlite_view s) d fresh"
proof -
  have "sqlite_view (s\<lparr>db_dead_letters := db_dead_letters s @ [dead_row_of e]\<rparr>) =
      (sqlite_view s)\<lparr>v_dead := (v_dead (sqlite_view s))(dl_ID e \<mapsto> e)\<rparr>" if "dead_row_at s (dl_ID e) = None" for e
    by (rule view_eqI) (use that in \<open>auto simp: find_append events_of_def split: option.split\<close>)
  then show ?thesis
    by (simp add: SaveDeadLetter_plain [OF assms] view_SaveDeadLetter_def Let_def)
qed

lemma mark_replayed_view:
  assumes "db_open s"
  shows "apsnd sqlite_view (sqlite_MarkDeadLetterReplayed plain_codec reliable s i as t) = view_MarkReplayed (sqlite_view s) i as t"
proof -
  let ?f = "\<lambda>r. if dr_id r = i then dead_row_of (replayed_dead as t (row_dead r)) else r"
  have key: "dr_id (?f r) = dr_id r" for r by (simp add: replayed_dead_def)
  have get: "map_option row_dead (find (\<lambda>r. dr_id r = j) (map ?f (db_dead_letters s))) =
      (if j = i then map_option (replayed_dead as t) (v_dead (sqlite_view s) j) else v_dead (sqlite_view s) j)" for j
    using find_map_key [of dr_id ?f j "db_dead_letters s", OF key]
    by (cases "dead_row_at s j") (auto dest: find_in)
  have "sqlite_view (s\<lparr>db_dead_letters := map ?f (db_dead_letters s)\<rparr>) = (sqlite_view s)\<lparr>v_dead :=
      (\<lambda>j. if j = i then map_option (replayed_dead as t) (v_dead (sqlite_view s) j) else v_dead (sqlite_view s) j)\<rparr>"
    (is "?v = ?w")
  proof (rule view_eqI)
    show "v_dead ?v j = v_dead ?w j" for j using get [of j] by simp
  qed (simp_all add: events_of_def)
  then show ?thesis
    by (cases "dead_row_at s i")
      (auto simp: MarkReplayed_plain [OF assms] view_MarkReplayed_def intro!: view_eqI)
qed

lemma delete_dead_view:
  assumes "db_open s"
  shows "apsnd sqlite_view (sqlite_DeleteDeadLetter reliable s i) = view_DeleteDead (sqlite_view s) i"
  by (auto simp: DeleteDead_plain [OF assms] view_DeleteDead_def find_filter_key [where key = dr_id] events_of_def
      intro!: view_eqI split: option.split)

lemma append_history_view:
  assumes "db_open s"
  shows "apsnd sqlite_view (sqlite_AppendHistory plain_codec reliable s h) = view_AppendHistory (sqlite_view s) h"
proof -
  let ?s = "snd (sqlite_AppendHistory plain_codec reliable s h)"
  have "db_messages ?s = db_messages s" "db_dead_letters ?s = db_dead_letters s"
    by (simp_all add: sqlite_AppendHistory_def sqlite_simps assms)
  then have "sqlite_view ?s = (sqlite_view s)\<lparr>v_events := (events_of s)(he_MessageID h := events_of s (he_MessageID h) @ [h])\<rparr>"
    by (intro view_eqI) (simp_all add: AppendHistory_plain [OF assms])
  then show ?thesis
    using AppendHistory_plain(1) [OF assms, of h]
    by (cases "sqlite_AppendHistory plain_codec reliable s h") (simp add: view_AppendHistory_def)
qed

section \<open>The contract\<close>

interpretation sq_store: message_store "sqlite_store plain_codec reliable" sqlite_inv sqlite_view Some
proof
  show "t \<noteq> zero_time \<Longrightarrow> Some t = Some t" for t :: time by simp
next
  fix s assume inv: "sqlite_inv s"
  note o = inv_open [OF inv] and d = inv_ids [OF inv] and ex = exec_sqlite_inv [OF inv]
  let ?ops = "sqlite_store plain_codec reliable"
  show "msg_ID m = i" if "v_msgs (sqlite_view s) i = Some m" for i m
    using that by (auto dest: row_at_ID)
  show "dl_ID d = i" if "v_dead (sqlite_view s) i = Some d" for i d
    using that by (auto dest: find_in)
  show "so_Message ?ops s i = (case v_msgs (sqlite_view s) i of None \<Rightarrow> Inl ErrNotFound | Some m \<Rightarrow> Inr m)" for i
    by (simp add: sqlite_store_def Message_plain [OF o] split: option.split)
  show "so_DeadLetter ?ops s i = (case v_dead (sqlite_view s) i of None \<Rightarrow> Inl ErrNotFound | Some d \<Rightarrow> Inr d)" for i
    by (simp add: sqlite_store_def DeadLetter_plain [OF o] split: option.split)
  show "so_History ?ops s i = Inr (v_events (sqlite_view s) i)" for i
    by (simp add: sqlite_store_def History_plain [OF o inv_history [OF inv]])
  show "sqlite_inv (snd (so_Append ?ops s ms)) \<and> apsnd sqlite_view (so_Append ?ops s ms) = view_Append (sqlite_view s) ms"
    if "appendable ms" for ms
    using ex [of "OpAppend ms" reliable] sq_append_view [OF o that] by (simp add: sqlite_store_def)
  show "sqlite_inv (snd (so_Acknowledge ?ops s i t)) \<and> apsnd sqlite_view (so_Acknowledge ?ops s i t) =
      view_update (sqlite_view s) i (\<lambda>m. if_leased m (acked_msg t m))" for i t
    using ex [of "OpAcknowledge i t" reliable] by (simp add: sqlite_store_def Acknowledge_plain [OF o d] leased_view)
  show "sqlite_inv (snd (so_ScheduleRetry ?ops s req)) \<and> apsnd sqlite_view (so_ScheduleRetry ?ops s req) =
      view_update (sqlite_view s) (rr_ID req) (\<lambda>m. if_leased m (retry_msg req m))" for req
    using ex [of "OpScheduleRetry req" reliable] by (simp add: sqlite_store_def ScheduleRetry_plain [OF o d] leased_view)
  show "sqlite_inv (snd (so_Release ?ops s i t)) \<and> apsnd sqlite_view (so_Release ?ops s i t) =
      view_update (sqlite_view s) i (\<lambda>m. if_leased m (released_msg t m))" for i t
    using ex [of "OpRelease i t" reliable] by (simp add: sqlite_store_def Release_plain [OF o d] leased_view)
  show "sqlite_inv (snd (so_MarkDeadLettered ?ops s i reason t)) \<and>
      apsnd sqlite_view (so_MarkDeadLettered ?ops s i reason t) = view_update (sqlite_view s) i (bury reason t)" for i reason t
    using ex [of "OpMarkDeadLettered i reason t" reliable]
    by (simp add: sqlite_store_def MarkDeadLettered_plain [OF o d] leased_view)
  show "sqlite_inv (snd (so_Claim ?ops s creq))" for creq
    using ex [of "OpClaim creq" reliable] by (simp add: sqlite_store_def)
  show "sqlite_view s' = sqlite_view s \<and> (v_closed (sqlite_view s) \<or> cr_Limit creq < 0)"
    if "so_Claim ?ops s creq = (Inl err, s')" for creq err s'
    using that by (simp add: sqlite_store_def Claim_plain [OF o d] Let_def)
  show "sqlite_inv (snd (so_SaveDeadLetter ?ops s d fresh)) \<and>
      apsnd sqlite_view (so_SaveDeadLetter ?ops s d fresh) = view_SaveDeadLetter (sqlite_view s) d fresh" for d fresh
    using ex [of "OpSaveDeadLetter d fresh" reliable] by (simp add: sqlite_store_def save_dead_view [OF o])
  show "sqlite_inv (snd (so_MarkDeadLetterReplayed ?ops s i as t)) \<and>
      apsnd sqlite_view (so_MarkDeadLetterReplayed ?ops s i as t) = view_MarkReplayed (sqlite_view s) i as t" for i as t
    using ex [of "OpMarkDeadLetterReplayed i as t" reliable] by (simp add: sqlite_store_def mark_replayed_view [OF o])
  show "sqlite_inv (snd (so_DeleteDeadLetter ?ops s i)) \<and>
      apsnd sqlite_view (so_DeleteDeadLetter ?ops s i) = view_DeleteDead (sqlite_view s) i" for i
    using ex [of "OpDeleteDeadLetter i" reliable] by (simp add: sqlite_store_def delete_dead_view [OF o])
  show "sqlite_inv (snd (so_AppendHistory ?ops s h)) \<and>
      apsnd sqlite_view (so_AppendHistory ?ops s h) = view_AppendHistory (sqlite_view s) h" for h
    using ex [of "OpAppendHistory h" reliable] by (simp add: sqlite_store_def append_history_view [OF o])
  show "sqlite_inv (snd (so_Purge ?ops s q)) \<and> view_shrinks (sqlite_view s) (sqlite_view (snd (so_Purge ?ops s q)))" for q
    using ex [of "OpPurge q" reliable] by (simp add: sqlite_store_def purge_view [OF inv])
  show "sqlite_inv (snd (so_DeleteQueue ?ops s q)) \<and>
      view_shrinks (sqlite_view s) (sqlite_view (snd (so_DeleteQueue ?ops s q)))" for q
    using ex [of "OpDeleteQueue q" reliable] by (simp add: sqlite_store_def delete_view [OF inv])
  show "sqlite_inv (snd (so_SaveExchange ?ops s x)) \<and> sqlite_view (snd (so_SaveExchange ?ops s x)) = sqlite_view s" for x
    using ex [of "OpSaveExchange x" reliable] by (simp add: sqlite_store_def sqlite_SaveExchange_def sqlite_simps o Let_def)
  show "sqlite_inv (snd (so_SaveQueue ?ops s qu)) \<and> sqlite_view (snd (so_SaveQueue ?ops s qu)) = sqlite_view s" for qu
    using ex [of "OpSaveQueue qu" reliable] by (simp add: sqlite_store_def sqlite_SaveQueue_def sqlite_simps o Let_def)
  show "sqlite_inv (snd (so_SaveBinding ?ops s b)) \<and> sqlite_view (snd (so_SaveBinding ?ops s b)) = sqlite_view s" for b
    using ex [of "OpSaveBinding b" reliable] by (simp add: sqlite_store_def sqlite_SaveBinding_def sqlite_simps o Let_def)
  show "sqlite_inv (snd (so_DeleteBinding ?ops s bs)) \<and> sqlite_view (snd (so_DeleteBinding ?ops s bs)) = sqlite_view s" for bs
    using ex [of "OpDeleteBinding bs" reliable] by (simp add: sqlite_store_def sqlite_DeleteBinding_def sqlite_simps o Let_def)
  have sel: "so_Claim ?ops = sqlite_Claim plain_codec reliable" "so_ExpiredLeases ?ops = sqlite_ExpiredLeases plain_codec reliable"
    by (simp_all add: sqlite_store_def)
  show "distinct (map msg_ID ms) \<and> int (length ms) \<le> max 0 (cr_Limit creq) \<and>
      (\<forall>i \<in> msg_ID ` set ms. claimable_from (sqlite_view s) creq i) \<and>
      (\<forall>m \<in> set ms. v_msgs (sqlite_view s') (msg_ID m) = Some m) \<and>
      sqlite_view s' = view_claimed (sqlite_view s) creq (Some (cr_Now creq + cr_Lease creq)) (msg_ID ` set ms) \<and>
      (int (length ms) < cr_Limit creq \<longrightarrow> (\<forall>i. claimable_from (sqlite_view s) creq i \<longrightarrow> i \<in> msg_ID ` set ms))"
    if "so_Claim ?ops s creq = (Inr ms, s')" for creq ms s'
    using that unfolding sel by (rule sq_claim_law [OF inv])
  show "\<exists>ms. so_ExpiredLeases ?ops s now limit = Inr ms \<and> distinct (map msg_ID ms) \<and> int (length ms) \<le> limit \<and>
      (\<forall>m \<in> set ms. v_msgs (sqlite_view s) (msg_ID m) = Some m \<and> lease_expired (sqlite_view s) now (msg_ID m)) \<and>
      (int (length ms) < limit \<longrightarrow> (\<forall>i. lease_expired (sqlite_view s) now i \<longrightarrow> i \<in> msg_ID ` set ms))"
    if "0 < limit" for now limit
    unfolding sel by (rule sq_expired_law [OF inv that])
qed

end
