(* ===== verification/MemoryContract.thy ===== *)
theory MemoryContract
  imports EngineReach
begin

text \<open>The in-memory store keeps the engine's contract; the interpretation at the end makes every law of the
  engine a law of the engine over this store.\<close>

definition memory_stamp :: "time \<Rightarrow> time option" where
  "memory_stamp t = (if t = zero_time then None else Some t)"

definition memory_view :: "Store \<Rightarrow> View" where
  "memory_view s =
    \<lparr> v_closed = ms_closed s,
      v_msgs = (\<lambda>i. map_option rec_msg (mget (ms_messages s) i)),
      v_lease = (\<lambda>i. case mget (ms_messages s) i of None \<Rightarrow> None | Some r \<Rightarrow> memory_stamp (rec_lease r)),
      v_dead = mget (ms_deadLetters s),
      v_events = ms_history s \<rparr>"

lemma memory_view_sel [simp]:
  "v_closed (memory_view s) = ms_closed s"
  "v_msgs (memory_view s) i = map_option rec_msg (mget (ms_messages s) i)"
  "v_lease (memory_view s) i = (case mget (ms_messages s) i of None \<Rightarrow> None | Some r \<Rightarrow> memory_stamp (rec_lease r))"
  "v_dead (memory_view s) = mget (ms_deadLetters s)"
  "v_events (memory_view s) = ms_history s"
  by (simp_all add: memory_view_def)

lemma update_view: "apsnd memory_view (mem_update s i f) = view_update (memory_view s) i f"
  by (auto simp: mem_update_def view_update_def replace_def memory_stamp_def intro!: view_eqI split: option.splits sum.splits)

lemma fold_append_get:
  assumes "distinct (map msg_ID ms)"
  shows "mget (ms_messages (fold append_one ms s)) i =
    (case find (\<lambda>m. msg_ID m = i) ms of
       Some m \<Rightarrow> Some \<lparr>rec_msg = m, rec_lease = zero_time, rec_consumer = []\<rparr>
     | None \<Rightarrow> mget (ms_messages s) i)"
  using assms
proof (induction ms arbitrary: s)
  case (Cons m ms)
  have "find (\<lambda>m'. msg_ID m' = msg_ID m) ms = None" using Cons.prems by (auto simp: find_None_iff) (metis imageI)
  with Cons show ?case by (auto split: option.splits)
qed simp

lemma fold_append_frame:
  "ms_closed (fold append_one ms s) = ms_closed s" "ms_deadLetters (fold append_one ms s) = ms_deadLetters s"
  "ms_history (fold append_one ms s) = ms_history s"
  by (induction ms arbitrary: s) simp_all

lemma append_view:
  assumes "appendable ms"
  shows "apsnd memory_view (memory_Append s ms) = view_Append (memory_view s) ms"
proof -
  have d: "distinct (map msg_ID ms)" using assms by (simp add: appendable_def)
  have mem: "i \<in> msg_ID ` set ms \<longleftrightarrow> find (\<lambda>m. msg_ID m = i) ms \<noteq> None" for i
    by (auto simp: find_None_iff)
  have "memory_view (fold append_one ms s) = (memory_view s)
      \<lparr> v_msgs := (\<lambda>i. case find (\<lambda>m. msg_ID m = i) ms of Some m \<Rightarrow> Some m | None \<Rightarrow> v_msgs (memory_view s) i),
        v_lease := (\<lambda>i. if i \<in> msg_ID ` set ms then None else v_lease (memory_view s) i) \<rparr>"
    by (rule view_eqI) (auto simp: fold_append_get [OF d] fold_append_frame mem memory_stamp_def simp del: not_None_eq split: option.splits)
  then show ?thesis by (simp add: memory_Append_def view_Append_def)
qed

lemma claimable_view:
  assumes ok: "msgs_ok s"
  shows "i \<in> set (filter (claimable_in (ms_messages s) (cr_Now req)) (ms_order s (cr_Queue req))) \<longleftrightarrow>
    claimable_from (memory_view s) req i"
proof (cases "mget (ms_messages s) i")
  case None
  then show ?thesis by (simp add: claimable_in_def claimable_from_def)
next
  case (Some r)
  have "i \<in> set (ms_order s (cr_Queue req)) \<longleftrightarrow> msg_Queue (rec_msg r) = cr_Queue req"
    if "claimable (rec_msg r) (cr_Now req)"
  proof
    assume "i \<in> set (ms_order s (cr_Queue req))"
    then show "msg_Queue (rec_msg r) = cr_Queue req"
      using msgs_okD(3) [OF ok, of "cr_Queue req"] Some by (auto simp: queue_ok_def)
  next
    assume q: "msg_Queue (rec_msg r) = cr_Queue req"
    have "\<not> State_Terminal (msg_State (rec_msg r))"
      using that by (auto simp: claimable_def split: if_splits)
    then show "i \<in> set (ms_order s (cr_Queue req))"
      using msgs_okD(2) [OF ok Some] q by (simp add: rec_ok_def)
  qed
  then show ?thesis using Some by (auto simp: claimable_in_def claimable_from_def claimable_ready)
qed

lemma claim_frame:
  assumes ok: "msgs_ok s"
  shows "ms_closed (snd (memory_Claim s req)) = ms_closed s"
    "ms_deadLetters (snd (memory_Claim s req)) = ms_deadLetters s"
    "ms_history (snd (memory_Claim s req)) = ms_history s"
proof -
  obtain ids where "compactLocked s (cr_Queue req) = (None, reindexed s (cr_Queue req) ids)"
    by (rule compact_reindexes [OF ok, of "cr_Queue req"])
  then show "ms_closed (snd (memory_Claim s req)) = ms_closed s"
    "ms_deadLetters (snd (memory_Claim s req)) = ms_deadLetters s"
    "ms_history (snd (memory_Claim s req)) = ms_history s"
    by (simp_all add: memory_Claim_def reindexed_def split_def Let_def)
qed

lemma claim_error:
  assumes ok: "msgs_ok s" and c: "memory_Claim s req = (Inl err, s')"
  shows "memory_view s' = memory_view s \<and> (ms_closed s \<or> cr_Limit req < 0)"
proof -
  obtain ids where ids: "compactLocked s (cr_Queue req) = (None, reindexed s (cr_Queue req) ids)"
    by (rule compact_reindexes [OF ok, of "cr_Queue req"])
  have cl: "ms_closed s \<or> cr_Limit req < 0"
  proof (rule ccontr)
    assume n: "\<not> (ms_closed s \<or> cr_Limit req < 0)"
    show False
      by (rule claim_eq [OF ok, of req]) (use n c in auto)
  qed
  moreover have "memory_view (reindexed s (cr_Queue req) ids) = memory_view s"
    by (rule view_eqI) (simp_all add: reindexed_def)
  ultimately show ?thesis using c ids by (auto simp: memory_Claim_def split: if_splits)
qed

lemma claim_law:
  assumes ok: "msgs_ok s" and c: "memory_Claim s req = (Inr ms, s')"
  shows "distinct (map msg_ID ms) \<and> int (length ms) \<le> max 0 (cr_Limit req) \<and>
      (\<forall>i \<in> msg_ID ` set ms. claimable_from (memory_view s) req i) \<and>
      (\<forall>m \<in> set ms. v_msgs (memory_view s') (msg_ID m) = Some m) \<and>
      memory_view s' = view_claimed (memory_view s) req (memory_stamp (cr_Now req + cr_Lease req)) (msg_ID ` set ms) \<and>
      (int (length ms) < cr_Limit req \<longrightarrow>
        (\<forall>i. claimable_from (memory_view s) req i \<longrightarrow> i \<in> msg_ID ` set ms))"
proof -
  let ?lease = "memory_stamp (cr_Now req + cr_Lease req)"
  let ?ids = "claim_ids s req" and ?all = "filter (claimable_in (ms_messages s) (cr_Now req)) (ms_order s (cr_Queue req))"
  note C = Claim_Inr [OF ok c]
  have ids: "msg_ID ` set ms = set ?ids" using C(1) by (metis set_map)
  have "\<not> (ms_closed s \<or> cr_Limit req < 0)" using c by (auto simp: memory_Claim_def split: if_splits prod.splits option.splits)
  then have lim: "0 \<le> cr_Limit req" "\<not> ms_closed s" by auto
  obtain ix where ms: "ms = map (\<lambda>i. claimed_msg req (rec_msg (the (mget (ms_messages s) i)))) ?ids"
    by (rule claim_eq [OF ok lim(2,1)]) (use c in auto)
  have len: "int (length ms) = min (cr_Limit req) (int (length ?all))"
    using C(1) lim(1) by (metis (no_types) claim_ids_def length_map length_take min.commute nat_0_le of_nat_min)
  have sub: "set ?ids \<subseteq> set ?all" unfolding claim_ids_def by (rule set_take_subset)
  have cl: "claimable_from (memory_view s) req i" if "i \<in> set ?ids" for i
    using sub that claimable_view [OF ok] by blast
  have "distinct (ms_order s (cr_Queue req))"
    using msgs_okD(3) [OF ok, of "cr_Queue req"] by (simp add: queue_ok_def)
  then have "distinct ?ids" by (simp add: claim_ids_def)
  moreover have view: "memory_view s' = view_claimed (memory_view s) req ?lease (set ?ids)"
  proof (rule view_eqI)
    fix i
    have get: "\<exists>r. mget (ms_messages s) i = Some r" if "i \<in> set ?ids"
      using cl [OF that] by (simp add: claimable_from_def split: option.splits)
    show "v_msgs (memory_view s') i = v_msgs (view_claimed (memory_view s) req ?lease (set ?ids)) i"
      "v_lease (memory_view s') i = v_lease (view_claimed (memory_view s) req ?lease (set ?ids)) i"
      using get by (auto simp: view_claimed_def C(2) claimed_rec_def)
  qed (use claim_frame [OF ok, of req] c in \<open>simp_all add: view_claimed_def\<close>)
  moreover have "v_msgs (memory_view s') (msg_ID m) = Some m" if m: "m \<in> set ms" for m
  proof -
    obtain i where i: "i \<in> set ?ids" "m = claimed_msg req (rec_msg (the (mget (ms_messages s) i)))"
      using m ms by auto
    then obtain r where r: "mget (ms_messages s) i = Some r"
      using cl [OF i(1)] by (auto simp: claimable_from_def split: option.splits)
    then have "msg_ID m = i" using i(2) rec_ID [OF ok r] by (simp add: claimed_msg_def)
    then show ?thesis using i r by (simp add: C(2))
  qed
  moreover have "?ids = ?all" if "int (length ms) < cr_Limit req"
    using that len lim(1) by (simp add: claim_ids_def)
  moreover have "i \<in> set ?ids" if "int (length ms) < cr_Limit req" "claimable_from (memory_view s) req i" for i
    using that \<open>int (length ms) < cr_Limit req \<Longrightarrow> ?ids = ?all\<close> claimable_view [OF ok, of i req] by simp
  moreover have "int (length ms) \<le> max 0 (cr_Limit req)" using len by simp
  ultimately show ?thesis unfolding ids C(1) using cl by blast
qed

lemma expired_law:
  assumes ok: "msgs_ok s" and lim: "0 < limit"
  shows "\<exists>ms. memory_ExpiredLeases s now limit = Inr ms \<and>
      distinct (map msg_ID ms) \<and> int (length ms) \<le> limit \<and>
      (\<forall>m \<in> set ms. v_msgs (memory_view s) (msg_ID m) = Some m \<and> lease_expired (memory_view s) now (msg_ID m)) \<and>
      (int (length ms) < limit \<longrightarrow> (\<forall>i. lease_expired (memory_view s) now i \<longrightarrow> i \<in> msg_ID ` set ms))"
proof -
  let ?P = "\<lambda>r. \<not> (msg_State (rec_msg r) \<noteq> StateProcessing \<or> rec_lease r = zero_time \<or> now < rec_lease r)"
  define all where "all = sort_key msg_ID (map rec_msg (filter ?P (mvals (ms_messages s))))"
  define ms where "ms = (if int (length all) > limit then take (nat limit) all else all)"
  have res: "memory_ExpiredLeases s now limit = Inr ms"
    using lim by (simp add: memory_ExpiredLeases_def ms_def all_def)
  have wf: "mwf (ms_messages s)" using msgs_okD(1) [OF ok] .
  have "distinct (map (\<lambda>r. msg_ID (rec_msg r)) (mvals (ms_messages s)))"
    by (rule mvals_distinct [OF wf rec_ID [OF ok]])
  then have "distinct (map msg_ID (map rec_msg (filter ?P (mvals (ms_messages s)))))"
    by (simp add: comp_def distinct_map_filter)
  moreover have "mset (map msg_ID all) = mset (map msg_ID (map rec_msg (filter ?P (mvals (ms_messages s)))))"
    unfolding all_def by (simp only: mset_map mset_sort)
  ultimately have "distinct (map msg_ID all)" using mset_eq_imp_distinct_iff by blast
  then have dist: "distinct (map msg_ID ms)" by (simp add: ms_def take_map [symmetric])
  have mem: "m \<in> set all \<longleftrightarrow> (\<exists>i r. mget (ms_messages s) i = Some r \<and> ?P r \<and> m = rec_msg r)" for m
    using mwf_mvals_iff [OF wf] by (auto simp: all_def simp del: set_map) (auto simp: image_iff)
  have sub: "set ms \<subseteq> set all" by (simp add: ms_def set_take_subset)
  have "v_msgs (memory_view s) (msg_ID m) = Some m \<and> lease_expired (memory_view s) now (msg_ID m)"
    if m: "m \<in> set ms" for m
  proof -
    obtain i r where r: "mget (ms_messages s) i = Some r" "?P r" "m = rec_msg r"
      using m sub mem [of m] by blast
    moreover have "msg_ID m = i" using rec_ID [OF ok r(1)] r(3) by simp
    ultimately show ?thesis by (simp add: lease_expired_def memory_stamp_def)
  qed
  moreover have "i \<in> msg_ID ` set all" if le: "lease_expired (memory_view s) now i" for i
  proof -
    obtain r where r: "mget (ms_messages s) i = Some r" "?P r"
      using le by (auto simp: lease_expired_def memory_stamp_def split: option.splits if_splits)
    then have "rec_msg r \<in> set all" using mem by blast
    then show ?thesis using rec_ID [OF ok r(1)] by (metis imageI)
  qed
  moreover have "ms = all" if "int (length ms) < limit"
    using that by (auto simp: ms_def split: if_splits)
  moreover have "int (length ms) \<le> limit" using lim by (simp add: ms_def)
  ultimately show ?thesis using res dist by blast
qed

lemma dropped_view:
  "view_shrinks (memory_view s) (memory_view (dropped s q keep))"
  unfolding view_shrinks_def
proof
  show "memory_view (dropped s q keep) = (memory_view s)
      \<lparr> v_msgs := (\<lambda>i. if \<not> drops s q keep i then v_msgs (memory_view s) i else None),
        v_lease := (\<lambda>i. if \<not> drops s q keep i then v_lease (memory_view s) i else None) \<rparr>"
    by (rule view_eqI, simp_all add: dropped_get) (simp_all add: dropped_def)
qed

lemma view_topology [simp]:
  "memory_view (s\<lparr>ms_exchanges := a\<rparr>) = memory_view s" "memory_view (s\<lparr>ms_queues := b\<rparr>) = memory_view s"
  "memory_view (s\<lparr>ms_bindings := c\<rparr>) = memory_view s"
  by (simp_all add: memory_view_def)

lemma view_shrinks_refl: "view_shrinks v v"
  unfolding view_shrinks_def by (rule exI [of _ "\<lambda>_. True"]) simp

interpretation mem_store: message_store memory_store store_inv memory_view memory_stamp
proof
  show "t \<noteq> zero_time \<Longrightarrow> memory_stamp t = Some t" for t by (simp add: memory_stamp_def)
next
  fix s assume inv: "store_inv s"
  note ok = store_inv_msgs [OF inv] and store = store_inv_ok [OF inv] and ex = exec_inv [OF inv]
  show "msg_ID m = i" if "v_msgs (memory_view s) i = Some m" for i m
    using that rec_ID [OF ok, of i] by auto
  show "dl_ID d = i" if "v_dead (memory_view s) i = Some d" for i d
    using that store by (auto simp: store_ok_def dead_ok_def)
  show "so_Message memory_store s i = (case v_msgs (memory_view s) i of None \<Rightarrow> Inl ErrNotFound | Some m \<Rightarrow> Inr m)" for i
    by (simp add: memory_store_def memory_Message_def split: option.split)
  show "so_DeadLetter memory_store s i = (case v_dead (memory_view s) i of None \<Rightarrow> Inl ErrNotFound | Some d \<Rightarrow> Inr d)" for i
    by (simp add: memory_store_def memory_DeadLetter_def)
  show "so_History memory_store s i = Inr (v_events (memory_view s) i)" for i
    by (simp add: memory_store_def memory_History_def)
  show "store_inv (snd (so_Append memory_store s ms)) \<and>
      apsnd memory_view (so_Append memory_store s ms) = view_Append (memory_view s) ms" if "appendable ms" for ms
    using that ex [of "OpAppend ms"] append_view [OF that, of s] by (simp add: memory_store_def)
  show "store_inv (snd (so_Acknowledge memory_store s i t)) \<and> apsnd memory_view (so_Acknowledge memory_store s i t) =
      view_update (memory_view s) i (\<lambda>m. if_leased m (acked_msg t m))" for i t
    using ex [of "OpAcknowledge i t"] by (simp add: memory_store_def Acknowledge_update [OF ok] update_view)
  show "store_inv (snd (so_ScheduleRetry memory_store s req)) \<and> apsnd memory_view (so_ScheduleRetry memory_store s req) =
      view_update (memory_view s) (rr_ID req) (\<lambda>m. if_leased m (retry_msg req m))" for req
    using ex [of "OpScheduleRetry req"] by (simp add: memory_store_def ScheduleRetry_update [OF ok] update_view)
  show "store_inv (snd (so_Release memory_store s i t)) \<and> apsnd memory_view (so_Release memory_store s i t) =
      view_update (memory_view s) i (\<lambda>m. if_leased m (released_msg t m))" for i t
    using ex [of "OpRelease i t"] by (simp add: memory_store_def Release_update [OF ok] update_view)
  show "store_inv (snd (so_MarkDeadLettered memory_store s i reason t)) \<and>
      apsnd memory_view (so_MarkDeadLettered memory_store s i reason t) =
      view_update (memory_view s) i (bury reason t)" for i reason t
  proof -
    have "bury reason t = (\<lambda>m. if msg_State m \<in> {StateProcessing, StateFailed} then Inr (buried_msg reason t m)
        else Inl (InvalidTransitionError (msg_State m) StateDeadLettered))" by (rule ext) (simp add: bury_def)
    then show ?thesis
      using ex [of "OpMarkDeadLettered i reason t"] by (simp add: memory_store_def MarkDeadLettered_update update_view)
  qed
  show "store_inv (snd (so_Claim memory_store s creq))" for creq
    using ex [of "OpClaim creq"] by (simp add: memory_store_def)
  show "memory_view s' = memory_view s \<and> (v_closed (memory_view s) \<or> cr_Limit creq < 0)"
    if "so_Claim memory_store s creq = (Inl err, s')" for creq err s'
    using claim_error [OF ok, of creq err s'] that by (simp add: memory_store_def)
  show "store_inv (snd (so_SaveDeadLetter memory_store s d fresh)) \<and>
      apsnd memory_view (so_SaveDeadLetter memory_store s d fresh) = view_SaveDeadLetter (memory_view s) d fresh" for d fresh
    using ex [of "OpSaveDeadLetter d fresh"]
    by (auto simp: memory_store_def memory_SaveDeadLetter_def view_SaveDeadLetter_def Let_def intro!: view_eqI)
  show "store_inv (snd (so_MarkDeadLetterReplayed memory_store s i as t)) \<and>
      apsnd memory_view (so_MarkDeadLetterReplayed memory_store s i as t) = view_MarkReplayed (memory_view s) i as t" for i as t
    using ex [of "OpMarkDeadLetterReplayed i as t"]
    by (auto simp: memory_store_def memory_MarkDeadLetterReplayed_def view_MarkReplayed_def replayed_dead_def
        intro!: view_eqI split: option.split)
  show "store_inv (snd (so_DeleteDeadLetter memory_store s i)) \<and>
      apsnd memory_view (so_DeleteDeadLetter memory_store s i) = view_DeleteDead (memory_view s) i" for i
    using ex [of "OpDeleteDeadLetter i"]
    by (auto simp: memory_store_def memory_DeleteDeadLetter_def view_DeleteDead_def intro!: view_eqI split: option.split)
  show "store_inv (snd (so_AppendHistory memory_store s h)) \<and>
      apsnd memory_view (so_AppendHistory memory_store s h) = view_AppendHistory (memory_view s) h" for h
    using ex [of "OpAppendHistory h"]
    by (auto simp: memory_store_def memory_AppendHistory_def view_AppendHistory_def intro!: view_eqI)
  show "store_inv (snd (so_Purge memory_store s q)) \<and> view_shrinks (memory_view s) (memory_view (snd (so_Purge memory_store s q)))" for q
    using ex [of "OpPurge q"] Purge_eq [OF ok, of q] dropped_view [of s q "isSettledLocked s"]
    by (auto simp: memory_store_def purged_def view_shrinks_refl)
  show "store_inv (snd (so_DeleteQueue memory_store s q)) \<and>
      view_shrinks (memory_view s) (memory_view (snd (so_DeleteQueue memory_store s q)))" for q
    using ex [of "OpDeleteQueue q"] dropped_view [of s q "\<lambda>_. False"]
    by (auto simp: memory_store_def DeleteQueue_eq view_shrinks_refl)
  show "store_inv (snd (so_SaveExchange memory_store s x)) \<and> memory_view (snd (so_SaveExchange memory_store s x)) = memory_view s" for x
    using ex [of "OpSaveExchange x"] by (simp add: memory_store_def memory_SaveExchange_def)
  show "store_inv (snd (so_SaveQueue memory_store s qu)) \<and> memory_view (snd (so_SaveQueue memory_store s qu)) = memory_view s" for qu
    using ex [of "OpSaveQueue qu"] by (simp add: memory_store_def memory_SaveQueue_def)
  show "store_inv (snd (so_SaveBinding memory_store s b)) \<and> memory_view (snd (so_SaveBinding memory_store s b)) = memory_view s" for b
    using ex [of "OpSaveBinding b"] by (simp add: memory_store_def memory_SaveBinding_def)
  show "store_inv (snd (so_DeleteBinding memory_store s bs)) \<and> memory_view (snd (so_DeleteBinding memory_store s bs)) = memory_view s" for bs
    using ex [of "OpDeleteBinding bs"] by (simp add: memory_store_def memory_DeleteBinding_def Let_def)
  have sel: "so_Claim memory_store = memory_Claim" "so_ExpiredLeases memory_store = memory_ExpiredLeases"
    by (simp_all add: memory_store_def)
  show "distinct (map msg_ID ms) \<and> int (length ms) \<le> max 0 (cr_Limit creq) \<and>
      (\<forall>i \<in> msg_ID ` set ms. claimable_from (memory_view s) creq i) \<and>
      (\<forall>m \<in> set ms. v_msgs (memory_view s') (msg_ID m) = Some m) \<and>
      memory_view s' = view_claimed (memory_view s) creq (memory_stamp (cr_Now creq + cr_Lease creq)) (msg_ID ` set ms) \<and>
      (int (length ms) < cr_Limit creq \<longrightarrow> (\<forall>i. claimable_from (memory_view s) creq i \<longrightarrow> i \<in> msg_ID ` set ms))"
    if "so_Claim memory_store s creq = (Inr ms, s')" for creq ms s'
    using that unfolding sel by (rule claim_law [OF ok])
  show "\<exists>ms. so_ExpiredLeases memory_store s now limit = Inr ms \<and>
      distinct (map msg_ID ms) \<and> int (length ms) \<le> limit \<and>
      (\<forall>m \<in> set ms. v_msgs (memory_view s) (msg_ID m) = Some m \<and> lease_expired (memory_view s) now (msg_ID m)) \<and>
      (int (length ms) < limit \<longrightarrow> (\<forall>i. lease_expired (memory_view s) now i \<longrightarrow> i \<in> msg_ID ` set ms))"
    if "0 < limit" for now limit
    unfolding sel by (rule expired_law [OF ok that])
qed

end
