(* ===== verification/EngineWf.thy ===== *)
theory EngineWf
  imports EngineSteps
begin

text \<open>
  The consumers of the engine (\<open>consumer.go\<close>, \<open>dispatcher.go\<close>): the map of consumers, the objects it
  points to and the signal channels stay consistent through every operation of the engine, over any
  store. Most operations do not touch them; \<open>consumer_frame\<close> collects what they keep.
\<close>

section \<open>Well-formed consumers\<close>

definition consumer_ok :: "Consumer \<Rightarrow> bool" where
  "consumer_ok c \<longleftrightarrow> 1 \<le> cs_Concurrency (co_spec c) \<and> 1 \<le> cs_Prefetch (co_spec c) \<and> cs_Handler (co_spec c) \<and>
    Pool_Size (co_pool c) = cs_Concurrency (co_spec c) \<and> Pool_Capacity (co_pool c) = cs_Prefetch (co_spec c) \<and>
    po_started (co_pool c) \<and> po_queued (co_pool c) = int (length (po_tasks (co_pool c))) \<and>
    po_inFlight (co_pool c) = 0 \<and>
    co_cancelled c = co_stopped c \<and> po_stopped (co_pool c) = co_stopped c \<and> po_closed (co_pool c) = co_stopped c"

definition consumers_ok :: "'s Engine \<Rightarrow> bool" where
  "consumers_ok e \<longleftrightarrow> mwf (eg_consumers e) \<and> (\<forall>c\<in>set (eg_objects e). consumer_ok c) \<and>
    (\<forall>n p. mget (eg_consumers e) n = Some p \<longrightarrow>
      p < length (eg_objects e) \<and> Consumer_Name (eg_objects e ! p) = n \<and> \<not> co_stopped (eg_objects e ! p) \<and>
      Consumer_Queue (eg_objects e ! p) \<in> set (mkeys (eg_signals e))) \<and>
    (\<forall>p<length (eg_objects e). co_stopped (eg_objects e ! p) \<or> (\<exists>n. mget (eg_consumers e) n = Some p)) \<and>
    (eg_consumers e \<noteq> [] \<longrightarrow> eg_rootCtx e)"

lemma consumers_okD:
  assumes "consumers_ok e"
  shows "mwf (eg_consumers e)" "p < length (eg_objects e) \<Longrightarrow> consumer_ok (eg_objects e ! p)"
    "mget (eg_consumers e) n = Some p \<Longrightarrow> p < length (eg_objects e)"
    "mget (eg_consumers e) n = Some p \<Longrightarrow> Consumer_Name (eg_objects e ! p) = n \<and> \<not> co_stopped (eg_objects e ! p) \<and>
      Consumer_Queue (eg_objects e ! p) \<in> set (mkeys (eg_signals e))"
    "p < length (eg_objects e) \<Longrightarrow> co_stopped (eg_objects e ! p) \<or> (\<exists>n. mget (eg_consumers e) n = Some p)"
    "eg_consumers e \<noteq> [] \<Longrightarrow> eg_rootCtx e"
  using assms unfolding consumers_ok_def by auto

section \<open>Operations that keep the consumers\<close>

definition same_consumer :: "Consumer \<Rightarrow> Consumer \<Rightarrow> bool" where
  "same_consumer c c' \<longleftrightarrow> co_spec c' = co_spec c \<and> co_stopped c' = co_stopped c \<and> (consumer_ok c \<longrightarrow> consumer_ok c')"

definition consumer_frame :: "'s Engine \<Rightarrow> 's Engine \<Rightarrow> bool" where
  "consumer_frame e e' \<longleftrightarrow> eg_consumers e' = eg_consumers e \<and> eg_rootCtx e' = eg_rootCtx e \<and>
    set (mkeys (eg_signals e)) \<subseteq> set (mkeys (eg_signals e')) \<and> list_all2 same_consumer (eg_objects e) (eg_objects e')"

lemma same_consumer_refl [simp]: "same_consumer c c"
  by (simp add: same_consumer_def)

lemma same_consumer_trans: "same_consumer a b \<Longrightarrow> same_consumer b c \<Longrightarrow> same_consumer a c"
  by (auto simp: same_consumer_def)

lemma consumer_frame_ok:
  assumes f: "consumer_frame e e'" and ok: "consumers_ok e"
  shows "consumers_ok e'"
proof -
  have len: "length (eg_objects e') = length (eg_objects e)" using f by (auto simp: consumer_frame_def dest: list_all2_lengthD)
  have same: "same_consumer (eg_objects e ! p) (eg_objects e' ! p)" if "p < length (eg_objects e)" for p
    using f that by (simp add: consumer_frame_def list_all2_nthD)
  have c: "consumer_ok (eg_objects e' ! p)" if "p < length (eg_objects e)" for p
    using same [OF that] consumers_okD(2) [OF ok that] by (simp add: same_consumer_def)
  show ?thesis
    unfolding consumers_ok_def
    using f ok same c len consumers_okD(3) [OF ok]
    by (auto simp: consumer_frame_def consumers_ok_def same_consumer_def Consumer_Name_def Consumer_Queue_def in_set_conv_nth
        subset_iff)
qed

lemma frame_refl [intro, simp]: "consumer_frame e e"
  by (simp add: consumer_frame_def list.rel_refl)

lemma frame_trans: "consumer_frame e f \<Longrightarrow> consumer_frame f g \<Longrightarrow> consumer_frame e g"
  unfolding consumer_frame_def by (auto intro: list_all2_trans [OF same_consumer_trans])

lemma mput_present_keys: "mget m k \<noteq> None \<Longrightarrow> mkeys (mput m k v) = mkeys m"
  by (induction m k v rule: mput.induct) auto

lemma notify_keys: "mkeys (eg_signals (notify qs e)) = mkeys (eg_signals e)"
proof -
  have "mkeys (fold (\<lambda>q s. if mget s q = None then s else mput s q True) qs s) = mkeys s" for s :: "(string, bool) gomap"
    by (induction qs arbitrary: s) (simp_all add: mput_present_keys)
  then show ?thesis by (simp add: notify_def)
qed

lemma frame_helpers:
  "consumer_frame e (with_store e s)" "consumer_frame e (metric m e)" "consumer_frame e (recordHistory ops e ev)"
  "consumer_frame e (notify qs e)" "consumer_frame e (e\<lparr>eg_registry := r\<rparr>)"
  using notify_keys [of qs e]
  by (simp_all add: consumer_frame_def with_store_def metric_def recordHistory_def list.rel_refl) (simp add: notify_def list.rel_refl)

lemma frame_chain:
  "consumer_frame e f \<Longrightarrow> consumer_frame e (with_store f s)" "consumer_frame e f \<Longrightarrow> consumer_frame e (metric m f)"
  "consumer_frame e f \<Longrightarrow> consumer_frame e (recordHistory ops f ev)" "consumer_frame e f \<Longrightarrow> consumer_frame e (notify qs f)"
  by (erule frame_trans, rule frame_helpers)+

lemma frame_fold: "(\<And>x e. consumer_frame e (f x e)) \<Longrightarrow> consumer_frame e (fold f xs e)"
  by (induction xs arbitrary: e) (auto intro: frame_trans)

lemma frame_set_object:
  "(p < length (eg_objects e) \<Longrightarrow> same_consumer (eg_objects e ! p) c) \<Longrightarrow> consumer_frame e (set_object e p c)"
  by (cases "p < length (eg_objects e)")
    (auto simp: consumer_frame_def set_object_def list_all2_conv_all_nth nth_list_update)

lemma frame_deadLetter: "consumer_frame e (Engine_deadLetter ops e consumer d cause now fresh)"
  unfolding Engine_deadLetter_def by (auto split: prod.split sum.split option.split intro!: frame_chain)

lemma frame_fail: "consumer_frame e (Engine_fail ops e consumer d cause now oor draw fresh)"
  unfolding Engine_fail_def Let_def
  by (auto split: prod.split option.split intro!: frame_chain frame_deadLetter)

lemma frame_process: "consumer_frame e (Engine_process ops e consumer d result started now oor draw fresh)"
  unfolding Engine_process_def Engine_acknowledge_def
  by (auto split: prod.split option.split intro!: frame_chain frame_fail)

lemma frame_worker: "consumer_frame e (worker_turn ops e p result started now oor draw fresh)"
proof (cases "po_tasks (co_pool (object e p))")
  case Nil
  then show ?thesis by (simp add: worker_turn_def)
next
  case (Cons d ds)
  let ?c = "object e p" and ?pool = "co_pool (object e p)"
  define f where "f = set_object e p (?c\<lparr>co_pool := ?pool\<lparr>po_tasks := ds, po_queued := po_queued ?pool - 1,
      po_inFlight := po_inFlight ?pool + 1\<rparr>\<rparr>)"
  define g where "g = Engine_process ops f (cs_Name (co_spec ?c)) d result started now oor draw fresh"
  have w: "worker_turn ops e p result started now oor draw fresh =
      set_object g p ((object g p)\<lparr>co_pool := (co_pool (object g p))\<lparr>po_inFlight := po_inFlight (co_pool (object g p)) - 1\<rparr>\<rparr>)"
    using Cons by (simp add: worker_turn_def Let_def f_def g_def)
  have obj: "eg_objects (Engine_process ops h n d result started now oor draw fresh) = eg_objects h" for h :: "'a Engine" and n
    by (auto simp: Engine_process_def Engine_acknowledge_def Engine_fail_def Engine_deadLetter_def Let_def with_store_def
        metric_def recordHistory_def split: prod.split option.split sum.split)
  have og: "eg_objects g = (eg_objects e)[p := ?c\<lparr>co_pool := ?pool\<lparr>po_tasks := ds, po_queued := po_queued ?pool - 1,
      po_inFlight := po_inFlight ?pool + 1\<rparr>\<rparr>]"
    unfolding g_def obj f_def by (simp add: set_object_def)
  have frame: "eg_consumers g = eg_consumers e" "eg_rootCtx g = eg_rootCtx e" "set (mkeys (eg_signals e)) \<subseteq> set (mkeys (eg_signals g))"
    using frame_process [of f ops "cs_Name (co_spec ?c)" d result started now oor draw fresh]
    unfolding g_def [symmetric] consumer_frame_def by (simp_all add: f_def set_object_def del: set_map)
  show ?thesis
    unfolding w
  proof (cases "p < length (eg_objects e)")
    case True
    then have "object g p = ?c\<lparr>co_pool := ?pool\<lparr>po_tasks := ds, po_queued := po_queued ?pool - 1,
        po_inFlight := po_inFlight ?pool + 1\<rparr>\<rparr>" by (simp add: object_def og)
    moreover have "same_consumer ?c (?c\<lparr>co_pool := ?pool\<lparr>po_tasks := ds, po_queued := po_queued ?pool - 1\<rparr>\<rparr>)"
      using Cons by (auto simp: same_consumer_def consumer_ok_def Pool_Size_def Pool_Capacity_def)
    ultimately show "consumer_frame e (set_object g p ((object g p)\<lparr>co_pool :=
        (co_pool (object g p))\<lparr>po_inFlight := po_inFlight (co_pool (object g p)) - 1\<rparr>\<rparr>))"
      using frame True
      by (auto simp: consumer_frame_def set_object_def og object_def list_all2_conv_all_nth nth_list_update)
  next
    case False
    then show "consumer_frame e (set_object g p ((object g p)\<lparr>co_pool :=
        (co_pool (object g p))\<lparr>po_inFlight := po_inFlight (co_pool (object g p)) - 1\<rparr>\<rparr>))"
      using frame by (simp add: consumer_frame_def set_object_def og list_update_beyond not_less list.rel_refl)
  qed
qed

lemma frame_handOff: "consumer_frame e (snd (Engine_handOff ops e p m h))"
proof -
  let ?ev = "\<lparr> he_MessageID = msg_ID m, he_Queue = msg_Queue m, he_From = StateQueued, he_To = StateProcessing,
      he_Consumer = cs_Name (co_spec (object e p)), he_Detail = [], he_At = ho_at h \<rparr>"
  define f where "f = metric (MessageDelivered (msg_Queue m)) (recordHistory ops e ?ev)"
  have "consumer_frame e f" unfolding f_def by (intro frame_chain frame_refl)
  moreover have "consumer_frame f (set_object f p ((object f p)\<lparr>co_pool := pool\<rparr>))"
    if "Pool_Submit (co_pool (object f p)) d ch = (r, pool)" for d ch r pool
    using that
    by (intro frame_set_object) (auto simp: Pool_Submit_def same_consumer_def consumer_ok_def Pool_Size_def Pool_Capacity_def
        object_def split: if_splits option.splits)
  ultimately show ?thesis
    unfolding Engine_handOff_def Let_def f_def [symmetric] releaseUndispatched_def
    by (auto split: prod.split option.split intro!: frame_chain intro: frame_trans)
qed

lemma frame_handoffs: "consumer_frame e (snd (handoff_loop ops e p ms hs))"
proof (induction ms arbitrary: e hs)
  case (Cons m ms)
  obtain r f where h: "Engine_handOff ops e p m (hs 0) = (r, f)" by fastforce
  then have "consumer_frame e f" using frame_handOff [of e ops p m "hs 0"] by simp
  then show ?case using Cons.IH [of f "\<lambda>i. hs (Suc i)"] by (auto simp: h split: option.split intro: frame_trans)
qed simp

lemma frame_dispatch: "consumer_frame e (snd (dispatch_turn ops e p now hs ctx_done w))"
proof -
  have wait: "consumer_frame f (waitForWork f q w)" for f :: "'a Engine" and q
    by (simp add: waitForWork_def consumer_frame_def list.rel_refl mput_present_keys del: set_map)
  have "consumer_frame e (snd (claimBatch ops e p now hs))"
    unfolding claimBatch_def Let_def
    by (auto simp: split_def split: sum.split intro!: frame_chain intro: frame_trans [OF frame_helpers(1) frame_handoffs])
  then show ?thesis
    by (auto simp: dispatch_turn_def Let_def split_def intro: frame_trans wait)
qed

lemma frame_publish: "consumer_frame e (snd (Engine_Publish ops e pub now entropy fresh latency))"
proof -
  have loop: "consumer_frame e (snd (publish_loop ops e pub now fresh qs en acc))" for e :: "'a Engine" and qs en acc
  proof (induction qs arbitrary: e en acc)
    case (Cons q qs)
    have v: "consumer_frame e (snd (Engine_validate ops e m now fresh))" for m
      by (auto simp: Engine_validate_def parkRejected_def Let_def split: option.split intro: frame_chain)
    obtain m where L: "publish_loop ops e pub now fresh (q # qs) en acc =
        (case Engine_validate ops e m now fresh of
           (Some err, e) \<Rightarrow> (Inl err, metric (MessageRejected (qs_Name (q_Spec q))) e)
         | (None, e) \<Rightarrow> (case Transition m StateQueued now of
             Inl err \<Rightarrow> (Inl err, e)
           | Inr msg \<Rightarrow> publish_loop ops e pub now fresh qs (\<lambda>i. en (Suc i)) (acc @ [msg])))"
      by (rule that, subst publish_loop.simps, unfold Let_def, rule refl)
    obtain r f where rf: "Engine_validate ops e m now fresh = (r, f)" by fastforce
    have f: "consumer_frame e f" using v [of m] rf by simp
    show ?case
      unfolding L rf using f frame_trans [OF f Cons.IH] by (auto split: option.split sum.split intro: frame_chain)
  qed simp
  have m: "consumer_frame f (fold (\<lambda>q. metric (MessagePublished q latency)) qs f)" for f :: "'a Engine" and qs
    by (rule frame_fold) (rule frame_helpers)
  have h: "consumer_frame f (fold (\<lambda>m e. recordHistory ops e (queued_event m now [])) ms f)" for f :: "'a Engine" and ms
    by (rule frame_fold) (rule frame_helpers)
  show ?thesis
    unfolding Engine_Publish_def Let_def
    by (auto split: prod.split option.split sum.split intro!: frame_chain frame_trans [OF _ m] frame_trans [OF _ h])
      (metis loop snd_conv)+
qed

lemma frame_reclaim: "consumer_frame e (maintenance_tick ops e now fresh)"
proof -
  have loop: "consumer_frame e (snd (reclaim_loop ops e now ms fresh rq))" for e :: "'a Engine" and ms fresh rq
  proof (induction ms arbitrary: e fresh rq)
    case (Cons m ms)
    have "consumer_frame e (snd (requeueExpired ops e m now))"
      by (auto simp: requeueExpired_def split: prod.split option.split intro!: frame_chain)
    then show ?case
      using frame_trans [OF _ Cons.IH] frame_trans [OF frame_deadLetter Cons.IH] by (simp add: split_def Let_def)
  qed simp
  have "consumer_frame e (Engine_reclaim ops e now fresh)"
    unfolding Engine_reclaim_def
    by (auto split: sum.split prod.split intro!: frame_chain) (metis loop snd_conv)
  moreover have "consumer_frame f (RefreshQueueDepths ops f)" for f :: "'a Engine"
    unfolding RefreshQueueDepths_def by (rule frame_fold) (auto split: sum.split intro!: frame_chain)
  ultimately show ?thesis unfolding maintenance_tick_def by (rule frame_trans)
qed

lemma frame_requests:
  "consumer_frame e (snd (Engine_ReplayDeadLetter ops e did now ent))"
  "consumer_frame e (snd (Engine_Pull ops e req now))"
  "consumer_frame e (snd (Engine_Ack ops e mid now))"
  "consumer_frame e (snd (Engine_Nack ops e mid reason requeue now oor draw fresh))"
proof -
  have h: "consumer_frame f (fold (\<lambda>m e. recordHistory ops e (ev m)) ms f)" for f :: "'a Engine" and ev and ms :: "Message list"
    by (rule frame_fold) (rule frame_helpers)
  show "consumer_frame e (snd (Engine_ReplayDeadLetter ops e did now ent))"
    unfolding Engine_ReplayDeadLetter_def Let_def by (auto split: sum.split prod.split option.split intro!: frame_chain)
  show "consumer_frame e (snd (Engine_Pull ops e req now))"
    unfolding Engine_Pull_def Let_def
    by (auto split: sum.split prod.split intro!: frame_chain frame_trans [OF frame_helpers(1) h])
  show "consumer_frame e (snd (Engine_Ack ops e mid now))"
    unfolding Engine_Ack_def by (auto split: sum.split prod.split option.split intro!: frame_chain)
  show "consumer_frame e (snd (Engine_Nack ops e mid reason requeue now oor draw fresh))"
    unfolding Engine_Nack_def Let_def
    by (auto split: sum.split prod.split option.split intro!: frame_chain frame_fail)
qed

lemma frame_topology:
  "consumer_frame e (snd (Engine_DeclareExchange ops e xspec now))"
  "consumer_frame e (snd (Engine_DeclareQueue ops e qspec now))"
  "consumer_frame e (snd (Engine_Bind ops e bspec now))" "consumer_frame e (snd (Engine_Unbind ops e bspec))"
  "consumer_frame e (snd (Engine_Restore ops e))" "consumer_frame e (snd (Engine_Purge ops e queue))"
  "consumer_frame e (snd (Engine_DeleteQueue ops e queue))" "consumer_frame e (snd (Engine_DiscardDeadLetter ops e did))"
  by (auto simp: Engine_DeclareExchange_def Engine_DeclareQueue_def Engine_Bind_def Engine_Unbind_def Engine_Restore_def
      Engine_Purge_def Engine_DeleteQueue_def Engine_DiscardDeadLetter_def Let_def
      split: prod.split sum.split option.split intro!: frame_chain frame_helpers)

section \<open>Operations on the consumers\<close>

lemma Stop_ok: "consumer_ok c \<Longrightarrow> consumer_ok (Consumer_Stop c)"
  by (simp add: consumer_ok_def Consumer_Stop_def Pool_Size_def Pool_Capacity_def)

lemma Stop_sel [simp]:
  "co_spec (Consumer_Stop c) = co_spec c" "co_stopped (Consumer_Stop c)"
  by (simp_all add: Consumer_Stop_def)

lemma Start_ok: "consumers_ok e \<Longrightarrow> consumers_ok (Engine_Start e)"
  by (simp add: consumers_ok_def Engine_Start_def)

lemma withDefaults_positive:
  "1 \<le> cs_Concurrency (ConsumerSpec_withDefaults s v)" "1 \<le> cs_Prefetch (ConsumerSpec_withDefaults s v)"
  "cs_Handler (ConsumerSpec_withDefaults s v) = cs_Handler s" "cs_Queue (ConsumerSpec_withDefaults s v) = cs_Queue s"
  by (auto simp: ConsumerSpec_withDefaults_def Let_def)

lemma Subscribe_ok:
  assumes ok: "consumers_ok e"
  shows "consumers_ok (snd (Engine_Subscribe e spec))"
proof (cases "\<exists>p. fst (Engine_Subscribe e spec) = Inr p")
  case False
  then show ?thesis
    using ok by (auto simp: Engine_Subscribe_def Let_def split: sum.splits if_splits)
next
  case True
  then obtain queue where q: "cs_Handler spec" "Registry_Queue (eg_registry e) (cs_Queue spec) = Inr queue" "eg_rootCtx e"
    by (auto simp: Engine_Subscribe_def Let_def split: sum.splits if_splits)
  define sp where "sp = ConsumerSpec_withDefaults spec (qs_VisibilityTimeout (q_Spec queue))"
  define c where "c = \<lparr>co_spec = sp, co_pool = (NewPool \<lparr>pc_Size = cs_Concurrency sp, pc_QueueSize = cs_Prefetch sp\<rparr>)
      \<lparr>po_started := True\<rparr>, co_cancelled = False, co_stopped = False\<rparr>"
  define f where "f = e\<lparr> eg_objects := eg_objects e @ [c],
      eg_consumers := mput (eg_consumers e) (cs_Name sp) (length (eg_objects e)) \<rparr>"
  have new: "mget (eg_consumers e) (cs_Name sp) = None" and s: "snd (Engine_Subscribe e spec) = queueSignal f (cs_Queue sp)"
    using True q by (auto simp: Engine_Subscribe_def Let_def sp_def c_def f_def split: if_splits)
  have c: "consumer_ok c"
    using q(1) withDefaults_positive [of spec "qs_VisibilityTimeout (q_Spec queue)", folded sp_def]
    by (simp add: consumer_ok_def c_def NewPool_def Pool_Size_def Pool_Capacity_def PoolConfig_withDefaults_def Let_def)
  have sig: "set (mkeys (eg_signals (queueSignal f (cs_Queue sp)))) = insert (cs_Queue sp) (set (mkeys (eg_signals e)))"
  proof -
    have none: "mget m k = None \<longleftrightarrow> k \<notin> set (mkeys m)" for m :: "(string, bool) gomap" and k
      by (simp add: mget_map_of map_of_eq_None_iff)
    show ?thesis
      by (cases "cs_Queue sp \<in> set (mkeys (eg_signals e))")
        (simp_all add: queueSignal_def f_def none mput_keys insert_absorb del: set_map)
  qed
  have other: "eg_consumers (queueSignal f x) = eg_consumers f" "eg_objects (queueSignal f x) = eg_objects f"
    "eg_rootCtx (queueSignal f x) = eg_rootCtx f" for x by (simp_all add: queueSignal_def)
  have obj: "(eg_objects e @ [c]) ! p = eg_objects e ! p" if "p < length (eg_objects e)" for p using that by (simp add: nth_append)
  note D = consumers_okD [OF ok]
  show ?thesis
    unfolding consumers_ok_def s sig other
  proof (intro conjI allI impI ballI)
    show "mwf (eg_consumers f)" using D(1) by (simp add: f_def mwf_mput)
    show "consumer_ok x" if "x \<in> set (eg_objects f)" for x
      using that c D(2) by (auto simp: f_def in_set_conv_nth)
    show "eg_rootCtx f" using q(3) by (simp add: f_def)
  next
    fix n p assume np: "mget (eg_consumers f) n = Some p"
    show "p < length (eg_objects f)" using np D(3) by (fastforce simp: f_def mget_mput split: if_splits)
    show "Consumer_Name (eg_objects f ! p) = n" "\<not> co_stopped (eg_objects f ! p)"
      "Consumer_Queue (eg_objects f ! p) \<in> insert (cs_Queue sp) (set (mkeys (eg_signals e)))"
      using np D(3,4) [of n p] obj by (auto simp: f_def mget_mput c_def Consumer_Name_def Consumer_Queue_def split: if_splits)
  next
    fix p assume "p < length (eg_objects f)"
    then show "co_stopped (eg_objects f ! p) \<or> (\<exists>n. mget (eg_consumers f) n = Some p)"
      using D(5) [of p] new by (cases "p < length (eg_objects e)") (auto simp: f_def mget_mput obj less_Suc_eq, metis option.distinct(1))
  qed
qed

lemma Unsubscribe_ok:
  assumes ok: "consumers_ok e"
  shows "consumers_ok (snd (Engine_Unsubscribe e name))"
proof (cases "mget (eg_consumers e) name")
  case None
  then show ?thesis using ok by (simp add: Engine_Unsubscribe_def)
next
  case (Some p)
  note D = consumers_okD [OF ok]
  have inj: "n = name" if "mget (eg_consumers e) n = Some p" for n
    using D(4) [OF that] D(4) [OF Some] by simp
  define e' where "e' = snd (Engine_Unsubscribe e name)"
  have sel: "eg_consumers e' = mdel (eg_consumers e) name" "eg_rootCtx e' = eg_rootCtx e" "eg_signals e' = eg_signals e"
    "eg_objects e' = (eg_objects e)[p := Consumer_Stop (eg_objects e ! p)]"
    unfolding e'_def using Some by (simp_all add: Engine_Unsubscribe_def set_object_def object_def Let_def)
  let ?objs = "(eg_objects e)[p := Consumer_Stop (eg_objects e ! p)]"
  have obj: "?objs ! k = (if k = p then Consumer_Stop (eg_objects e ! p) else eg_objects e ! k)"
    if "k < length (eg_objects e)" for k using that by auto
  show ?thesis
    unfolding consumers_ok_def e'_def [symmetric] sel length_list_update
  proof (intro conjI allI impI ballI)
    show "mwf (mdel (eg_consumers e) name)" using D(1) by (rule mwf_mdel)
    show "consumer_ok x" if "x \<in> set ?objs" for x
      using that D(2) Stop_ok by (auto simp: in_set_conv_nth obj)
    show "eg_rootCtx e" using D(6) Some by (cases "eg_consumers e") auto
  next
    fix n k assume nk: "mget (mdel (eg_consumers e) name) n = Some k"
    then have n: "mget (eg_consumers e) n = Some k" "n \<noteq> name" by (auto simp: mget_mdel split: if_splits)
    then have "k \<noteq> p" using inj by auto
    show "k < length (eg_objects e)" using D(3) [OF n(1)] .
    then show "Consumer_Name (?objs ! k) = n" "\<not> co_stopped (?objs ! k)"
      "Consumer_Queue (?objs ! k) \<in> set (mkeys (eg_signals e))"
      using D(4) [OF n(1)] \<open>k \<noteq> p\<close> by (simp_all del: set_map)
  next
    fix k assume k: "k < length (eg_objects e)"
    show "co_stopped (?objs ! k) \<or> (\<exists>n. mget (mdel (eg_consumers e) name) n = Some k)"
    proof (cases "k = p")
      case True
      then show ?thesis using k by simp
    next
      case False
      then show ?thesis using D(5) [OF k] Some k by (auto simp: mget_mdel) (metis option.inject)
    qed
  qed
qed

lemma Shutdown_ok:
  assumes ok: "consumers_ok e"
  shows "consumers_ok (snd (Engine_Shutdown e timeout))"
proof -
  note D = consumers_okD [OF ok]
  let ?stop = "\<lambda>ps. fold (\<lambda>p objs. objs[p := Consumer_Stop (objs ! p)]) ps (eg_objects e)"
  have inv: "length (?stop ps) = length (eg_objects e) \<and> (\<forall>p<length (eg_objects e). consumer_ok (?stop ps ! p) \<and>
      (p \<in> set ps \<or> co_stopped (eg_objects e ! p) \<longrightarrow> co_stopped (?stop ps ! p)))" for ps
  proof (induction ps rule: rev_induct)
    case (snoc x ps)
    have upd: "objs[x := Consumer_Stop (objs ! x)] ! p = (if x = p then Consumer_Stop (objs ! p) else objs ! p)"
      if "p < length objs" for p objs using that by auto
    show ?case using snoc by (simp add: upd Stop_ok)
  qed (simp add: D(2))
  have "p \<in> set (mvals (eg_consumers e)) \<or> co_stopped (eg_objects e ! p)" if "p < length (eg_objects e)" for p
    using D(5) [OF that] by (metis mget_map_of map_of_SomeD image_eqI set_map snd_conv)
  then show ?thesis
    using inv [of "mvals (eg_consumers e)"]
    by (auto simp: consumers_ok_def Engine_Shutdown_def Let_def in_set_conv_nth)
qed

lemma consumers_ok_step: "engine_step ops k e e' \<Longrightarrow> consumers_ok e \<Longrightarrow> consumers_ok e'"
  by (cases rule: engine_step.cases)
    (auto intro: consumer_frame_ok [OF frame_publish] consumer_frame_ok [OF frame_requests(1)] consumer_frame_ok [OF frame_dispatch]
      consumer_frame_ok [OF frame_process] consumer_frame_ok [OF frame_worker] consumer_frame_ok [OF frame_requests(2)]
      consumer_frame_ok [OF frame_requests(3)] consumer_frame_ok [OF frame_requests(4)] consumer_frame_ok [OF frame_reclaim]
      consumer_frame_ok [OF frame_topology(1)] consumer_frame_ok [OF frame_topology(2)] consumer_frame_ok [OF frame_topology(3)]
      consumer_frame_ok [OF frame_topology(4)] consumer_frame_ok [OF frame_topology(5)] consumer_frame_ok [OF frame_topology(6)]
      consumer_frame_ok [OF frame_topology(7)] consumer_frame_ok [OF frame_topology(8)]
      Start_ok Shutdown_ok Subscribe_ok Unsubscribe_ok)

lemma consumers_ok_New: "Engine_New opts = Inr e \<Longrightarrow> consumers_ok e"
  by (auto simp: Engine_New_def consumers_ok_def Let_def split: option.splits)

end
