(* ===== verification/Topology.thy ===== *)
theory Topology
  imports Broker
begin

text \<open>
  The properties of the topology of \<open>Broker\<close>: routing is exactly the set of matching bindings,
  declarations are idempotent, binding and unbinding are inverse, a deleted queue leaves nothing
  behind, and a registry rebuilt from its own listings routes as before.
\<close>

section \<open>Examples\<close>

definition ex_registry :: Registry where
  "ex_registry =
    (let r = NewRegistry;
         r = snd (Registry_DeclareExchange r
               \<lparr>xs_Name = ''orders'', xs_Kind = ExchangeTopic, xs_Durable = True\<rparr> 1);
         r = snd (Registry_DeclareQueue r
               \<lparr>qs_Name = ''billing'', qs_Durable = True, qs_MaxAttempts = 0,
                qs_VisibilityTimeout = 0, qs_Schema = ''''\<rparr> 2);
         r = snd (Registry_DeclareQueue r
               \<lparr>qs_Name = ''audit'', qs_Durable = False, qs_MaxAttempts = 2,
                qs_VisibilityTimeout = second, qs_Schema = ''order''\<rparr> 3);
         r = snd (Registry_Bind r
               \<lparr>bs_Exchange = ''orders'', bs_Queue = ''billing'', bs_RoutingKey = ''order.created''\<rparr> 4)
     in snd (Registry_Bind r
               \<lparr>bs_Exchange = ''orders'', bs_Queue = ''audit'', bs_RoutingKey = ''order.#''\<rparr> 5))"

abbreviation (input) topology :: "Registry \<Rightarrow> bool" where
  "topology \<equiv> reach (\<lambda>r. r = NewRegistry) registry_step"

lemma topology_intros:
  "topology NewRegistry"
  "topology r \<Longrightarrow> topology (snd (Registry_DeclareExchange r spec now))"
  "topology r \<Longrightarrow> topology (snd (Registry_DeclareQueue r qspec now))"
  "topology r \<Longrightarrow> topology (snd (Registry_Bind r bspec now))"
  by (auto intro: reach_init reach_step registry_step.intros)

lemma ex_registry_reach: "topology ex_registry"
  unfolding ex_registry_def Let_def by (intro topology_intros)

lemma ex_registry_ok: "registry_ok ex_registry"
  by (rule reg.reach_inv [OF ex_registry_reach])

section \<open>Properties\<close>



text \<open>C14: (routing) A publication to a declared exchange reaches the queues of exactly those
  bindings of the exchange whose pattern matches the routing key and whose queue exists; each
  queue is returned once, in name order, as the registry holds it. The answer is
  \<open>ErrUnroutable\<close> exactly when there is no such queue, and \<open>ErrExchangeNotFound\<close> exactly when
  the exchange is not declared. Dangling bindings, which a restored registry may have, are
  skipped.\<close>

theorem Registry_Route_correct:
  assumes "registry_named r"
  shows "(\<forall>qs. Registry_Route r x rk = Inr qs \<longrightarrow>
        map (\<lambda>q. qs_Name (q_Spec q)) qs = sorted_list_of_set (targets r x rk) \<and>
        (\<forall>q\<in>set qs. Registry_Queue r (qs_Name (q_Spec q)) = Inr q) \<and> targets r x rk \<noteq> {}) \<and>
    (Registry_Route r x rk = Inl ErrUnroutable \<longleftrightarrow>
        (\<exists>e. Registry_Exchange r x = Inr e) \<and> targets r x rk = {}) \<and>
    (Registry_Route r x rk = Inl ErrExchangeNotFound \<longleftrightarrow>
        Registry_Exchange r x = Inl ErrExchangeNotFound) \<and>
    (\<forall>err. Registry_Route r x rk = Inl err \<longrightarrow> err \<in> {ErrUnroutable, ErrExchangeNotFound})"
proof (cases "Registry_Exchange r x")
  case (Inl err)
  then have "err = ErrExchangeNotFound"
    by (auto simp: Registry_Exchange_def rt_exchange_def split: option.splits)
  with Inl show ?thesis
    by (simp add: Registry_Route_def Registry_Exchange_def)
next
  case (Inr e)
  show ?thesis
  proof (cases "targets r x rk = {}")
    case True
    then show ?thesis by (simp add: Route_exchange [OF assms Inr] Inr)
  next
    case False
    then obtain qs where qs: "Registry_Route r x rk = Inr qs"
      using Route_exchange [OF assms Inr, of rk] by simp
    show ?thesis using Route_names [OF assms qs] False Inr by (simp add: qs)
  qed
qed

theorem Registry_Route_correct_witness:
  "registry_named ex_registry \<and>
   (\<exists>qs. Registry_Route ex_registry ''orders'' ''order.created'' = Inr qs \<and>
      map (\<lambda>q. qs_Name (q_Spec q)) qs = [''audit'', ''billing''] \<and>
      sorted_list_of_set (targets ex_registry ''orders'' ''order.created'') =
        [''audit'', ''billing''])"
proof -
  have n: "registry_named ex_registry"
    by (rule registry_ok_named [OF ex_registry_ok])
  have "map_sum_ok (map (\<lambda>q. qs_Name (q_Spec q)))
      (Registry_Route ex_registry ''orders'' ''order.created'') = Inr [''audit'', ''billing'']"
    by code_simp
  with n Registry_Route_correct [OF n, of "''orders''" "''order.created''"] show ?thesis
    by (cases "Registry_Route ex_registry ''orders'' ''order.created''") auto
qed


lemma Bind_Inr_cases:
  assumes "Registry_Bind r spec now = (Inr b, r')"
  obtains (found) e where "r' = r" "mget (rt_exchanges (rg_routing r)) (bs_Exchange spec) = Some e"
      "BindingSpec_Validate spec (xs_Kind (ex_Spec e)) = None" "queueExistsLocked r (bs_Queue spec)"
      "find (\<lambda>b. BindingSpec_key (b_Spec b) = BindingSpec_key spec)
         (rt_group (rg_routing r) (bs_Exchange spec)) = Some b"
  | (added) e where "r' = binding_added r b" "b_Spec b = spec"
      "mget (rt_exchanges (rg_routing r)) (bs_Exchange spec) = Some e"
      "BindingSpec_Validate spec (xs_Kind (ex_Spec e)) = None" "queueExistsLocked r (bs_Queue spec)"
      "find (\<lambda>b. BindingSpec_key (b_Spec b) = BindingSpec_key spec)
         (rt_group (rg_routing r) (bs_Exchange spec)) = None"
  using assms
  by (auto simp: Registry_Bind_def rt_bind_def rt_exchange_def Let_def binding_added_def
      queueExistsLocked_def split: option.splits if_splits)

lemma group_named:
  "registry_ok r \<Longrightarrow> b \<in> set (rt_group (rg_routing r) x) \<Longrightarrow>
    named_spec (b_Spec b) \<and> bs_Exchange (b_Spec b) = x"
  using registry_okD(6) [of r x] by (auto simp: group_ok_def dest: BindingSpec_Validate_named)

text \<open>After \<open>Bind\<close> the binding is the one entry with its specification.\<close>

lemma Bind_bound:
  assumes "registry_ok r" and "Registry_Bind r spec now = (Inr b, r')"
  shows "b_Spec b = spec" and "named_spec spec"
    and "\<And>x. filter (\<lambda>b'. b_Spec b' \<noteq> spec) (rt_group (rg_routing r') x) =
           filter (\<lambda>b'. b_Spec b' \<noteq> spec) (rt_group (rg_routing r) x)"
    and "find (\<lambda>b. BindingSpec_key (b_Spec b) = BindingSpec_key spec)
         (rt_group (rg_routing r') (bs_Exchange spec)) = Some b"
    and "Registry_Bind r' spec now' = (Inr b, r')"
proof -
  show n: "named_spec spec"
    using assms(2) by (cases rule: Bind_Inr_cases) (auto dest: BindingSpec_Validate_named)
  show b: "b_Spec b = spec"
    using assms(2)
  proof (cases rule: Bind_Inr_cases)
    case (found e)
    then have "b \<in> set (rt_group (rg_routing r) (bs_Exchange spec))"
      "BindingSpec_key (b_Spec b) = BindingSpec_key spec"
      by (auto simp: find_Some_iff)
    with group_named [OF assms(1)] n show ?thesis by (auto simp: BindingSpec_key_inject)
  qed
  show "filter (\<lambda>b'. b_Spec b' \<noteq> spec) (rt_group (rg_routing r') x) =
      filter (\<lambda>b'. b_Spec b' \<noteq> spec) (rt_group (rg_routing r) x)" for x
    using assms(2) by (cases rule: Bind_Inr_cases) (auto simp: rt_group_binding_added b)
  show f: "find (\<lambda>b. BindingSpec_key (b_Spec b) = BindingSpec_key spec)
      (rt_group (rg_routing r') (bs_Exchange spec)) = Some b"
    using assms(2)
    by (cases rule: Bind_Inr_cases) (simp_all add: rt_group_binding_added b find_append)
  show "Registry_Bind r' spec now' = (Inr b, r')"
    using assms(2)
  proof (cases rule: Bind_Inr_cases)
    case (added e)
    with f show ?thesis
      by (simp add: Registry_Bind_def rt_bind_def rt_exchange_def binding_added_def
          queueExistsLocked_def)
  qed (use f in \<open>simp add: Registry_Bind_def rt_bind_def rt_exchange_def queueExistsLocked_def\<close>)
qed

lemma Unbind_bound:
  assumes "registry_ok r" and "named_spec spec"
  shows "fst (Registry_Unbind r spec) = None \<longleftrightarrow>
      (\<exists>b\<in>set (rt_group (rg_routing r) (bs_Exchange spec)). b_Spec b = spec)"
    and "rt_group (rg_routing (snd (Registry_Unbind r spec))) x =
      filter (\<lambda>b. b_Spec b \<noteq> spec) (rt_group (rg_routing r) x)"
proof -
  let ?g = "rt_group (rg_routing r) (bs_Exchange spec)"
  have key: "BindingSpec_key (b_Spec b) = BindingSpec_key spec \<longleftrightarrow> b_Spec b = spec"
    if "b \<in> set (rt_group (rg_routing r) x)" for b x
    using group_named [OF assms(1) that] assms(2) by (auto simp: BindingSpec_key_inject)
  have other: "filter (\<lambda>b. b_Spec b \<noteq> spec) (rt_group (rg_routing r) y) = rt_group (rg_routing r) y"
    if "y \<noteq> bs_Exchange spec" for y
    using group_named [OF assms(1), of _ y] that by (intro filter_True) auto
  have flt: "filter (\<lambda>b. BindingSpec_key (b_Spec b) \<noteq> BindingSpec_key spec) ?g =
      filter (\<lambda>b. b_Spec b \<noteq> spec) ?g"
    using key by (auto intro: filter_cong)
  have "distinct (map (\<lambda>b. BindingSpec_key (b_Spec b)) ?g)"
    using registry_okD(6) [OF assms(1)] by (simp add: group_ok_def)
  then have rem: "remove_binding (BindingSpec_key spec) ?g = Some bs \<Longrightarrow>
      bs = filter (\<lambda>b. b_Spec b \<noteq> spec) ?g" for bs
    using remove_binding_Some [of "BindingSpec_key spec" ?g bs] flt by simp
  show "fst (Registry_Unbind r spec) = None \<longleftrightarrow> (\<exists>b\<in>set ?g. b_Spec b = spec)"
    using key remove_binding_None [of "BindingSpec_key spec" ?g]
    by (auto simp: Registry_Unbind_def rt_unbind_def split: option.splits)
  show "rt_group (rg_routing (snd (Registry_Unbind r spec))) x =
      filter (\<lambda>b. b_Spec b \<noteq> spec) (rt_group (rg_routing r) x)"
  proof (cases "remove_binding (BindingSpec_key spec) ?g")
    case None
    then have "filter (\<lambda>b. b_Spec b \<noteq> spec) ?g = ?g"
      using key by (auto simp: remove_binding_None intro!: filter_True)
    with None other [of x] show ?thesis
      by (cases "x = bs_Exchange spec") (simp_all add: Registry_Unbind_def rt_unbind_def)
  next
    case (Some bs)
    with rem [OF Some] other [of x] show ?thesis
      by (simp add: Registry_Unbind_def rt_unbind_def rt_group_def mget_or_def)
  qed
qed

text \<open>(bind and unbind) A successful \<open>Bind\<close> lists the binding under its exchange, and binding
  the same specification again returns the same binding and changes nothing. \<open>Unbind\<close> then
  succeeds, removes that binding from its exchange and no other from any exchange, and a second
  \<open>Unbind\<close> answers \<open>ErrBindingNotFound\<close> and changes nothing.\<close>

lemma Bind_Unbind_roundtrip:
  assumes "registry_ok r" and "Registry_Bind r spec now = (Inr b, r')"
    and "Registry_Unbind r' spec = (err, r'')"
  shows "b_Spec b = spec \<and> b \<in> set (Registry_Bindings r' (bs_Exchange spec)) \<and>
    Registry_Bind r' spec now' = (Inr b, r') \<and> err = None \<and>
    (\<forall>x. Registry_Bindings r'' x = filter (\<lambda>b. b_Spec b \<noteq> spec) (Registry_Bindings r x)) \<and>
    fst (Registry_Unbind r'' spec) = Some ErrBindingNotFound \<and> snd (Registry_Unbind r'' spec) = r''"
proof -
  note bnd = Bind_bound [OF assms(1,2)]
  have ok: "registry_ok r'" "registry_ok r''"
    using Bind_ok [OF assms(1), of spec now] Unbind_ok [of r' spec] assms(2,3) by auto
  have b: "b \<in> set (rt_group (rg_routing r') (bs_Exchange spec))"
    using bnd(4) by (auto simp: find_Some_iff)
  note ub = Unbind_bound [OF ok(1) bnd(2), unfolded assms(3) fst_conv snd_conv]
  have e: "err = None" using ub(1) b bnd(1) by blast
  have g: "rt_group (rg_routing r'') x = filter (\<lambda>b. b_Spec b \<noteq> spec) (rt_group (rg_routing r) x)" for x
    using ub(2) [of x] bnd(3) [of x] by simp
  have "BindingSpec_key (b_Spec c) \<noteq> BindingSpec_key spec"
    if "c \<in> set (rt_group (rg_routing r'') (bs_Exchange spec))" for c
    using that group_named [OF ok(2) that] bnd(2) by (simp add: g BindingSpec_key_inject)
  then have "remove_binding (BindingSpec_key spec) (rt_group (rg_routing r'') (bs_Exchange spec)) = None"
    by (simp only: remove_binding_None) blast
  then show ?thesis
    using b bnd(1,5) e g
    by (simp add: Registry_Unbind_def rt_unbind_def Registry_Bindings_def rt_bindingsFor_def)
qed

text \<open>(queue declaration) A successful \<open>DeclareQueue\<close> makes the queue visible with the
  defaults filled in and leaves every other queue as it was; declaring it again is a no-op that
  returns the same queue, and declaring the same name with a different valid specification is
  refused with \<open>ErrQueueExists\<close> and changes nothing.\<close>

lemma DeclareQueue_idempotent:
  assumes "Registry_DeclareQueue r spec now = (Inr q, r')"
  shows "q_Spec q = QueueSpec_withDefaults spec \<and>
    (\<forall>n. Registry_Queue r' n = (if n = qs_Name spec then Inr q else Registry_Queue r n)) \<and>
    Registry_DeclareQueue r' spec now' = (Inr q, r') \<and>
    (\<forall>spec'. qs_Name spec' = qs_Name spec \<and>
        QueueSpec_withDefaults spec' \<noteq> QueueSpec_withDefaults spec \<and>
        QueueSpec_Validate (QueueSpec_withDefaults spec') = None \<longrightarrow>
      Registry_DeclareQueue r' spec' now' = (Inl ErrQueueExists, r'))"
proof -
  have name [simp]: "qs_Name (QueueSpec_withDefaults s) = qs_Name s" for s
    by (simp add: QueueSpec_withDefaults_def Let_def)
  have v: "QueueSpec_Validate (QueueSpec_withDefaults spec) = None"
    and q: "q_Spec q = QueueSpec_withDefaults spec" and r: "mget (rg_queues r') (qs_Name spec) = Some q"
    using assms by (auto simp: Registry_DeclareQueue_def Let_def split: option.splits if_splits)
  have "Registry_Queue r' n = (if n = qs_Name spec then Inr q else Registry_Queue r n)" for n
    using assms
    by (auto simp: Registry_DeclareQueue_def Registry_Queue_def Let_def
        split: option.splits if_splits)
  with v q r show ?thesis
    by (auto simp: Registry_DeclareQueue_def Let_def)
qed

text \<open>(queue deletion) \<open>DeleteQueue\<close> succeeds exactly when the queue is declared and no binding
  of any exchange names it; then the queue is gone and every other queue, every exchange and
  every binding is unchanged. Otherwise the answer is \<open>ErrQueueNotFound\<close> or \<open>ErrQueueInUse\<close> and
  nothing changes.\<close>

lemma DeleteQueue_guard:
  assumes "registry_ok r" and "Registry_DeleteQueue r n = (err, r')"
  shows "(err = None \<longleftrightarrow> queueExistsLocked r n \<and>
        (\<forall>x. \<forall>b\<in>set (Registry_Bindings r x). bs_Queue (b_Spec b) \<noteq> n)) \<and>
    (err = None \<longrightarrow> rg_routing r' = rg_routing r \<and>
       (\<forall>m. Registry_Queue r' m = (if m = n then Inl ErrQueueNotFound else Registry_Queue r m))) \<and>
    (err \<noteq> None \<longrightarrow> r' = r \<and>
       err = Some (if queueExistsLocked r n then ErrQueueInUse else ErrQueueNotFound))"
proof -
  have "rt_queueReferences (rg_routing r) n > 0 \<longleftrightarrow>
      (\<exists>x. \<exists>b\<in>set (Registry_Bindings r x). bs_Queue (b_Spec b) = n)"
  proof
    assume "rt_queueReferences (rg_routing r) n > 0"
    then obtain b bs where b: "b \<in> set bs" "bs \<in> set (mvals (rt_bindings (rg_routing r)))"
        "bs_Queue (b_Spec b) = n"
      by (auto simp: queueReferences_count filter_empty_conv)
    then obtain x where "mget (rt_bindings (rg_routing r)) x = Some bs"
      using mwf_mvals_iff [OF registry_okD(2) [OF assms(1)]] by blast
    then have "Registry_Bindings r x = bs"
      by (simp add: Registry_Bindings_def rt_bindingsFor_def rt_group_def mget_or_def)
    with b show "\<exists>x. \<exists>b\<in>set (Registry_Bindings r x). bs_Queue (b_Spec b) = n" by blast
  next
    assume "\<exists>x. \<exists>b\<in>set (Registry_Bindings r x). bs_Queue (b_Spec b) = n"
    then obtain x b where b: "b \<in> set (rt_group (rg_routing r) x)" "bs_Queue (b_Spec b) = n"
      by (auto simp: Registry_Bindings_def rt_bindingsFor_def)
    then show "rt_queueReferences (rg_routing r) n > 0"
      using no_references [OF _ b(1)] neq0_conv by blast
  qed
  then have refs: "(\<forall>x. \<forall>b\<in>set (Registry_Bindings r x). bs_Queue (b_Spec b) \<noteq> n) \<longleftrightarrow>
      rt_queueReferences (rg_routing r) n = 0"
    unfolding neq0_conv [symmetric] by blast
  have split: "(err, r') = (if \<not> queueExistsLocked r n then (Some ErrQueueNotFound, r)
      else if rt_queueReferences (rg_routing r) n > 0 then (Some ErrQueueInUse, r)
      else (None, r\<lparr>rg_queues := mdel (rg_queues r) n\<rparr>))"
    unfolding assms(2) [symmetric] by (simp add: Registry_DeleteQueue_def queueExistsLocked_def)
  show ?thesis
  proof (cases "err = None")
    case True
    with split show ?thesis unfolding refs by (auto simp: Registry_Queue_def split: if_splits)
  next
    case False
    with split show ?thesis unfolding refs by (auto split: if_splits)
  qed
qed

section \<open>Restoring a registry\<close>

lemma rt_group_fold:
  "mget_or [] (fold (\<lambda>b m. mput m (f b) (mget_or [] m (f b) @ [b])) bs m) x =
    mget_or [] m x @ filter (\<lambda>b. f b = x) bs"
  by (induction bs arbitrary: m) (auto simp: mget_or_def)

lemma mget_fold_range:
  assumes "mwf m" and "\<And>k v. mget m k = Some v \<Longrightarrow> f v = k" and "set vs = set (mvals m)"
    and "distinct (map f vs)"
  shows "mget (fold (\<lambda>v m. mput m (f v) v) vs []) k = mget m k"
proof (cases "k \<in> set (map f vs)")
  case True
  then obtain v where v: "v \<in> set vs" "k = f v" by auto
  then have "\<exists>k'. mget m k' = Some v" using mwf_mvals_iff [OF assms(1)] assms(3) by blast
  then have "mget m k = Some v" using assms(2) v(2) by blast
  moreover have "mget (fold (\<lambda>v m. mput m (f v) v) vs []) (f v) = Some v"
    using gm.get_put_fold_same [OF assms(4) v(1), of "\<lambda>v. v"] by simp
  ultimately show ?thesis using v(2) by simp
next
  case False
  then have "mget m k = None"
    using assms(2,3) mget_mvals [of m k] by (cases "mget m k") force+
  with False gm.get_put_fold [of k f vs "\<lambda>v. v"] show ?thesis by simp
qed

lemma mget_fold_sorted:
  assumes "mwf m" and "\<And>k v. mget m k = Some v \<Longrightarrow> f v = (k :: 'k :: linorder)"
  shows "mget (fold (\<lambda>v m. mput m (f v) v) (sort_key f (mvals m)) []) k = mget m k"
proof (rule mget_fold_range [OF assms])
  have "mset (map f (sort_key f (mvals m))) = mset (map f (mvals m))"
    by (simp only: mset_map mset_sort)
  then show "distinct (map f (sort_key f (mvals m)))"
    using mvals_distinct [of m f, OF assms] mset_eq_imp_distinct_iff by blast
qed simp_all

lemma Restore_lookups:
  assumes "registry_ok r"
  defines "r' \<equiv> Registry_Restore NewRegistry (Registry_Exchanges r) (Registry_Queues r)
     (Registry_AllBindings r)"
  shows "mget (rt_exchanges (rg_routing r')) x = mget (rt_exchanges (rg_routing r)) x"
    and "mget (rg_queues r') n = mget (rg_queues r) n"
    and "set (rt_group (rg_routing r') x) = set (rt_group (rg_routing r) x)"
proof -
  note ok = registry_okD [OF assms(1)]
  show "mget (rt_exchanges (rg_routing r')) x = mget (rt_exchanges (rg_routing r)) x"
    using mget_fold_sorted [of "rt_exchanges (rg_routing r)" "\<lambda>e. xs_Name (ex_Spec e)" x, OF ok(1)]
      conjunct1 [OF ok(4)]
    by (simp add: r'_def Registry_Restore_def NewRegistry_def newRoutingTable_def Let_def
        Registry_Exchanges_def rt_allExchanges_def)
  show "mget (rg_queues r') n = mget (rg_queues r) n"
    using mget_fold_sorted [of "rg_queues r" "\<lambda>q. qs_Name (q_Spec q)" n, OF ok(3)]
      conjunct1 [OF ok(5)]
    by (simp add: r'_def Registry_Restore_def NewRegistry_def newRoutingTable_def Let_def
        Registry_Queues_def)
  have bs: "b \<in> set (concat (mvals (rt_bindings (rg_routing r)))) \<longleftrightarrow>
      b \<in> set (rt_group (rg_routing r) (bs_Exchange (b_Spec b)))" for b
  proof
    assume "b \<in> set (concat (mvals (rt_bindings (rg_routing r))))"
    then obtain bs where "b \<in> set bs" "bs \<in> set (mvals (rt_bindings (rg_routing r)))" by auto
    then obtain y where "mget (rt_bindings (rg_routing r)) y = Some bs"
      using mwf_mvals_iff [OF ok(2)] by blast
    with \<open>b \<in> set bs\<close> have y: "b \<in> set (rt_group (rg_routing r) y)"
      by (simp add: rt_group_def mget_or_def)
    with group_named [OF assms(1) y] show "b \<in> set (rt_group (rg_routing r) (bs_Exchange (b_Spec b)))"
      by simp
  qed (rule rt_group_concat)
  have "rt_group (rg_routing r') x =
      filter (\<lambda>b. bs_Exchange (b_Spec b) = x) (Registry_AllBindings r)"
    by (simp add: r'_def Registry_Restore_def NewRegistry_def newRoutingTable_def Let_def
        rt_group_def rt_group_fold)
  then have "b \<in> set (rt_group (rg_routing r') x) \<longleftrightarrow> b \<in> set (rt_group (rg_routing r) x)" for b
    using bs [of b] group_named [OF assms(1), of b x]
    by (cases "bs_Exchange (b_Spec b) = x")
      (auto simp: Registry_AllBindings_def rt_allBindings_def simp del: set_concat)
  then show "set (rt_group (rg_routing r') x) = set (rt_group (rg_routing r) x)" by blast
qed

lemma Route_cong:
  assumes "registry_named r" "registry_named r'"
    and "\<And>x. mget (rt_exchanges (rg_routing r')) x = mget (rt_exchanges (rg_routing r)) x"
    and "\<And>n. mget (rg_queues r') n = mget (rg_queues r) n"
    and "\<And>x. set (rt_group (rg_routing r') x) = set (rt_group (rg_routing r) x)"
  shows "Registry_Route r' x rk = Registry_Route r x rk"
proof (cases "mget (rt_exchanges (rg_routing r)) x")
  case None
  then show ?thesis by (simp add: Registry_Route_def rt_exchange_def assms(3))
next
  case (Some e)
  have e: "Registry_Exchange r x = Inr e" "Registry_Exchange r' x = Inr e"
    using Some by (simp_all add: Registry_Exchange_iff assms(3))
  have "targets r' x rk = targets r x rk"
    unfolding targets_def e Registry_Bindings_def rt_bindingsFor_def queueExistsLocked_def
      assms(4,5) ..
  moreover have "mget (rg_queues r') = mget (rg_queues r)" using assms(4) by blast
  ultimately show ?thesis
    by (simp add: Route_exchange [OF assms(1) e(1)] Route_exchange [OF assms(2) e(2)])
qed

text \<open>C33: (restore) Rebuilding an empty registry from the listings of another, as the engine does
  when it starts on a store that holds the whole topology, gives a registry that answers every
  exchange and queue lookup, every binding query and every routing request as the original.\<close>

theorem Restore_roundtrip:
  assumes "registry_ok r"
    and "r' = Registry_Restore NewRegistry (Registry_Exchanges r) (Registry_Queues r)
      (Registry_AllBindings r)"
  shows "Registry_Exchange r' x = Registry_Exchange r x \<and> Registry_Queue r' n = Registry_Queue r n \<and>
    set (Registry_Bindings r' x) = set (Registry_Bindings r x) \<and>
    Registry_Route r' x rk = Registry_Route r x rk"
proof -
  note look = Restore_lookups [OF assms(1), folded assms(2)]
  have "registry_named r" by (rule registry_ok_named [OF assms(1)])
  moreover from this have "registry_named r'" by (simp add: registry_named_def look)
  ultimately show ?thesis
    using Route_cong [of r r' x rk, OF _ _ look]
    by (simp add: look Registry_Exchange_def rt_exchange_def Registry_Queue_def
        Registry_Bindings_def rt_bindingsFor_def)
qed

theorem Restore_roundtrip_witness:
  "map_sum_ok (map (\<lambda>q. qs_Name (q_Spec q)))
     (Registry_Route (Registry_Restore NewRegistry (Registry_Exchanges ex_registry)
        (Registry_Queues ex_registry) (Registry_AllBindings ex_registry)) ''orders'' ''order.created'') =
   Inr [''audit'', ''billing'']"
proof -
  have "map_sum_ok (map (\<lambda>q. qs_Name (q_Spec q)))
      (Registry_Route ex_registry ''orders'' ''order.created'') = Inr [''audit'', ''billing'']"
    by code_simp
  with Restore_roundtrip [OF ex_registry_ok refl, of "''orders''" "''audit''" "''order.created''"]
  show ?thesis by simp
qed

text \<open>Among specifications that pass validation, the key that \<open>bind\<close>,
  \<open>unbind\<close> and the listings use identifies the specification: two of them have the same key only
  if exchange, queue and routing key are all equal, although the routing key may contain the
  separator byte.\<close>

lemma BindingSpec_key_injective:
  assumes "BindingSpec_Validate s kind = None" and "BindingSpec_Validate s' kind' = None"
  shows "BindingSpec_key s = BindingSpec_key s' \<longleftrightarrow> s = s'"
  using assms by (intro BindingSpec_key_inject BindingSpec_Validate_named)

end
