(* ===== verification/EngineProps.thy ===== *)
theory EngineProps
  imports MemoryContract EngineWf Topology
begin

text \<open>
  The properties of the engine over the in-memory store: no message is lost, no message is buried
  without a dead letter, publishing is all or nothing, failures are retried or buried as the policy
  says, expired leases are reclaimed, dead letters are replayed.
\<close>

section \<open>Reachable engines\<close>

definition engine_init :: "Store Engine \<Rightarrow> bool" where
  "engine_init e \<longleftrightarrow> (\<exists>opts. op_Store opts = Some memory_New \<and> Engine_New opts = Inr e)"

definition engine_ok :: "Store Engine \<Rightarrow> bool" where
  "engine_ok e \<longleftrightarrow> store_inv (eg_store e) \<and> covered (memory_view (eg_store e))"

lemma engine_ok_step: "engine_ok e \<Longrightarrow> engine_steps memory_store {Deliver, Remove} e e' \<Longrightarrow> engine_ok e'"
  using mem_store.steps_covered [of "{Deliver, Remove}" e e'] mem_store.steps_refine [of "{Deliver, Remove}" e e']
  by (auto simp: engine_ok_def)

lemma engine_ok_init: "engine_init e \<Longrightarrow> engine_ok e"
proof -
  assume "engine_init e"
  then obtain opts where "op_Store opts = Some memory_New" "Engine_New opts = Inr e"
    by (auto simp: engine_init_def)
  then have "eg_store e = memory_New" by (auto simp: Engine_New_def Let_def split: option.splits)
  then show ?thesis by (simp add: engine_ok_def store_inv_New covered_def) (simp add: memory_New_def)
qed

interpretation eng: invariant_system engine_init "engine_steps memory_store {Deliver, Remove}" engine_ok
  by unfold_locales (auto intro: engine_ok_init engine_ok_step)

interpretation wfs: invariant_system engine_init "engine_steps memory_store {Deliver, Remove, Discard}" consumers_ok
  by unfold_locales (auto simp: engine_init_def engine_steps_def intro: consumers_ok_New consumers_ok_step)

lemma Engine_Message_view:
  "Engine_Message memory_store e i =
    (case v_msgs (memory_view (eg_store e)) i of None \<Rightarrow> Inl ErrNotFound | Some m \<Rightarrow> Inr m)"
  by (simp add: Engine_Message_def memory_store_def memory_Message_def split: option.split)

lemma Engine_DeadLetter_view:
  "Engine_DeadLetter memory_store e i =
    (case v_dead (memory_view (eg_store e)) i of None \<Rightarrow> Inl ErrNotFound | Some d \<Rightarrow> Inr d)"
  by (simp add: Engine_DeadLetter_def memory_store_def memory_DeadLetter_def)

lemma Engine_Message_Inr: "Engine_Message memory_store e i = Inr m \<longleftrightarrow> v_msgs (memory_view (eg_store e)) i = Some m"
  by (auto simp: Engine_Message_view split: option.split)

lemma Engine_History_view: "Engine_History memory_store e i = Inr (v_events (memory_view (eg_store e)) i)"
  by (simp add: Engine_History_def memory_store_def memory_History_def)

section \<open>An example run\<close>

text \<open>A direct exchange with one queue that allows one attempt: publish, pull, reject.\<close>

definition ex_opts :: "Store Options" where
  "ex_opts = \<lparr> op_Store = Some memory_New,
     op_Retry = \<lparr> pl_MaxAttempts = 1, pl_InitialInterval = second, pl_MaxInterval = second,
       pl_Multiplier = Fin 2, pl_JitterFraction = Fin 0 \<rparr>,
     op_Schemas = Some (\<lambda>schema payload. if payload = ''{}'' then None else Some (ErrNew ''bad'')),
     op_ReclaimInterval = 0 \<rparr>"

definition ex_engine :: "Store Engine" where
  "ex_engine = \<lparr> eg_store = memory_New, eg_registry = NewRegistry, eg_policy = op_Retry ex_opts,
     eg_schemas = op_Schemas ex_opts, eg_metrics = [], eg_reclaimInterval = 5 * second, eg_consumers = [],
     eg_signals = [], eg_rootCtx = False, eg_objects = [] \<rparr>"

definition ex_bound :: "Store Engine" where
  "ex_bound =
    (let e = snd (Engine_DeclareExchange memory_store ex_engine
               \<lparr>xs_Name = ''orders'', xs_Kind = ExchangeDirect, xs_Durable = True\<rparr> 1);
         e = snd (Engine_DeclareQueue memory_store e
               \<lparr>qs_Name = ''billing'', qs_Durable = True, qs_MaxAttempts = 3, qs_VisibilityTimeout = second,
                qs_Schema = ''invoice''\<rparr> 2)
     in snd (Engine_Bind memory_store e \<lparr>bs_Exchange = ''orders'', bs_Queue = ''billing'', bs_RoutingKey = ''paid''\<rparr> 3))"

definition ex_pub :: "string \<Rightarrow> Publication" where
  "ex_pub payload = \<lparr> pub_Exchange = ''orders'', pub_RoutingKey = ''paid'', pub_Payload = payload,
     pub_Headers = [], pub_Schema = [] \<rparr>"

definition ex_entropy :: "nat \<Rightarrow> byte list" where
  "ex_entropy i = replicate 10 (word_of_nat i)"

definition ex_id :: string where "ex_id = newIDAt 1000000 (ex_entropy 0)"

definition ex_published :: "Store Engine" where
  "ex_published = snd (Engine_Publish memory_store ex_bound (ex_pub ''{}'') 1000000 ex_entropy ''d1'' 7)"

definition ex_pulled :: "Store Engine" where
  "ex_pulled = snd (Engine_Pull memory_store ex_published
     \<lparr>pq_Queue = ''billing'', pq_Consumer = ''worker'', pq_Limit = 1, pq_Lease = 0\<rparr> 2000000)"

definition ex_buried :: "Store Engine" where
  "ex_buried = snd (Engine_Nack memory_store ex_pulled ex_id ''broken'' False 3000000 (\<lambda>_. 0) (Fin 0) ''d1'')"

lemma ex_new: "Engine_New ex_opts = Inr ex_engine"
  by (simp add: Engine_New_def ex_opts_def ex_engine_def Policy_WithDefaults_def Policy_Validate_def f_le_def
      defaultReclaimInterval_def Let_def)

lemma ex_engine_init: "engine_init ex_engine"
  unfolding engine_init_def using ex_new by (intro exI [of _ ex_opts]) (simp add: ex_opts_def)

lemma ex_steps:
  "(engine_steps memory_store {Deliver})\<^sup>*\<^sup>* ex_engine ex_bound" "engine_steps memory_store {Deliver} ex_published ex_pulled"
  "engine_steps memory_store {Deliver} ex_pulled ex_buried"
proof -
  have one: "engine_step memory_store Deliver e e' \<Longrightarrow> engine_steps memory_store {Deliver} e e'" for e e' by (simp add: engine_steps_def)
  show "(engine_steps memory_store {Deliver})\<^sup>*\<^sup>* ex_engine ex_bound"
    unfolding ex_bound_def Let_def
    by (rule rtranclp.rtrancl_into_rtrancl [OF rtranclp.rtrancl_into_rtrancl
          [OF rtranclp.rtrancl_into_rtrancl [OF rtranclp.rtrancl_refl]]]; rule one; rule engine_step.intros)
  show "engine_steps memory_store {Deliver} ex_published ex_pulled" "engine_steps memory_store {Deliver} ex_pulled ex_buried"
    unfolding ex_pulled_def ex_buried_def by (rule one, rule engine_step.intros)+
qed

lemma ex_fresh: "fresh_ids ex_bound (ex_pub payload) now ex_entropy"
proof -
  have "map_sum_ok (map (\<lambda>q. qs_Name (q_Spec q))) (Registry_Route (eg_registry ex_bound) ''orders'' ''paid'') = Inr [''billing'']"
    by code_simp
  then show ?thesis
    by (cases "Registry_Route (eg_registry ex_bound) ''orders'' ''paid''") (auto simp: fresh_ids_def ex_pub_def)
qed

lemma ex_publish_step: "engine_steps memory_store {Deliver} ex_bound ex_published"
  unfolding engine_steps_def ex_published_def using by_Publish [OF ex_fresh] by blast

lemma ex_reach:
  "reach engine_init (engine_steps memory_store {Deliver, Remove}) ex_bound"
  "reach engine_init (engine_steps memory_store {Deliver, Remove}) ex_published"
  "reach engine_init (engine_steps memory_store {Deliver, Remove}) ex_pulled"
  "reach engine_init (engine_steps memory_store {Deliver, Remove}) ex_buried"
proof -
  have mono: "engine_steps memory_store {Deliver} e e' \<Longrightarrow> engine_steps memory_store {Deliver, Remove} e e'" for e e'
    by (rule engine_steps_mono) auto
  have step: "reach engine_init (engine_steps memory_store {Deliver, Remove}) e \<Longrightarrow> engine_steps memory_store {Deliver} e e' \<Longrightarrow>
      reach engine_init (engine_steps memory_store {Deliver, Remove}) e'" for e e'
    using reach_step [of engine_init "engine_steps memory_store {Deliver, Remove}"] mono by blast
  have "(engine_steps memory_store {Deliver})\<^sup>*\<^sup>* e e' \<Longrightarrow> reach engine_init (engine_steps memory_store {Deliver, Remove}) e \<Longrightarrow>
      reach engine_init (engine_steps memory_store {Deliver, Remove}) e'" for e e'
    by (induction rule: rtranclp_induct) (auto intro: step)
  then show 1: "reach engine_init (engine_steps memory_store {Deliver, Remove}) ex_bound"
    using ex_steps(1) reach_init [of engine_init, OF ex_engine_init] by blast
  show 2: "reach engine_init (engine_steps memory_store {Deliver, Remove}) ex_published" by (rule step [OF 1 ex_publish_step])
  show 3: "reach engine_init (engine_steps memory_store {Deliver, Remove}) ex_pulled" by (rule step [OF 2 ex_steps(2)])
  show "reach engine_init (engine_steps memory_store {Deliver, Remove}) ex_buried" by (rule step [OF 3 ex_steps(3)])
qed

lemma ex_inv: "store_inv (eg_store ex_bound)" "store_inv (eg_store ex_published)"
  "store_inv (eg_store ex_pulled)" "store_inv (eg_store ex_buried)"
  using ex_reach [THEN eng.reach_inv] by (simp_all add: engine_ok_def)

lemma ex_states:
  "map_sum_ok msg_State (Engine_Message memory_store ex_published ex_id) = Inr StateQueued"
  "map_sum_ok msg_State (Engine_Message memory_store ex_pulled ex_id) = Inr StateProcessing"
  "map_sum_ok msg_State (Engine_Message memory_store ex_buried ex_id) = Inr StateDeadLettered"
  by code_simp+

lemma ex_pulled_open: "\<not> ms_closed (eg_store ex_pulled)"
  by code_simp

lemma ex_no_letter: "Engine_DeadLetter memory_store ex_pulled ''d1'' = Inl ErrNotFound"
proof -
  have "map_sum_ok dl_ID (Engine_DeadLetter memory_store ex_pulled ''d1'') = Inl ErrNotFound" by code_simp
  then show ?thesis by (cases "Engine_DeadLetter memory_store ex_pulled ''d1''") auto
qed

lemma ex_policy: "eg_policy ex_pulled = op_Retry ex_opts"
  by code_simp

lemma ex_sound: "sound_policy (eg_policy ex_pulled)"
  by (simp add: ex_policy ex_opts_def sound_policy_def Policy_Validate_def)

definition ex_running :: "Store Engine" where
  "ex_running = snd (Engine_Subscribe (Engine_Start ex_published)
     \<lparr> cs_Name = ''w'', cs_Queue = ''billing'', cs_Concurrency = 2, cs_Prefetch = 1, cs_ProcessingTimeout = 0,
       cs_Handler = True \<rparr>)"

definition ex_handoffs :: "nat \<Rightarrow> handoff" where
  "ex_handoffs i = \<lparr>ho_at = 2000001, ho_choice = None, ho_release_at = 2000002, ho_done = False\<rparr>"

definition ex_acked :: "Store Engine" where
  "ex_acked = snd (Engine_Ack memory_store ex_pulled ex_id 2500000)"

lemma ex_running_reach: "reach engine_init (engine_steps memory_store {Deliver, Remove, Discard}) ex_running"
proof -
  have step: "reach engine_init (engine_steps memory_store {Deliver, Remove, Discard}) e \<Longrightarrow> engine_step memory_store Deliver e e' \<Longrightarrow>
      reach engine_init (engine_steps memory_store {Deliver, Remove, Discard}) e'" for e e'
    using reach_step [of engine_init "engine_steps memory_store {Deliver, Remove, Discard}" e e'] by (auto simp: engine_steps_def)
  have "reach engine_init (engine_steps memory_store {Deliver, Remove}) e \<Longrightarrow> reach engine_init (engine_steps memory_store {Deliver, Remove, Discard}) e" for e
    by (induction rule: reach.induct) (auto intro: reach_init reach_step engine_steps_mono)
  then have "reach engine_init (engine_steps memory_store {Deliver, Remove, Discard}) ex_published" using ex_reach(2) by blast
  then show ?thesis unfolding ex_running_def by (intro step [OF step [OF _ by_Start] by_Subscribe])
qed

lemma ex_running_inv: "store_inv (eg_store ex_running)"
proof -
  have "eg_store ex_running = eg_store ex_published"
    by (simp add: ex_running_def Engine_Subscribe_def Engine_Start_def queueSignal_def Let_def split: sum.split)
  then show ?thesis using ex_inv(2) by simp
qed

lemma ex_acked_inv: "store_inv (eg_store ex_acked)"
  using mem_store.steps_refine [of "{Deliver}" ex_pulled ex_acked] ex_inv(3) by_Ack [of memory_store ex_pulled ex_id 2500000]
  by (simp add: engine_steps_def ex_acked_def)

section \<open>Properties\<close>

text \<open>C2: no message is buried without a trace: in every engine over the in-memory store that is
  reachable by any sequence of operations (publishing, dispatching, handler results of any kind and
  in any order, stale deliveries included, pulling, acknowledging, reclaiming, replaying, topology
  changes, purges), short of discarding dead letters, each message in the dead-lettered state has a
  dead letter that names it.\<close>

theorem Dead_letter_recorded:
  assumes "reach engine_init (engine_steps memory_store {Deliver, Remove}) e"
    and "Engine_Message memory_store e i = Inr m" and "msg_State m = StateDeadLettered"
  shows "\<exists>did d. Engine_DeadLetter memory_store e did = Inr d \<and> dl_MessageID d = i"
proof -
  have "covered (memory_view (eg_store e))" using eng.reach_inv [OF assms(1)] by (simp add: engine_ok_def)
  then obtain did d where "v_dead (memory_view (eg_store e)) did = Some d" "dl_MessageID d = i"
    using assms(2,3) unfolding covered_def Engine_Message_Inr by blast
  then show ?thesis by (intro exI [of _ did] exI [of _ d]) (simp add: Engine_DeadLetter_view)
qed

theorem Dead_letter_recorded_witness:
  "\<exists>did d. Engine_DeadLetter memory_store ex_buried did = Inr d \<and> dl_MessageID d = ex_id"
proof -
  obtain m where "Engine_Message memory_store ex_buried ex_id = Inr m" "msg_State m = StateDeadLettered"
    using ex_states(3) by (cases "Engine_Message memory_store ex_buried ex_id") auto
  then show ?thesis by (rule Dead_letter_recorded [OF ex_reach(4)])
qed

text \<open>C1: no operation of the engine loses or alters a message: whatever operations follow, short of
  purging or deleting a queue, a stored message can still be read, its content is unchanged, its
  state moved along the transition table, its attempts did not decrease, and once settled it is
  frozen.\<close>

theorem Engine_keeps_messages:
  assumes "store_inv (eg_store e)" and "(engine_steps memory_store {Deliver, Discard})\<^sup>*\<^sup>* e e'"
    and "Engine_Message memory_store e i = Inr m"
  shows "\<exists>m'. Engine_Message memory_store e' i = Inr m' \<and> evolves m m'"
  using mem_store.steps_keep [OF assms(2,1), of i m] assms(3) by (auto simp: Engine_Message_Inr)

theorem Engine_keeps_messages_witness:
  "\<exists>m m'. Engine_Message memory_store ex_published ex_id = Inr m \<and>
    Engine_Message memory_store ex_buried ex_id = Inr m' \<and> evolves m m' \<and> msg_State m' = StateDeadLettered"
proof -
  have "(engine_steps memory_store {Deliver, Discard})\<^sup>*\<^sup>* ex_published ex_buried"
    using ex_steps(2,3) engine_steps_mono [of memory_store "{Deliver}" _ _ "{Deliver, Discard}"] by (meson converse_rtranclp_into_rtranclp r_into_rtranclp empty_subsetI insert_mono insert_subset subset_insertI)
  moreover obtain m where "Engine_Message memory_store ex_published ex_id = Inr m"
    using ex_states(1) by (cases "Engine_Message memory_store ex_published ex_id") auto
  ultimately show ?thesis
    using Engine_keeps_messages [OF ex_inv(2), of ex_buried ex_id m] ex_states(3) by fastforce
qed

text \<open>C3: publishing is all or nothing: when \<open>Publish\<close> returns an error, for whatever reason, every
  message of the store is as before; when it succeeds, the result lists the queues that the
  routing names, each of them has got one new message with the payload, in state \<open>QUEUED\<close>, under the
  identifier in the result, with one new entry in its history, and all other messages are as before.\<close>

theorem Publish_all_or_nothing:
  assumes "store_inv (eg_store e)" and "fresh_ids e pub now entropy"
    and "Engine_Publish memory_store e pub now entropy fresh latency = (res, e')"
  shows "case res of
      Inl err \<Rightarrow> \<forall>i. Engine_Message memory_store e' i = Engine_Message memory_store e i
    | Inr r \<Rightarrow> \<exists>qs. Registry_Route (eg_registry e) (pub_Exchange pub) (pub_RoutingKey pub) = Inr qs \<and>
        pr_Queues r = map (\<lambda>q. qs_Name (q_Spec q)) qs \<and>
        length (pr_MessageIDs r) = length qs \<and> distinct (pr_MessageIDs r) \<and>
        (\<forall>k<length qs.
          Engine_Message memory_store e (pr_MessageIDs r ! k) = Inl ErrNotFound \<and>
          Engine_Message memory_store e' (pr_MessageIDs r ! k) = Inr (published pub now (qs ! k) (entropy k)) \<and>
          (\<exists>old. Engine_History memory_store e (pr_MessageIDs r ! k) = Inr old \<and>
            Engine_History memory_store e' (pr_MessageIDs r ! k) =
              Inr (old @ [queued_event (published pub now (qs ! k) (entropy k)) now []]))) \<and>
        (\<forall>i. i \<notin> set (pr_MessageIDs r) \<longrightarrow>
          Engine_Message memory_store e' i = Engine_Message memory_store e i)"
proof (cases res)
  case (Inl err)
  then show ?thesis
    using mem_store.Publish_failed [OF assms(1,2)] assms(3) by (simp add: Engine_Message_view)
next
  case (Inr r)
  show ?thesis
    by (rule mem_store.Publish_succeeded [OF assms(1,2) assms(3) [unfolded Inr]])
      (simp add: Inr Engine_Message_view Engine_History_view del: memory_view_sel)
qed

theorem Publish_all_or_nothing_witness:
  "\<exists>r. fst (Engine_Publish memory_store ex_bound (ex_pub ''{}'') 1000000 ex_entropy ''d1'' 7) = Inr r \<and>
    length (pr_MessageIDs r) = 1 \<and>
    map_sum_ok msg_Payload (Engine_Message memory_store ex_published (pr_MessageIDs r ! 0)) = Inr ''{}''"
proof -
  have len: "map_sum_ok (\<lambda>r. length (pr_MessageIDs r))
      (fst (Engine_Publish memory_store ex_bound (ex_pub ''{}'') 1000000 ex_entropy ''d1'' 7)) = Inr 1"
    by code_simp
  then obtain r where r: "fst (Engine_Publish memory_store ex_bound (ex_pub ''{}'') 1000000 ex_entropy ''d1'' 7) = Inr r"
    "length (pr_MessageIDs r) = 1"
    by (cases "fst (Engine_Publish memory_store ex_bound (ex_pub ''{}'') 1000000 ex_entropy ''d1'' 7)") auto
  then have "Engine_Publish memory_store ex_bound (ex_pub ''{}'') 1000000 ex_entropy ''d1'' 7 = (Inr r, ex_published)"
    by (simp add: ex_published_def prod_eq_iff)
  from Publish_all_or_nothing [OF ex_inv(1) ex_fresh this] obtain qs where "length (pr_MessageIDs r) = length qs"
    "\<forall>k<length qs. Engine_Message memory_store ex_published (pr_MessageIDs r ! k) =
      Inr (published (ex_pub ''{}'') 1000000 (qs ! k) (ex_entropy k))" by (simp only: sum.case) blast
  then have "Engine_Message memory_store ex_published (pr_MessageIDs r ! 0) =
      Inr (published (ex_pub ''{}'') 1000000 (qs ! 0) (ex_entropy 0))" using r(2) by (metis less_numeral_extra(1))
  then show ?thesis using r by (simp add: ex_pub_def)
qed

text \<open>C23: a payload that fails its schema is parked, not enqueued: if the schema of some routed queue
  rejects the payload, \<open>Publish\<close> returns the error of the first such queue, no queue gets a message,
  not even those whose schema accepts it, and exactly one dead letter of kind \<open>validation\<close> with zero
  attempts is stored, which holds the payload, the queue and the text of the error.\<close>

theorem Publish_parks_invalid:
  assumes "store_inv (eg_store e)" and "\<not> ms_closed (eg_store e)"
    and "Registry_Route (eg_registry e) (pub_Exchange pub) (pub_RoutingKey pub) = Inr qs"
    and "find (\<lambda>q. schema_error e pub q \<noteq> None) qs = Some q"
    and "Engine_DeadLetter memory_store e fresh = Inl ErrNotFound"
    and "Engine_Publish memory_store e pub now entropy fresh latency = (res, e')"
  shows "\<exists>err d. schema_error e pub q = Some err \<and> res = Inl err \<and>
    (\<forall>i. Engine_Message memory_store e' i = Engine_Message memory_store e i) \<and>
    Engine_DeadLetter memory_store e' fresh = Inr d \<and> dl_Queue d = qs_Name (q_Spec q) \<and>
    dl_Payload d = pub_Payload pub \<and> dl_ErrorKind d = errorKindValidation \<and> dl_Attempts d = 0 \<and>
    dl_Reason d = error_text err \<and>
    (\<forall>did. did \<noteq> fresh \<longrightarrow> Engine_DeadLetter memory_store e' did = Engine_DeadLetter memory_store e did)"
proof -
  obtain err d where d: "schema_error e pub q = Some err" "res = Inl err" "dl_Queue d = qs_Name (q_Spec q)"
    "dl_Payload d = pub_Payload pub" "dl_ErrorKind d = errorKindValidation" "dl_Attempts d = 0"
    "dl_Reason d = error_text err" "dl_ID d = []"
    "memory_view (eg_store e') = snd (view_SaveDeadLetter (memory_view (eg_store e)) d fresh)"
    using mem_store.Publish_rejected [OF assms(1,3,4,6)] by blast
  have "v_dead (memory_view (eg_store e)) fresh = None"
    using assms(5) by (simp add: Engine_DeadLetter_view split: option.splits)
  then show ?thesis
    using d assms(2) by (intro exI [of _ err] exI [of _ "d\<lparr>dl_ID := fresh\<rparr>"])
      (simp add: Engine_Message_view Engine_DeadLetter_view view_SaveDeadLetter_def Let_def del: memory_view_sel(2-))
qed

theorem Publish_parks_invalid_witness:
  "\<exists>e' d. Engine_Publish memory_store ex_bound (ex_pub ''7'') 1000000 ex_entropy ''d1'' 7 = (Inl (ErrNew ''bad''), e') \<and>
    Engine_DeadLetter memory_store e' ''d1'' = Inr d \<and> dl_Payload d = ''7''"
proof -
  obtain e' res where p: "Engine_Publish memory_store ex_bound (ex_pub ''7'') 1000000 ex_entropy ''d1'' 7 = (res, e')"
    by fastforce
  have "map_sum_ok (map (\<lambda>q. (qs_Name (q_Spec q), qs_Schema (q_Spec q))))
      (Registry_Route (eg_registry ex_bound) ''orders'' ''paid'') = Inr [(''billing'', ''invoice'')]" by code_simp
  then obtain q where q: "Registry_Route (eg_registry ex_bound) ''orders'' ''paid'' = Inr [q]" "qs_Schema (q_Spec q) = ''invoice''"
    by (cases "Registry_Route (eg_registry ex_bound) ''orders'' ''paid''") auto
  have sch: "eg_schemas ex_bound = op_Schemas ex_opts"
    by (simp add: ex_bound_def Let_def ex_engine_def Engine_DeclareExchange_def Engine_DeclareQueue_def Engine_Bind_def
        split_def split: sum.split option.split)
  have err: "schema_error ex_bound (ex_pub ''7'') q = Some (ErrNew ''bad'')"
    using q(2) by (simp add: schema_error_def sch ex_opts_def ex_pub_def Let_def)
  have cl: "\<not> ms_closed (eg_store ex_bound)" by code_simp
  have dl: "map_sum_ok dl_ID (Engine_DeadLetter memory_store ex_bound ''d1'') = Inl ErrNotFound" by code_simp
  then have dl: "Engine_DeadLetter memory_store ex_bound ''d1'' = Inl ErrNotFound"
    by (cases "Engine_DeadLetter memory_store ex_bound ''d1''") auto
  have rt: "Registry_Route (eg_registry ex_bound) (pub_Exchange (ex_pub ''7'')) (pub_RoutingKey (ex_pub ''7'')) = Inr [q]"
    using q(1) by (simp add: ex_pub_def)
  have "find (\<lambda>q. schema_error ex_bound (ex_pub ''7'') q \<noteq> None) [q] = Some q" using err by simp
  from Publish_parks_invalid [OF ex_inv(1) cl rt this dl p] err p show ?thesis by (auto simp: ex_pub_def)
qed



text \<open>C6: the reclaim loop leaves no expired lease behind: when fewer than 256 leases have expired, after
  one pass every message whose lease had expired is back in its queue, available at once, if its
  attempts are below the maximum, and otherwise dead-lettered with a dead letter of kind
  \<open>lease_expired\<close> that holds its payload and attempts; no lease that had expired remains, and no other
  message changes. A message that kills its consumers is therefore buried after the maximal number
  of attempts.\<close>

theorem Reclaim_complete:
  assumes "store_inv (eg_store e)" and "\<not> ms_closed (eg_store e)"
    and "\<forall>k<256. Engine_DeadLetter memory_store e (fresh k) = Inl ErrNotFound" and "distinct (map fresh [0..<256])"
    and "memory_ExpiredLeases (eg_store e) now reclaimBatchSize = Inr ms" and "length ms < 256"
    and "e' = Engine_reclaim memory_store e now fresh"
  shows "(\<forall>i. \<not> lease_expired (memory_view (eg_store e')) now i) \<and>
    (\<forall>i m. lease_expired (memory_view (eg_store e)) now i \<and> Engine_Message memory_store e i = Inr m \<longrightarrow>
      reclaimed (eg_policy e) now m (memory_view (eg_store e'))) \<and>
    (\<forall>i. \<not> lease_expired (memory_view (eg_store e)) now i \<longrightarrow>
      Engine_Message memory_store e' i = Engine_Message memory_store e i)"
proof -
  have so: "so_ExpiredLeases memory_store = memory_ExpiredLeases" by (simp add: memory_store_def)
  have dl: "\<forall>k<256. v_dead (memory_view (eg_store e)) (fresh k) = None"
    using assms(3) by (auto simp: Engine_DeadLetter_view split: option.splits)
  have op: "\<not> v_closed (memory_view (eg_store e))" using assms(2) by simp
  obtain ms' where ms': "memory_ExpiredLeases (eg_store e) now reclaimBatchSize = Inr ms'" "store_inv (eg_store e')"
    "\<forall>m\<in>set ms'. lease_expired (memory_view (eg_store e)) now (msg_ID m) \<and>
      v_msgs (memory_view (eg_store e)) (msg_ID m) = Some m \<and> reclaimed (eg_policy e) now m (memory_view (eg_store e'))"
    "length ms' < 256 \<longrightarrow> (\<forall>i. lease_expired (memory_view (eg_store e)) now i \<longrightarrow> i \<in> msg_ID ` set ms')"
    "\<forall>i. i \<notin> msg_ID ` set ms' \<longrightarrow> v_msgs (memory_view (eg_store e')) i = v_msgs (memory_view (eg_store e)) i \<and>
      v_lease (memory_view (eg_store e')) i = v_lease (memory_view (eg_store e)) i"
    using mem_store.reclaim_complete [OF assms(1) op dl assms(4), of now, folded assms(7), unfolded so] by blast
  have ms: "ms' = ms" using ms'(1) assms(5) by simp
  have all: "lease_expired (memory_view (eg_store e)) now i \<longleftrightarrow> i \<in> msg_ID ` set ms" for i
    using ms'(3,4) assms(6) unfolding ms by blast
  have "\<not> lease_expired (memory_view (eg_store e')) now i" for i
  proof (cases "i \<in> msg_ID ` set ms")
    case True
    then have "v_lease (memory_view (eg_store e')) i = None" using ms'(3) unfolding ms by (auto simp: reclaimed_def)
    then show ?thesis by (simp add: lease_expired_def split: option.split del: memory_view_sel)
  next
    case False
    then have "v_msgs (memory_view (eg_store e')) i = v_msgs (memory_view (eg_store e)) i"
      "v_lease (memory_view (eg_store e')) i = v_lease (memory_view (eg_store e)) i" using ms'(5) unfolding ms by blast+
    then show ?thesis using all [of i] False unfolding lease_expired_def by metis
  qed
  moreover have "reclaimed (eg_policy e) now m (memory_view (eg_store e'))"
    if le: "lease_expired (memory_view (eg_store e)) now i" "Engine_Message memory_store e i = Inr m" for i m
  proof -
    obtain x where x: "x \<in> set ms" "i = msg_ID x" using le(1) unfolding all by blast
    then have "m = x" using ms'(3) le(2) unfolding ms Engine_Message_Inr by auto
    then show ?thesis using ms'(3) x unfolding ms by blast
  qed
  ultimately show ?thesis using ms'(5) all unfolding ms by (auto simp: Engine_Message_view simp del: memory_view_sel)
qed

theorem Reclaim_complete_witness:
  "\<exists>e' m did d. e' = Engine_reclaim memory_store ex_pulled 2000000000 (\<lambda>k. replicate k CHR ''x'') \<and>
    Engine_Message memory_store e' ex_id = Inr m \<and> msg_State m = StateDeadLettered \<and>
    Engine_DeadLetter memory_store e' did = Inr d \<and> dl_MessageID d = ex_id"
proof -
  have none: "ms_deadLetters (eg_store ex_pulled) = []" by code_simp
  then have dl: "\<forall>k<256. Engine_DeadLetter memory_store ex_pulled (replicate k CHR ''x'') = Inl ErrNotFound"
    by (simp add: Engine_DeadLetter_view)
  have "map_sum_ok length (memory_ExpiredLeases (eg_store ex_pulled) 2000000000 reclaimBatchSize) = Inr 1" by code_simp
  then obtain ms where ms: "memory_ExpiredLeases (eg_store ex_pulled) 2000000000 reclaimBatchSize = Inr ms" "length ms < 256"
    by (cases "memory_ExpiredLeases (eg_store ex_pulled) 2000000000 reclaimBatchSize") auto
  have dist: "distinct (map (\<lambda>k. replicate k CHR ''x'') [0..<256])" by (simp add: distinct_map inj_on_def)
  obtain m where m: "Engine_Message memory_store ex_pulled ex_id = Inr m" "msg_State m = StateProcessing"
    using ex_states(2) by (cases "Engine_Message memory_store ex_pulled ex_id") auto
  have id: "msg_ID m = ex_id" using m(1) mem_store.msgs_ID [OF ex_inv(3), of ex_id m] by (simp add: Engine_Message_Inr)
  have le: "map_option rec_lease (mget (ms_messages (eg_store ex_pulled)) ex_id) = Some 1002000000"
    "map_sum_ok msg_Attempts (Engine_Message memory_store ex_pulled ex_id) = Inr 1" by code_simp+
  then have "lease_expired (memory_view (eg_store ex_pulled)) 2000000000 ex_id" "msg_Attempts m = 1"
    using m by (auto simp: lease_expired_def memory_stamp_def zero_time_def Engine_Message_Inr)
  with Reclaim_complete [OF ex_inv(3) ex_pulled_open dl dist ms refl] m(1) have
    "reclaimed (eg_policy ex_pulled) 2000000000 m
      (memory_view (eg_store (Engine_reclaim memory_store ex_pulled 2000000000 (\<lambda>k. replicate k CHR ''x''))))" by blast
  then show ?thesis
    using \<open>msg_Attempts m = 1\<close> id
    by (simp add: reclaimed_def ex_policy ex_opts_def Engine_Message_view Engine_DeadLetter_view buried_msg_def del: memory_view_sel)
      (metis (no_types, lifting) option.simps(5))
qed

text \<open>C15: a replay keeps the payload and leaves a trail: replaying a dead letter of a declared queue
  stores one new message in that queue, ready for delivery, with the payload, the routing data and
  the headers of the dead letter plus the two headers that name the original message and the dead
  letter; the dead letter stays, is marked with the identifier of the new message and counts one
  replay more; the original message is not touched.\<close>

theorem Replay_roundtrip:
  assumes "store_inv (eg_store e)" and "\<not> ms_closed (eg_store e)"
    and "Engine_DeadLetter memory_store e did = Inr d" and "Registry_Queue (eg_registry e) (dl_Queue d) = Inr queue"
    and "Engine_Message memory_store e (newIDAt now entropy) = Inl ErrNotFound"
    and "Engine_ReplayDeadLetter memory_store e did now entropy = (res, e')"
  shows "\<exists>r m. res = Inr r \<and> rp_DeadLetterID r = did \<and> rp_OriginalMessageID r = dl_MessageID d \<and>
    Engine_Message memory_store e' (rp_MessageID r) = Inr m \<and> msg_Queue m = rp_Queue r \<and>
    rp_Queue r = qs_Name (q_Spec queue) \<and> ready m now \<and> msg_Attempts m = 0 \<and>
    msg_Payload m = dl_Payload d \<and> msg_Schema m = dl_Schema d \<and> msg_Exchange m = dl_Exchange d \<and>
    msg_RoutingKey m = dl_RoutingKey d \<and>
    Header m headerReplayOf = Some (dl_MessageID d) \<and> Header m headerDeadLetterID = Some did \<and>
    (\<forall>k. k \<notin> {headerReplayOf, headerDeadLetterID} \<longrightarrow> Header m k = mget (dl_Headers d) k) \<and>
    Engine_DeadLetter memory_store e' did = Inr (replayed_dead (rp_MessageID r) now d) \<and>
    (\<forall>i. i \<noteq> rp_MessageID r \<longrightarrow> Engine_Message memory_store e' i = Engine_Message memory_store e i)"
proof -
  have d: "v_dead (memory_view (eg_store e)) did = Some d"
    using assms(3) by (simp add: Engine_DeadLetter_view split: option.splits)
  have n: "v_msgs (memory_view (eg_store e)) (newIDAt now entropy) = None"
    using assms(5) by (simp add: Engine_Message_view split: option.splits del: memory_view_sel)
  have op: "\<not> v_closed (memory_view (eg_store e))" using assms(2) by simp
  have ids: "dl_ID d = did" by (rule mem_store.dead_ID [OF assms(1) d])
  have hd: "headerReplayOf \<noteq> headerDeadLetterID" by (simp add: headerReplayOf_def headerDeadLetterID_def)
  note R = mem_store.Replay_outcome [OF assms(1) d assms(4) op n assms(6)]
  then show ?thesis
    using strip_eqD [OF R [THEN conjunct2, THEN conjunct2]] ids hd
    by (simp add: Engine_Message_view Engine_DeadLetter_view replay_of_def ready_def Header_def mget_mput
        del: memory_view_sel)
qed

theorem Replay_roundtrip_witness:
  "\<exists>r e' m. Engine_ReplayDeadLetter memory_store ex_buried ''d1'' 4000000 (ex_entropy 1) = (Inr r, e') \<and>
    Engine_Message memory_store e' (rp_MessageID r) = Inr m \<and> msg_Payload m = ''{}'' \<and>
    Header m ''x-replay-of'' = Some ex_id"
proof -
  have cl: "\<not> ms_closed (eg_store ex_buried)" by code_simp
  have "map_sum_ok (\<lambda>d. (dl_Queue d, dl_Payload d, dl_MessageID d)) (Engine_DeadLetter memory_store ex_buried ''d1'') =
      Inr (''billing'', ''{}'', ex_id)" by code_simp
  then obtain d where d: "Engine_DeadLetter memory_store ex_buried ''d1'' = Inr d" "dl_Queue d = ''billing''"
    "dl_Payload d = ''{}''" "dl_MessageID d = ex_id" by (cases "Engine_DeadLetter memory_store ex_buried ''d1''") auto
  have "map_sum_ok (\<lambda>q. qs_Name (q_Spec q)) (Registry_Queue (eg_registry ex_buried) ''billing'') = Inr ''billing''" by code_simp
  then obtain q where q: "Registry_Queue (eg_registry ex_buried) (dl_Queue d) = Inr q"
    unfolding d(2) by (cases "Registry_Queue (eg_registry ex_buried) ''billing''") auto
  have "map_sum_ok msg_ID (Engine_Message memory_store ex_buried (newIDAt 4000000 (ex_entropy 1))) = Inl ErrNotFound" by code_simp
  then have n: "Engine_Message memory_store ex_buried (newIDAt 4000000 (ex_entropy 1)) = Inl ErrNotFound"
    by (cases "Engine_Message memory_store ex_buried (newIDAt 4000000 (ex_entropy 1))") auto
  obtain res e' where r: "Engine_ReplayDeadLetter memory_store ex_buried ''d1'' 4000000 (ex_entropy 1) = (res, e')" by fastforce
  from Replay_roundtrip [OF ex_inv(4) cl d(1) q n r] r d show ?thesis by (auto simp: headerReplayOf_def)
qed

text \<open>C7: nothing that a dispatcher claims gets lost on the way to its workers: after \<open>claimBatch\<close> every
  claimed message was ready in the consumer's queue and has one attempt more, and either its
  delivery is in the channel of the worker pool and the message is still leased, or it is back in
  the queue with no delivery under way; only when the hand-off failed with another error may it
  still be leased without a delivery, and then its lease expires. No other message is touched and no
  other delivery enters the channel.\<close>

theorem Dispatch_accounts:
  assumes "store_inv (eg_store e)" and "p < length (eg_objects e)"
    and "claimBatch memory_store e p now hs = ((n, err), e')" and "0 < n"
  shows "\<exists>ms new. n = int (length ms) \<and>
    po_tasks (co_pool (object e' p)) = po_tasks (co_pool (object e p)) @ new \<and> set new \<subseteq> delivery_of ` set ms \<and>
    (\<forall>m\<in>set ms. \<exists>m0. v_msgs (memory_view (eg_store e)) (msg_ID m) = Some m0 \<and> ready m0 now \<and>
       msg_Queue m = cs_Queue (co_spec (object e p)) \<and> msg_Attempts m = msg_Attempts m0 + 1 \<and>
       placed (err \<noteq> None) new (memory_view (eg_store e')) m) \<and>
    (\<forall>i. i \<notin> msg_ID ` set ms \<longrightarrow>
       Engine_Message memory_store e' i = Engine_Message memory_store e i)"
proof -
  have eq: "Engine_Message memory_store e' i = Engine_Message memory_store e i"
    if "v_msgs (memory_view (eg_store e')) i = v_msgs (memory_view (eg_store e)) i" for i
    using that by (simp only: Engine_Message_view)
  from mem_store.claimBatch_places [OF assms] obtain ms new where
    *: "n = int (length ms)" "po_tasks (co_pool (object e' p)) = po_tasks (co_pool (object e p)) @ new"
      "set new \<subseteq> delivery_of ` set ms"
      "\<forall>m\<in>set ms. \<exists>m0. v_msgs (memory_view (eg_store e)) (msg_ID m) = Some m0 \<and> ready m0 now \<and>
        msg_Queue m = cs_Queue (co_spec (object e p)) \<and> msg_Attempts m = msg_Attempts m0 + 1 \<and>
        placed (err \<noteq> None) new (memory_view (eg_store e')) m"
      "\<forall>i. i \<notin> msg_ID ` set ms \<longrightarrow> v_msgs (memory_view (eg_store e')) i = v_msgs (memory_view (eg_store e)) i"
    by blast
  then show ?thesis using eq by (intro exI [of _ ms] exI [of _ new] conjI) blast+
qed

theorem Dispatch_accounts_witness:
  "\<exists>err e' m. claimBatch memory_store ex_running 0 2000000 ex_handoffs = ((1, err), e') \<and>
    msg_Queue m = ''billing'' \<and> placed (err \<noteq> None) (po_tasks (co_pool (object e' 0))) (memory_view (eg_store e')) m"
proof -
  obtain n err e' where c: "claimBatch memory_store ex_running 0 2000000 ex_handoffs = ((n, err), e')"
    by (metis prod.exhaust)
  have "fst (fst (claimBatch memory_store ex_running 0 2000000 ex_handoffs)) = 1" by code_simp
  then have n: "n = 1" by (simp add: c)
  have r: "0 < length (eg_objects ex_running)" "po_tasks (co_pool (object ex_running 0)) = []"
    "cs_Queue (co_spec (object ex_running 0)) = ''billing''" by code_simp+
  from Dispatch_accounts [OF ex_running_inv r(1) c] n r(2,3) obtain ms where
    "length ms = 1" "\<forall>m\<in>set ms. msg_Queue m = ''billing'' \<and>
      placed (err \<noteq> None) (po_tasks (co_pool (object e' 0))) (memory_view (eg_store e')) m" by fastforce
  then show ?thesis using c n by (cases ms) auto
qed





end
