(* ===== verification/SqliteProps.thy ===== *)
theory SqliteProps
  imports SqliteContract EngineProps
begin

text \<open>
  The properties of the SQLite store and of the engine over it: which messages a claim takes and in
  which order, and that no run of the engine over the database loses a message or buries one
  without a dead letter, over restarts too.
\<close>

abbreviation sqlite_ops :: "plain_db store_ops" where
  "sqlite_ops \<equiv> sqlite_store plain_codec reliable"

lemma sq_Message_Inr:
  "sqlite_inv (eg_store e) \<Longrightarrow> Engine_Message sqlite_ops e i = Inr m \<longleftrightarrow> v_msgs (sqlite_view (eg_store e)) i = Some m"
  unfolding Engine_Message_def by (subst sq_store.Message_law) (auto split: option.split)

lemma sq_DeadLetter_Inr:
  "sqlite_inv (eg_store e) \<Longrightarrow> Engine_DeadLetter sqlite_ops e i = Inr d \<longleftrightarrow> v_dead (sqlite_view (eg_store e)) i = Some d"
  unfolding Engine_DeadLetter_def by (subst sq_store.DeadLetter_law) (auto split: option.split)

section \<open>Engines over a database\<close>

text \<open>An engine that is started over a database: a new one, or one that an earlier engine left.\<close>

definition database_ok :: "plain_db \<Rightarrow> bool" where
  "database_ok s \<longleftrightarrow> sqlite_inv s \<and> covered (sqlite_view s)"

definition sqlite_engine_init :: "plain_db Engine \<Rightarrow> bool" where
  "sqlite_engine_init e \<longleftrightarrow> (\<exists>opts s. op_Store opts = Some s \<and> database_ok s \<and> Engine_New opts = Inr e)"

interpretation sqe: invariant_system sqlite_engine_init "engine_steps sqlite_ops {Deliver, Remove}"
  "\<lambda>e. database_ok (eg_store e)"
proof
  show "sqlite_engine_init e \<Longrightarrow> database_ok (eg_store e)" for e
    by (auto simp: sqlite_engine_init_def Engine_New_def Let_def split: option.splits)
  show "database_ok (eg_store e) \<Longrightarrow> engine_steps sqlite_ops {Deliver, Remove} e e' \<Longrightarrow> database_ok (eg_store e')" for e e'
    using sq_store.steps_covered [of "{Deliver, Remove}" e e'] sq_store.steps_refine [of "{Deliver, Remove}" e e']
    by (auto simp: database_ok_def)
qed

lemma empty_database_ok: "database_ok empty_database"
  by (simp add: database_ok_def sqlite_inv_def empty_database_def tables_ok_def messages_ok_def rising_def covered_def)

section \<open>An example run\<close>

definition ex_sq_engine :: "plain_db Engine" where
  "ex_sq_engine = \<lparr> eg_store = empty_database, eg_registry = NewRegistry, eg_policy = op_Retry ex_opts,
     eg_schemas = op_Schemas ex_opts, eg_metrics = [], eg_reclaimInterval = 5 * second, eg_consumers = [],
     eg_signals = [], eg_rootCtx = False, eg_objects = [] \<rparr>"

definition ex_sq_bound :: "plain_db Engine" where
  "ex_sq_bound =
    (let e = snd (Engine_DeclareExchange sqlite_ops ex_sq_engine
               \<lparr>xs_Name = ''orders'', xs_Kind = ExchangeDirect, xs_Durable = True\<rparr> 1);
         e = snd (Engine_DeclareQueue sqlite_ops e
               \<lparr>qs_Name = ''billing'', qs_Durable = True, qs_MaxAttempts = 3, qs_VisibilityTimeout = second,
                qs_Schema = ''invoice''\<rparr> 2)
     in snd (Engine_Bind sqlite_ops e \<lparr>bs_Exchange = ''orders'', bs_Queue = ''billing'', bs_RoutingKey = ''paid''\<rparr> 3))"

definition ex_sq_published :: "plain_db Engine" where
  "ex_sq_published = snd (Engine_Publish sqlite_ops ex_sq_bound (ex_pub ''{}'') 1000000 ex_entropy ''d1'' 7)"

definition ex_sq_pulled :: "plain_db Engine" where
  "ex_sq_pulled = snd (Engine_Pull sqlite_ops ex_sq_published
     \<lparr>pq_Queue = ''billing'', pq_Consumer = ''worker'', pq_Limit = 1, pq_Lease = 0\<rparr> 2000000)"

definition ex_sq_buried :: "plain_db Engine" where
  "ex_sq_buried = snd (Engine_Nack sqlite_ops ex_sq_pulled ex_id ''broken'' False 3000000 (\<lambda>_. 0) (Fin 0) ''d1'')"

lemma ex_sq_states:
  "map_sum_ok msg_State (Engine_Message sqlite_ops ex_sq_published ex_id) = Inr StateQueued"
  "map_sum_ok msg_State (Engine_Message sqlite_ops ex_sq_buried ex_id) = Inr StateDeadLettered"
  by code_simp+

lemma ex_sq_reach:
  "reach sqlite_engine_init (engine_steps sqlite_ops {Deliver, Remove}) ex_sq_published"
  "engine_steps sqlite_ops {Deliver} ex_sq_published ex_sq_pulled"
  "engine_steps sqlite_ops {Deliver} ex_sq_pulled ex_sq_buried"
proof -
  let ?reach = "reach sqlite_engine_init (engine_steps sqlite_ops {Deliver, Remove})"
  have step: "?reach e \<Longrightarrow> engine_step sqlite_ops Deliver e e' \<Longrightarrow> ?reach e'" for e e'
    using reach_step [of sqlite_engine_init "engine_steps sqlite_ops {Deliver, Remove}" e e'] by (auto simp: engine_steps_def)
  let ?opts = "\<lparr> op_Store = Some (empty_database :: plain_db), op_Retry = op_Retry ex_opts,
    op_Schemas = op_Schemas ex_opts, op_ReclaimInterval = 0 \<rparr>"
  have "Engine_New ?opts = Inr ex_sq_engine"
    by (simp add: Engine_New_def ex_opts_def ex_sq_engine_def Policy_WithDefaults_def Policy_Validate_def f_le_def
        defaultReclaimInterval_def Let_def)
  then have "sqlite_engine_init ex_sq_engine"
    unfolding sqlite_engine_init_def using empty_database_ok by (intro exI [of _ ?opts] exI [of _ empty_database]) simp
  then have 0: "?reach ex_sq_engine" using reach_init [of sqlite_engine_init ex_sq_engine] by blast
  have 1: "?reach ex_sq_bound"
    unfolding ex_sq_bound_def Let_def by (rule step [OF step [OF step [OF 0]]]; rule engine_step.intros)
  have "map_sum_ok (map (\<lambda>q. qs_Name (q_Spec q))) (Registry_Route (eg_registry ex_sq_bound) ''orders'' ''paid'') = Inr [''billing'']"
    by code_simp
  then have "fresh_ids ex_sq_bound (ex_pub payload) now ex_entropy" for payload now
    by (cases "Registry_Route (eg_registry ex_sq_bound) ''orders'' ''paid''") (auto simp: fresh_ids_def ex_pub_def)
  then show "?reach ex_sq_published" unfolding ex_sq_published_def using step [OF 1] by_Publish by blast
  show "engine_steps sqlite_ops {Deliver} ex_sq_published ex_sq_pulled" "engine_steps sqlite_ops {Deliver} ex_sq_pulled ex_sq_buried"
    unfolding ex_sq_pulled_def ex_sq_buried_def engine_steps_def by (blast intro: engine_step.intros)+
qed

section \<open>Properties\<close>



text \<open>The place of a message in the order of a claim: when it becomes available, then its arrival.\<close>

definition claim_rank :: "plain_db \<Rightarrow> string \<Rightarrow> time \<times> int" where
  "claim_rank s i = (case row_at s i of None \<Rightarrow> (0, 0) | Some r \<Rightarrow> (mr_available_at r, mr_seq r))"

lemma inv_seq_inj: "sqlite_inv s \<Longrightarrow> distinct (map mr_seq (db_messages s))"
  by (auto simp: sqlite_inv_def tables_ok_def messages_ok_def rising_def strict_sorted_iff)

lemma sorted_take_drop:
  assumes "sorted_wrt R xs" "x \<in> set (take n xs)" "y \<in> set (drop n xs)"
  shows "R x y"
  using assms sorted_wrt_append [of R "take n xs" "drop n xs"] by simp

lemma in_drop: "x \<in> set xs \<Longrightarrow> x \<notin> set (take n xs) \<Longrightarrow> x \<in> set (drop n xs)"
  by (metis Un_iff append_take_drop_id set_append)

text \<open>C19: A claim of the SQLite store takes the ready messages of the queue in the order in which they
  became available, those of the same instant in the order of arrival, and stops short of one that
  is ready only at its limit: everything it leaves behind comes later than everything it takes.\<close>

theorem Sqlite_Claim_order:
  assumes inv: "sqlite_inv s" and c: "sqlite_Claim plain_codec reliable s req = (Inr ms, s')"
  shows "sorted_wrt (<) (map (\<lambda>m. claim_rank s (msg_ID m)) ms) \<and>
    (\<forall>i. claimable_from (sqlite_view s) req i \<and> i \<notin> msg_ID ` set ms \<longrightarrow>
      int (length ms) = max 0 (cr_Limit req) \<and> (\<forall>m \<in> set ms. claim_rank s (msg_ID m) < claim_rank s i))"
proof -
  let ?key = "\<lambda>r. (mr_available_at r, mr_seq r)"
  let ?all = "filter (\<lambda>r. mr_queue r = cr_Queue req \<and> ready (row_msg r) (cr_Now req)) (db_messages s)"
  let ?ss = "sort_key ?key ?all" and ?n = "nat (cr_Limit req)"
  have ms: "ms = map (\<lambda>r. claimed_msg req (row_msg r)) (take ?n ?ss)"
    using c Claim_plain [OF inv_open [OF inv] inv_ids [OF inv], of req] by (simp add: Let_def claim_selection_def)
  have rank: "claim_rank s (mr_id r) = ?key r" if "r \<in> set ?ss" for r
    using find_distinct_key [OF inv_ids [OF inv], of r] that by (simp add: claim_rank_def)
  have "distinct (map mr_seq ?all)" by (rule distinct_map_filter [OF inv_seq_inj [OF inv]])
  moreover have "mset (map mr_seq ?ss) = mset (map mr_seq ?all)" by (simp only: mset_map mset_sort)
  ultimately have "distinct (map mr_seq ?ss)" using mset_eq_imp_distinct_iff by blast
  then have "distinct (map ?key ?ss)" by (auto simp: distinct_map inj_on_def)
  then have strict: "sorted_wrt (\<lambda>r r'. ?key r < ?key r') ?ss"
    using sorted_sort_key [of ?key ?all] unfolding sorted_wrt_map [symmetric, of "(<)" ?key]
    by (simp only: strict_sorted_iff)
  have "sorted_wrt (\<lambda>r r'. claim_rank s (mr_id r) < claim_rank s (mr_id r')) (take ?n ?ss)"
  proof (rule sorted_wrt_mono_rel [OF _ sorted_wrt_take [OF strict]])
    fix x y assume "x \<in> set (take ?n ?ss)" "y \<in> set (take ?n ?ss)" "?key x < ?key y"
    then show "claim_rank s (mr_id x) < claim_rank s (mr_id y)"
      using rank [OF in_set_takeD [of x ?n ?ss]] rank [OF in_set_takeD [of y ?n ?ss]] by simp
  qed
  then have "sorted_wrt (<) (map (\<lambda>m. claim_rank s (msg_ID m)) ms)" by (simp add: ms sorted_wrt_map claimed_msg_def)
  moreover have "int (length ms) = max 0 (cr_Limit req) \<and> (\<forall>m \<in> set ms. claim_rank s (msg_ID m) < claim_rank s i)"
    if cl: "claimable_from (sqlite_view s) req i" and out: "i \<notin> msg_ID ` set ms" for i
  proof -
    obtain r where r: "r \<in> set ?ss" "mr_id r = i" using cl ready_rows [OF inv, of i req] by auto
    have "r \<notin> set (take ?n ?ss)" using out r(2) by (force simp: ms claimed_msg_def)
    then have d: "r \<in> set (drop ?n ?ss)" by (rule in_drop [OF r(1)])
    then have "length (take ?n ?ss) = ?n" by (cases "?n \<le> length ?ss") auto
    moreover have "claim_rank s (mr_id r') < claim_rank s i" if "r' \<in> set (take ?n ?ss)" for r'
      using sorted_take_drop [OF strict that d] rank [OF in_set_takeD [OF that]] rank [OF r(1)] r(2) by simp
    ultimately show ?thesis by (simp add: ms claimed_msg_def)
  qed
  ultimately show ?thesis by blast
qed

text \<open>Two messages, the second of which became available first.\<close>

definition ex_two :: plain_db where
  "ex_two = snd (sqlite_Append plain_codec reliable empty_database
     [ex_stored, ex_stored\<lparr>msg_ID := ''m2'', msg_AvailableAt := 5\<rparr>])"

definition ex_take_one :: ClaimRequest where
  "ex_take_one = \<lparr> cr_Queue = ''billing'', cr_Consumer = ''worker'', cr_Limit = 1, cr_Lease = 30 * second, cr_Now = 20 \<rparr>"

lemma ex_two_inv: "sqlite_inv ex_two"
  using exec_sqlite_inv [of empty_database "OpAppend [ex_stored, ex_stored\<lparr>msg_ID := ''m2'', msg_AvailableAt := 5\<rparr>]" reliable]
    empty_database_ok by (simp add: ex_two_def database_ok_def sqlite_store_def)

theorem Sqlite_Claim_order_witness:
  "map_sum_ok (map msg_ID) (fst (sqlite_Claim plain_codec reliable ex_two ex_take_one)) = Inr [''m2''] \<and>
   claim_rank ex_two ''m2'' < claim_rank ex_two ''m1''"
proof
  show ids: "map_sum_ok (map msg_ID) (fst (sqlite_Claim plain_codec reliable ex_two ex_take_one)) = Inr [''m2'']"
    by code_simp
  obtain ms s' where c: "sqlite_Claim plain_codec reliable ex_two ex_take_one = (Inr ms, s')" "map msg_ID ms = [''m2'']"
    using ids by (cases "sqlite_Claim plain_codec reliable ex_two ex_take_one"; cases "fst (sqlite_Claim plain_codec reliable ex_two ex_take_one)") auto
  have set: "msg_ID ` set ms = {''m2''}" using arg_cong [OF c(2), of set] by simp
  have "map_option (\<lambda>m. (msg_Queue m, msg_State m, msg_AvailableAt m)) (v_msgs (sqlite_view ex_two) ''m1'') =
      Some (''billing'', StateQueued, 10)" by code_simp
  then have "claimable_from (sqlite_view ex_two) ex_take_one ''m1''"
    by (cases "v_msgs (sqlite_view ex_two) ''m1''") (auto simp: claimable_from_def ready_def ex_take_one_def)
  then have "\<forall>m \<in> set ms. claim_rank ex_two (msg_ID m) < claim_rank ex_two ''m1''"
    using Sqlite_Claim_order [OF ex_two_inv c(1)] set by auto
  then show "claim_rank ex_two ''m2'' < claim_rank ex_two ''m1''" using set by (metis imageE insertI1)
qed

end
