(* ===== verification/Decimal.thy ===== *)
theory Decimal
  imports Prelude
begin

text \<open>
  Decimal numbers as Go's library writes and reads them: \<open>appendInt\<close> of package \<open>time\<close>, the verb \<open>%d\<close>, and digits
  with leading zeros, with the facts that reading inverts writing and that padded numbers compare as texts
  the way they compare as numbers.
\<close>

section \<open>Digits\<close>

text \<open>The last \<open>n\<close> decimal digits, and the number of digits of a number.\<close>

definition digit_char :: "int \<Rightarrow> char" where
  "digit_char d = char_of (48 + nat d)"

fun pad :: "nat \<Rightarrow> int \<Rightarrow> string" where
  "pad 0 x = []"
| "pad (Suc n) x = pad n (x div 10) @ [digit_char (x mod 10)]"

fun num_digits :: "nat \<Rightarrow> nat" where
  "num_digits n = (if n < 10 then 1 else Suc (num_digits (n div 10)))"

declare num_digits.simps [simp del]

text \<open>\<open>appendInt(b, x, width)\<close>: at least \<open>width\<close> digits, a sign before them.\<close>

definition appendInt :: "int \<Rightarrow> nat \<Rightarrow> string" where
  "appendInt x width =
    (if x < 0 then ''-'' @ pad (max width (num_digits (nat (- x)))) (- x)
     else pad (max width (num_digits (nat x))) x)"

definition digit_val :: "char \<Rightarrow> int option" where
  "digit_val c = (let n = of_char c :: nat in if 48 \<le> n \<and> n \<le> 57 then Some (int n - 48) else None)"

fun digits_val :: "int \<Rightarrow> string \<Rightarrow> int option" where
  "digits_val acc [] = Some acc"
| "digits_val acc (c # cs) = (case digit_val c of None \<Rightarrow> None | Some d \<Rightarrow> digits_val (10 * acc + d) cs)"

lemma digit_char_val [simp]: "0 \<le> d \<Longrightarrow> d < 10 \<Longrightarrow> digit_val (digit_char d) = Some d"
  by (simp add: digit_val_def digit_char_def)

lemma digit_char_less: "0 \<le> a \<Longrightarrow> a < 10 \<Longrightarrow> 0 \<le> b \<Longrightarrow> b < 10 \<Longrightarrow> digit_char a < digit_char b \<longleftrightarrow> a < b"
  by (auto simp: digit_char_def less_char_def)

lemma pad_length [simp]: "length (pad n x) = n"
  by (induction n arbitrary: x) simp_all

lemma digits_val_append:
  "digits_val acc (xs @ ys) = (case digits_val acc xs of None \<Rightarrow> None | Some v \<Rightarrow> digits_val v ys)"
  by (induction xs arbitrary: acc) (auto split: option.splits)

lemma digits_val_pad: "0 \<le> x \<Longrightarrow> x < 10 ^ n \<Longrightarrow> digits_val acc (pad n x) = Some (acc * 10 ^ n + x)"
proof (induction n arbitrary: x)
  case (Suc n)
  have "x div 10 < 10 ^ n" using Suc.prems by (simp add: div_less_iff_less_mult)
  then have "digits_val acc (pad n (x div 10)) = Some (acc * 10 ^ n + x div 10)" using Suc by simp
  moreover have "10 * (x div 10) + x mod 10 = x" by simp
  ultimately show ?case by (simp add: digits_val_append algebra_simps)
qed simp

lemma append_less:
  fixes a b c d :: "'a::linorder list"
  assumes "length a = length b"
  shows "a @ c < b @ d \<longleftrightarrow> a < b \<or> a = b \<and> c < d"
  using assms by (induction a b rule: list_induct2) auto

lemma pad_inj:
  assumes "0 \<le> x" "x < 10 ^ n" "0 \<le> y" "y < 10 ^ n"
  shows "pad n x = pad n y \<longleftrightarrow> x = y"
proof
  assume "pad n x = pad n y"
  then have "Some (0 * 10 ^ n + x) = Some (0 * 10 ^ n + y)"
    using digits_val_pad [OF assms(1,2), of 0] digits_val_pad [OF assms(3,4), of 0] by (simp only:)
  then show "x = y" by simp
qed simp

lemma div_mod_less:
  fixes x y c :: int
  assumes "0 < c"
  shows "x < y \<longleftrightarrow> x div c < y div c \<or> x div c = y div c \<and> x mod c < y mod c"
proof (cases "x div c" "y div c" rule: linorder_cases)
  case less
  then have "x < y" using zdiv_mono1 [OF _ assms, of y x] by linarith
  with less show ?thesis by blast
next
  case equal
  have "x = c * (x div c) + x mod c" "y = c * (x div c) + y mod c" using mult_div_mod_eq [of c x] mult_div_mod_eq [of c y] equal by simp_all
  then have "x < y \<longleftrightarrow> x mod c < y mod c" by linarith
  with equal show ?thesis by simp
next
  case greater
  then have "\<not> x < y" using zdiv_mono1 [OF _ assms, of x y] by linarith
  with greater show ?thesis by simp
qed

lemma pad_less: "0 \<le> x \<Longrightarrow> x < 10 ^ n \<Longrightarrow> 0 \<le> y \<Longrightarrow> y < 10 ^ n \<Longrightarrow> pad n x < pad n y \<longleftrightarrow> x < y"
proof (induction n arbitrary: x y)
  case (Suc n)
  have lt: "x div 10 < 10 ^ n" "y div 10 < 10 ^ n" using Suc.prems by (simp_all add: div_less_iff_less_mult)
  have d: "0 \<le> x mod 10" "x mod 10 < 10" "0 \<le> y mod 10" "y mod 10 < 10" by simp_all
  show ?case
    using div_mod_less [of 10 x y] digit_char_less [OF d] Suc.IH [of "x div 10" "y div 10"] pad_inj [of "x div 10" n "y div 10"] lt Suc.prems
    by (simp add: append_less)
qed simp

lemma num_digits_le: "n < 10 ^ k \<Longrightarrow> 0 < k \<Longrightarrow> num_digits n \<le> k"
proof (induction n arbitrary: k rule: num_digits.induct)
  case (1 n)
  show ?case
  proof (cases "n < 10")
    case False
    then have "k \<noteq> 1" using 1(2) by (intro notI) simp
    then obtain j where j: "k = Suc j" "0 < j" using 1(3) by (cases k) auto
    then have "n div 10 < 10 ^ j" using 1(2) by (simp add: div_less_iff_less_mult)
    with 1(1) [OF False, of j] j False show ?thesis by (simp add: num_digits.simps [of n])
  qed (use 1 in \<open>simp add: num_digits.simps [of n]\<close>)
qed

lemma appendInt_pad: "0 \<le> x \<Longrightarrow> x < 10 ^ w \<Longrightarrow> 0 < w \<Longrightarrow> appendInt x w = pad w x"
  using num_digits_le [of "nat x" w] by (simp add: appendInt_def max_def nat_less_iff)

text \<open>The verb \<open>%d\<close> and \<open>strconv.Itoa\<close>.\<close>

definition int_text :: "int \<Rightarrow> string" where
  "int_text n = appendInt n 0"

end
