(* ===== verification/SqliteTime.thy ===== *)
theory SqliteTime
  imports Decimal GoErrors
begin

text \<open>
  The text of the timestamp columns: \<open>formatTime\<close> and \<open>parseTime\<close> of
  \<open>internal/storage/sqlite/sqlite.go\<close>, with the parts of Go's \<open>time\<close> package that the layout
  \<open>2006-01-02T15:04:05.000000000Z\<close> uses: the proleptic Gregorian calendar in UTC, numbers padded with
  zeros, and the reading of each field. For the years 0 to 9999 the text is read back exactly, and the
  byte order in which SQLite compares two texts is the order of the instants.
\<close>

section \<open>The calendar\<close>

definition leap :: "int \<Rightarrow> bool" where
  "leap y \<longleftrightarrow> 4 dvd y \<and> (100 dvd y \<longrightarrow> 400 dvd y)"

text \<open>The number of days before the first of January, from the first of January of year 0.\<close>

definition year_start :: "int \<Rightarrow> int" where
  "year_start y = 365 * y + (y + 3) div 4 - (y + 99) div 100 + (y + 399) div 400"

definition year_of :: "int \<Rightarrow> int" where
  "year_of d =
    (let y = (400 * d) div 146097 in
     if year_start (y + 1) \<le> d then y + 1 else if d < year_start y then y - 1 else y)"

definition month_lengths :: "int \<Rightarrow> int list" where
  "month_lengths y = [31, if leap y then 29 else 28, 31, 30, 31, 30, 31, 31, 30, 31, 30, 31]"

text \<open>The month and the day of a day of the year, counted from 0.\<close>

fun month_of :: "int list \<Rightarrow> int \<Rightarrow> int \<times> int" where
  "month_of [] d = (1, d + 1)"
| "month_of (l # ls) d = (if d < l then (1, d + 1) else let (m, k) = month_of ls (d - l) in (m + 1, k))"

text \<open>The first of January 1970 is day 719528.\<close>

definition civil :: "int \<Rightarrow> int \<times> int \<times> int" where
  "civil d = (let y = year_of d; (m, k) = month_of (month_lengths y) (d - year_start y) in (y, m, k))"

definition days_of :: "int \<Rightarrow> int \<Rightarrow> int \<Rightarrow> int" where
  "days_of y m k = year_start y + sum_list (take (nat (m - 1)) (month_lengths y)) + (k - 1)"

lemma div_round_up:
  fixes y c k :: int
  assumes "0 < k" "c = k + 1"
  shows "(y + 1 + k) div c = (y + k) div c + (if c dvd y then 1 else 0)"
proof -
  have c: "c \<noteq> 0" using assms by simp
  have "(y + 1 + k) div c = y div c + 1" using c assms(2) div_add_self2 [of c y] by (simp add: ac_simps)
  moreover have "(y + k) div c = y div c + (if c dvd y then 0 else 1)"
  proof (cases "c dvd y")
    case True
    then obtain q where q: "y = c * q" by (elim dvdE)
    have "(k + c * q) div c = q + k div c" using c by (rule div_mult_self2)
    moreover have "k div c = 0" using assms by (intro div_pos_pos_trivial) auto
    ultimately show ?thesis using q c by (simp add: add.commute)
  next
    case False
    define r where "r = y mod c"
    have r: "0 < r" "r < c"
      using False assms pos_mod_sign [of c y] pos_mod_bound [of c y] by (simp_all add: r_def dvd_eq_mod_eq_0 order_less_le)
    have "y + k = (r - 1) + c * (y div c + 1)"
      unfolding r_def using mult_div_mod_eq [of c y] assms(2) by (simp add: algebra_simps)
    then have "(y + k) div c = ((r - 1) + c * (y div c + 1)) div c" by (simp only:)
    also have "\<dots> = (y div c + 1) + (r - 1) div c" using c by (rule div_mult_self2)
    also have "(r - 1) div c = 0" using r by (intro div_pos_pos_trivial) auto
    finally show ?thesis using False by simp
  qed
  ultimately show ?thesis by simp
qed

lemma two_of_three:
  assumes "Q \<Longrightarrow> P" "R \<Longrightarrow> Q"
  shows "(if P \<and> (Q \<longrightarrow> R) then 366 else 365) =
    (365 :: int) + (if P then 1 else 0) - (if Q then 1 else 0) + (if R then 1 else 0)"
  using assms by (cases P; cases Q; cases R) auto

lemma leap_day: "(if leap y then 366 else 365) =
    (365 :: int) + (if 4 dvd y then 1 else 0) - (if 100 dvd y then 1 else 0) + (if 400 dvd y then 1 else 0)"
  unfolding leap_def
proof (rule two_of_three)
  show "4 dvd y" if "100 dvd y" by (rule dvd_trans [OF _ that]) simp
  show "100 dvd y" if "400 dvd y" by (rule dvd_trans [OF _ that]) simp
qed

lemma year_start_step: "year_start (y + 1) = year_start y + (if leap y then 366 else 365)"
proof -
  have "365 * (y + 1) + (a + i) - (b + j) + (c + k) = 365 * y + a - b + c + (365 + i - j + k)"
    for a b c i j k :: int by simp
  then show ?thesis
    unfolding year_start_def leap_day
    using div_round_up [of 3 4 y] div_round_up [of 99 100 y] div_round_up [of 399 400 y]
    by (simp only: zero_less_numeral numeral_plus_one semiring_norm simp_thms)
qed

lemma year_start_bounds:
  "400 * year_start y \<le> 146097 * y + 800" "146097 * y - 400 \<le> 400 * year_start y"
proof -
  define a b c where "a = (y + 3) div 4" and "b = (y + 99) div 100" and "c = (y + 399) div 400"
  have "4 * a \<le> y + 3 \<and> y \<le> 4 * a" "100 * b \<le> y + 99 \<and> y \<le> 100 * b" "400 * c \<le> y + 399 \<and> y \<le> 400 * c"
    unfolding a_def b_def c_def by linarith+
  then show "400 * year_start y \<le> 146097 * y + 800" "146097 * y - 400 \<le> 400 * year_start y"
    unfolding year_start_def a_def [symmetric] b_def [symmetric] c_def [symmetric] by simp_all
qed

lemma year_of_bounds: "year_start (year_of d) \<le> d \<and> d < year_start (year_of d + 1)"
proof -
  define y where "y = (400 * d) div 146097"
  have y: "146097 * y \<le> 400 * d" "400 * d < 146097 * y + 146097" unfolding y_def by linarith+
  have "year_start (y - 1) \<le> d" using year_start_bounds(1) [of "y - 1"] y(1) by simp
  moreover have "d < year_start (y + 2)" using year_start_bounds(2) [of "y + 2"] y(2) by simp
  moreover have "year_start (y + 1 + 1) = year_start (y + 2)" by (simp add: add.assoc)
  ultimately show ?thesis unfolding year_of_def y_def [symmetric] Let_def by (simp del: add.assoc)
qed

lemma year_start_mono: "y \<le> z \<Longrightarrow> year_start y \<le> year_start z"
  by (induction z rule: int_ge_induct) (auto simp: year_start_step)

lemma year_of_unique: "year_start y \<le> d \<Longrightarrow> d < year_start (y + 1) \<Longrightarrow> year_of d = y"
  using year_of_bounds [of d] year_start_mono [of "year_of d + 1" y] year_start_mono [of "y + 1" "year_of d"]
  by linarith

lemma year_of_mono: "d \<le> d' \<Longrightarrow> year_of d \<le> year_of d'"
  using year_of_bounds [of d] year_of_bounds [of d'] year_start_mono [of "year_of d' + 1" "year_of d"] by linarith

lemma month_lengths_sum: "sum_list (month_lengths y) = (if leap y then 366 else 365)"
  by (simp add: month_lengths_def)

lemma month_lengths_pos: "\<forall>l \<in> set (month_lengths y). 0 < l" "length (month_lengths y) = 12"
  by (simp_all add: month_lengths_def)

lemma month_of_spec:
  assumes "\<forall>l \<in> set ls. 0 < l" "0 \<le> d" "d < sum_list ls" "month_of ls d = (m, k)"
  shows "1 \<le> m \<and> m \<le> int (length ls) \<and> 1 \<le> k \<and> k \<le> ls ! nat (m - 1) \<and>
    sum_list (take (nat (m - 1)) ls) + (k - 1) = d"
  using assms
proof (induction ls arbitrary: d m)
  case (Cons l ls)
  show ?case
  proof (cases "d < l")
    case False
    then obtain n where n: "month_of ls (d - l) = (n, k)" "m = n + 1" using Cons.prems(4) by (auto split: prod.splits)
    with Cons.IH [of "d - l" n] Cons.prems False have
      "1 \<le> n \<and> n \<le> int (length ls) \<and> 1 \<le> k \<and> k \<le> ls ! nat (n - 1) \<and> sum_list (take (nat (n - 1)) ls) + (k - 1) = d - l"
      by simp
    moreover have "nat n = Suc (nat (n - 1))" using calculation by linarith
    ultimately show ?thesis using n(2) by simp
  qed (use Cons.prems in auto)
qed simp

lemma month_of_less:
  assumes "d < d'" "0 \<le> d"
  shows "fst (month_of ls d) < fst (month_of ls d') \<or>
    fst (month_of ls d) = fst (month_of ls d') \<and> snd (month_of ls d) < snd (month_of ls d')"
  using assms
proof (induction ls arbitrary: d d')
  case (Cons l ls)
  have ge: "1 \<le> fst (month_of ls x)" for x
    by (induction ls arbitrary: x) (auto simp: split_def Let_def intro: order_trans [of 0 1])
  show ?case
  proof (cases "d < l")
    case True
    then show ?thesis using Cons.prems ge [of "d' - l"] by (auto simp: split_def Let_def)
  next
    case False
    then show ?thesis using Cons.IH [of "d - l" "d' - l"] Cons.prems by (auto simp: split_def Let_def)
  qed
qed simp

lemma civil_spec:
  assumes "civil d = (y, m, k)"
  shows "y = year_of d" "1 \<le> m" "m \<le> 12" "1 \<le> k" "k \<le> month_lengths y ! nat (m - 1)" "days_of y m k = d"
proof -
  show y: "y = year_of d" using assms by (simp add: civil_def Let_def split_def)
  have mk: "month_of (month_lengths y) (d - year_start y) = (m, k)"
    using assms y by (simp add: civil_def Let_def split_def prod_eq_iff)
  have "0 \<le> d - year_start y" "d - year_start y < sum_list (month_lengths y)"
    using year_of_bounds [of d] year_start_step [of y] by (auto simp: y month_lengths_sum)
  from month_of_spec [OF month_lengths_pos(1) this mk]
  show "1 \<le> m" "m \<le> 12" "1 \<le> k" "k \<le> month_lengths y ! nat (m - 1)" "days_of y m k = d"
    by (simp_all add: month_lengths_pos days_of_def)
qed

lemma civil_less:
  assumes "d < d'" "civil d = (y, m, k)" "civil d' = (y', m', k')"
  shows "y < y' \<or> y = y' \<and> (m < m' \<or> m = m' \<and> k < k')"
proof (cases "y < y'")
  case False
  have y: "y = year_of d" "y' = year_of d'" using civil_spec(1) assms(2,3) by blast+
  with False year_of_mono [of d d'] assms(1) have eq: "y = y'" by simp
  have "month_of (month_lengths y) (d - year_start y) = (m, k)" "month_of (month_lengths y) (d' - year_start y) = (m', k')"
    using assms(2,3) y eq by (simp_all add: civil_def Let_def split_def prod_eq_iff)
  moreover have "0 \<le> d - year_start y" using year_of_bounds [of d] y by simp
  ultimately show ?thesis
    using month_of_less [of "d - year_start y" "d' - year_start y" "month_lengths y"] assms(1) eq by simp
qed simp

section \<open>Formatting\<close>

definition unix_epoch_day :: int where "unix_epoch_day = 719528"

text \<open>\<open>value.UTC().Format(timeLayout)\<close>\<close>

definition formatTime :: "time \<Rightarrow> string" where
  "formatTime t =
    (let ns = t mod second; sec = t div second; day = sec div 86400; sod = sec mod 86400;
         (y, m, d) = civil (day + unix_epoch_day)
     in appendInt y 4 @ ''-'' @ pad 2 m @ ''-'' @ pad 2 d @ ''T'' @ pad 2 (sod div 3600) @ '':'' @
        pad 2 (sod mod 3600 div 60) @ '':'' @ pad 2 (sod mod 3600 mod 60) @ ''.'' @ pad 9 ns @ ''Z'')"

section \<open>Parsing\<close>

text \<open>\<open>getnum\<close> of package \<open>time\<close>: two digits, or one when the width is not fixed.\<close>

definition getnum :: "string \<Rightarrow> bool \<Rightarrow> (int \<times> string) option" where
  "getnum s fixed =
    (case s of
       [] \<Rightarrow> None
     | c # cs \<Rightarrow> (case digit_val c of
         None \<Rightarrow> None
       | Some a \<Rightarrow> (case cs of
           [] \<Rightarrow> if fixed then None else Some (a, [])
         | c' # cs' \<Rightarrow> (case digit_val c' of
             None \<Rightarrow> if fixed then None else Some (a, cs)
           | Some b \<Rightarrow> Some (a * 10 + b, cs')))))"

definition skip :: "string \<Rightarrow> string \<Rightarrow> string option" where
  "skip lit s = (if take (length lit) s = lit then Some (drop (length lit) s) else None)"

definition parse_year :: "string \<Rightarrow> (int \<times> string) option" where
  "parse_year s = (if length s < 4 then None else map_option (\<lambda>y. (y, drop 4 s)) (digits_val 0 (take 4 s)))"

text \<open>\<open>atoi\<close>: an optional sign and digits; \<open>parseNanoseconds\<close> for the nine digits of the layout.\<close>

definition time_atoi :: "string \<Rightarrow> int option" where
  "time_atoi s =
    (case s of
       [] \<Rightarrow> None
     | c # cs \<Rightarrow> if c = CHR ''-'' \<or> c = CHR ''+''
                then if cs = [] then None
                     else map_option (\<lambda>n. if c = CHR ''-'' then - n else n) (digits_val 0 cs)
                else digits_val 0 s)"

definition parseNanoseconds :: "string \<Rightarrow> (int \<times> string) option" where
  "parseNanoseconds s =
    (if length s < 10 \<or> s ! 0 \<notin> {CHR ''.'', CHR '',''} then None
     else case time_atoi (take 9 (drop 1 s)) of
       None \<Rightarrow> None
     | Some ns \<Rightarrow> if ns < 0 then None else Some (ns, drop 10 s))"

text \<open>\<open>time.Parse(timeLayout, value)\<close>: field by field in the order of the layout, each with its range;
  the day is compared with the length of its month at the end. \<open>None\<close> is an error.\<close>

definition time_Parse :: "string \<Rightarrow> time option" where
  "time_Parse s =
    Option.bind (parse_year s) (\<lambda>(y, s).
    Option.bind (skip ''-'' s) (\<lambda>s.
    Option.bind (getnum s True) (\<lambda>(m, s).
    if m \<le> 0 \<or> 12 < m then None else
    Option.bind (skip ''-'' s) (\<lambda>s.
    Option.bind (getnum s True) (\<lambda>(d, s).
    Option.bind (skip ''T'' s) (\<lambda>s.
    Option.bind (getnum s False) (\<lambda>(h, s).
    if h < 0 \<or> 24 \<le> h then None else
    Option.bind (skip '':'' s) (\<lambda>s.
    Option.bind (getnum s True) (\<lambda>(mi, s).
    if mi < 0 \<or> 60 \<le> mi then None else
    Option.bind (skip '':'' s) (\<lambda>s.
    Option.bind (getnum s True) (\<lambda>(sec, s).
    if sec < 0 \<or> 60 \<le> sec then None else
    Option.bind (parseNanoseconds s) (\<lambda>(ns, s).
    Option.bind (skip ''Z'' s) (\<lambda>s.
    if s \<noteq> [] then None
    else if d < 1 \<or> d > month_lengths y ! nat (m - 1) then None
    else Some (((days_of y m d - unix_epoch_day) * 86400 + h * 3600 + mi * 60 + sec) * second + ns))))))))))))))"

text \<open>The error of a malformed column names the text; the detail of \<open>time.ParseError\<close> is left out.\<close>

definition parseTime :: "string \<Rightarrow> error + time" where
  "parseTime value =
    (if value = [] then Inr zero_time
     else case time_Parse value of
       None \<Rightarrow> Inl (ErrWrap (''sqlite: parse timestamp '' @ quoted value @ '': '')
                 (ErrNew (''parsing time '' @ quoted value)))
     | Some t \<Rightarrow> Inr t)"

section \<open>Years 0 to 9999\<close>

text \<open>The instants whose year has at most four digits.\<close>

definition text_range :: "time \<Rightarrow> bool" where
  "text_range t \<longleftrightarrow> - 62167219200 * second \<le> t \<and> t < 253402300800 * second"

lemma year_start_values: "year_start 0 = 0" "year_start 10000 = 3652425"
  by (simp_all add: year_start_def)

lemma year_of_range:
  assumes "0 \<le> d" "d < 3652425"
  shows "0 \<le> year_of d" "year_of d < 10000"
proof -
  have b: "year_start (year_of d) \<le> d" "d < year_start (year_of d + 1)" using year_of_bounds by auto
  show "0 \<le> year_of d"
    using year_start_mono [of "year_of d + 1" 0] year_start_values(1) b(2) assms(1) by linarith
  show "year_of d < 10000"
    using year_start_mono [of 10000 "year_of d"] year_start_values(2) b(1) assms(2) by linarith
qed

lemma text_range_year:
  assumes "text_range t" "civil (t div second div 86400 + unix_epoch_day) = (y, m, d)"
  shows "0 \<le> y" "y < 10000"
proof -
  let ?d = "t div second div 86400 + unix_epoch_day"
  have "- 62167219200 \<le> t div second" "t div second < 253402300800" using assms(1) unfolding text_range_def by linarith+
  then have "0 \<le> ?d" "?d < 3652425" unfolding unix_epoch_day_def by linarith+
  then show "0 \<le> y" "y < 10000" using year_of_range [of ?d] civil_spec(1) [OF assms(2)] by simp_all
qed

lemma getnum_pad: "0 \<le> x \<Longrightarrow> x < 100 \<Longrightarrow> getnum (pad 2 x @ s) f = Some (x, s)"
  by (simp add: getnum_def numeral_2_eq_2 div_less_iff_less_mult)

lemma skip_append [simp]: "skip lit (lit @ s) = Some s"
  by (simp add: skip_def)

lemma parse_year_pad: "0 \<le> y \<Longrightarrow> y < 10000 \<Longrightarrow> parse_year (pad 4 y @ s) = Some (y, s)"
  using digits_val_pad [of y 4 0] by (simp add: parse_year_def)

lemma digit_not_sign: "0 \<le> d \<Longrightarrow> d < 10 \<Longrightarrow> digit_char d \<noteq> CHR ''-'' \<and> digit_char d \<noteq> CHR ''+''"
  using digit_char_val [of d] by (auto simp: digit_val_def)

lemma time_atoi_digits: "digits_val 0 (c # cs) = Some n \<Longrightarrow> time_atoi (c # cs) = Some n"
  by (auto simp: time_atoi_def digit_val_def split: option.splits if_splits)

lemma parseNanoseconds_pad: "0 \<le> n \<Longrightarrow> n < second \<Longrightarrow> parseNanoseconds (''.'' @ pad 9 n @ s) = Some (n, s)"
proof -
  assume n: "0 \<le> n" "n < second"
  then have v: "digits_val 0 (pad 9 n) = Some n" using digits_val_pad [of n 9 0] by simp
  obtain c cs where p: "pad 9 n = c # cs" using pad_length [of 9 n] by (cases "pad 9 n") auto
  have "time_atoi (pad 9 n) = Some n" using v unfolding p by (rule time_atoi_digits)
  then show ?thesis using n by (simp add: parseNanoseconds_def)
qed

lemma civil_bounds:
  assumes "civil D = (y, m, d)"
  shows "0 \<le> m" "m < 100" "0 \<le> d" "d < 100"
proof -
  note c = civil_spec [OF assms]
  have "nat (m - 1) < length (month_lengths y)" using c(2,3) by (simp add: month_lengths_pos)
  then have "month_lengths y ! nat (m - 1) \<in> set (month_lengths y)" by (rule nth_mem)
  then have "month_lengths y ! nat (m - 1) \<le> 31" by (auto simp: month_lengths_def split: if_splits)
  then show "0 \<le> m" "m < 100" "0 \<le> d" "d < 100" using c(2-5) by linarith+
qed

lemma clock_bounds:
  fixes sod :: int
  assumes "0 \<le> sod" "sod < 86400"
  shows "0 \<le> sod div 3600" "sod div 3600 < 24" "0 \<le> sod mod 3600 div 60" "sod mod 3600 div 60 < 60"
    "0 \<le> sod mod 3600 mod 60" "sod mod 3600 mod 60 < 60"
proof -
  have "0 \<le> sod mod 3600" "sod mod 3600 < 3600" by simp_all
  then show "0 \<le> sod mod 3600 div 60" "sod mod 3600 div 60 < 60" by linarith+
qed (use assms in \<open>simp_all, linarith?\<close>)

text \<open>The text of the fields of an instant, and the instant of these fields.\<close>

definition fields_text :: "int \<Rightarrow> int \<Rightarrow> int \<Rightarrow> int \<Rightarrow> int \<Rightarrow> int \<Rightarrow> int \<Rightarrow> string" where
  "fields_text y m d h mi s ns = pad 4 y @ ''-'' @ pad 2 m @ ''-'' @ pad 2 d @ ''T'' @ pad 2 h @ '':'' @
     pad 2 mi @ '':'' @ pad 2 s @ ''.'' @ pad 9 ns @ ''Z''"

lemma parse_fields:
  assumes y: "0 \<le> y" "y < 10000" and m: "1 \<le> m" "m \<le> 12" and d: "1 \<le> d" "d \<le> month_lengths y ! nat (m - 1)" "d < 100"
    and h: "0 \<le> h" "h < 24" and mi: "0 \<le> mi" "mi < 60" and s: "0 \<le> s" "s < 60" and ns: "0 \<le> ns" "ns < second"
  shows "time_Parse (fields_text y m d h mi s ns) =
    Some (((days_of y m d - unix_epoch_day) * 86400 + h * 3600 + mi * 60 + s) * second + ns)"
proof -
  have r: "(m \<le> 0 \<or> 12 < m) = False" "(h < 0 \<or> 24 \<le> h) = False" "(mi < 0 \<or> 60 \<le> mi) = False"
    "(s < 0 \<or> 60 \<le> s) = False" "(d < 1 \<or> d > month_lengths y ! nat (m - 1)) = False"
    using m d h mi s by auto
  have n: "getnum (pad 2 m @ x) f = Some (m, x)" "getnum (pad 2 d @ x) f = Some (d, x)" "getnum (pad 2 h @ x) f = Some (h, x)"
    "getnum (pad 2 mi @ x) f = Some (mi, x)" "getnum (pad 2 s @ x) f = Some (s, x)" for x f
    using m d h mi s by (simp_all add: getnum_pad del: pad.simps)
  have z: "skip ''Z'' ''Z'' = Some []" by (simp add: skip_def)
  show ?thesis
    unfolding time_Parse_def fields_text_def
    by (simp only: parse_year_pad [OF y] n parseNanoseconds_pad [OF ns] skip_append z bind.bind_lunit prod.case r
        if_False simp_thms)
qed

lemma civil_of_time:
  fixes t :: time
  obtains y m d where "civil (t div second div 86400 + unix_epoch_day) = (y, m, d)"
  by (cases "civil (t div second div 86400 + unix_epoch_day)") auto

abbreviation (input) hour_of :: "time \<Rightarrow> int" where "hour_of t \<equiv> t div second mod 86400 div 3600"
abbreviation (input) minute_of :: "time \<Rightarrow> int" where "minute_of t \<equiv> t div second mod 86400 mod 3600 div 60"
abbreviation (input) second_of :: "time \<Rightarrow> int" where "second_of t \<equiv> t div second mod 86400 mod 3600 mod 60"

lemma formatTime_fields:
  assumes "text_range t" "civil (t div second div 86400 + unix_epoch_day) = (y, m, d)"
  shows "formatTime t = fields_text y m d (hour_of t) (minute_of t) (second_of t) (t mod second)"
proof -
  have "appendInt y 4 = pad 4 y" by (rule appendInt_pad) (use text_range_year [OF assms] in simp_all)
  then show ?thesis unfolding formatTime_def fields_text_def Let_def assms(2) prod.case by (simp only:)
qed

lemma fields_time:
  fixes t :: time
  shows "(t div second div 86400 * 86400 + hour_of t * 3600 + minute_of t * 60 + second_of t) * second + t mod second = t"
proof -
  define sec where "sec = t div second"
  define sod where "sod = sec mod 86400"
  have "hour_of t * 3600 + (minute_of t * 60 + second_of t) = sod"
    unfolding sec_def [symmetric] sod_def [symmetric] by (simp only: div_mult_mod_eq)
  then have "t div second div 86400 * 86400 + hour_of t * 3600 + minute_of t * 60 + second_of t = sec"
    unfolding sec_def sod_def using div_mult_mod_eq [of "t div second" 86400] by linarith
  then show ?thesis unfolding sec_def using div_mult_mod_eq [of t second] by (simp only:)
qed

lemma time_text_roundtrip:
  assumes "text_range t"
  shows "parseTime (formatTime t) = Inr t"
proof -
  obtain y m d where c: "civil (t div second div 86400 + unix_epoch_day) = (y, m, d)" by (rule civil_of_time)
  note cs = civil_spec [OF c]
  have sod: "0 \<le> t div second mod 86400" "t div second mod 86400 < 86400" by simp_all
  have ns: "0 \<le> t mod second" "t mod second < second" by simp_all
  have "time_Parse (formatTime t) = Some t"
    unfolding formatTime_fields [OF assms c]
      parse_fields [OF text_range_year [OF assms c] cs(2-5) civil_bounds(4) [OF c] clock_bounds [OF sod] ns]
      cs(6) add_diff_cancel_right' fields_time ..
  moreover have "formatTime t \<noteq> []" unfolding formatTime_fields [OF assms c] fields_text_def by simp
  ultimately show ?thesis by (simp add: parseTime_def)
qed

lemma fields_less:
  assumes "0 \<le> y" "y < 10000" "0 \<le> y'" "y' < 10000" "0 \<le> m" "m < 100" "0 \<le> m'" "m' < 100"
    "0 \<le> d" "d < 100" "0 \<le> d'" "d' < 100" "0 \<le> h" "h < 24" "0 \<le> h'" "h' < 24"
    "0 \<le> mi" "mi < 60" "0 \<le> mi'" "mi' < 60" "0 \<le> s" "s < 60" "0 \<le> s'" "s' < 60"
    "0 \<le> ns" "ns < second" "0 \<le> ns'" "ns' < second"
    and "y < y' \<or> y = y' \<and> (m < m' \<or> m = m' \<and> (d < d' \<or> d = d' \<and>
      (h < h' \<or> h = h' \<and> (mi < mi' \<or> mi = mi' \<and> (s < s' \<or> s = s' \<and> ns < ns')))))"
  shows "fields_text y m d h mi s ns < fields_text y' m' d' h' mi' s' ns'"
proof -
  have "pad 4 y < pad 4 y' \<longleftrightarrow> y < y'" "pad 2 m < pad 2 m' \<longleftrightarrow> m < m'" "pad 2 d < pad 2 d' \<longleftrightarrow> d < d'"
    "pad 2 h < pad 2 h' \<longleftrightarrow> h < h'" "pad 2 mi < pad 2 mi' \<longleftrightarrow> mi < mi'" "pad 2 s < pad 2 s' \<longleftrightarrow> s < s'"
    "pad 9 ns < pad 9 ns' \<longleftrightarrow> ns < ns'"
    by (rule pad_less; use assms in simp)+
  with assms(29) show ?thesis unfolding fields_text_def by (auto simp add: append_less simp del: append_Cons append_Nil)
qed

lemma clock_less:
  fixes a b :: int
  assumes "a < b"
  shows "a div 86400 < b div 86400 \<or> a div 86400 = b div 86400 \<and>
    (a mod 86400 div 3600 < b mod 86400 div 3600 \<or> a mod 86400 div 3600 = b mod 86400 div 3600 \<and>
     (a mod 86400 mod 3600 div 60 < b mod 86400 mod 3600 div 60 \<or>
      a mod 86400 mod 3600 div 60 = b mod 86400 mod 3600 div 60 \<and> a mod 86400 mod 3600 mod 60 < b mod 86400 mod 3600 mod 60))"
proof -
  have less: "x < y \<longleftrightarrow> x div c < y div c \<or> x div c = y div c \<and> x mod c < y mod c" if "0 < c" for x y c :: int
    using that by (rule div_mod_less)
  show ?thesis
    using assms less [of 86400 a b] less [of 3600 "a mod 86400" "b mod 86400"]
      less [of 60 "a mod 86400 mod 3600" "b mod 86400 mod 3600"] zero_less_numeral
    by metis
qed

lemma time_text_less:
  assumes "text_range t" "text_range u" "t < u"
  shows "formatTime t < formatTime u"
proof -
  obtain y m d where c: "civil (t div second div 86400 + unix_epoch_day) = (y, m, d)" by (rule civil_of_time)
  obtain y' m' d' where c': "civil (u div second div 86400 + unix_epoch_day) = (y', m', d')" by (rule civil_of_time)
  have sod: "0 \<le> x div second mod 86400" "x div second mod 86400 < 86400" for x :: time by simp_all
  have ns: "0 \<le> x mod second" "x mod second < second" for x :: time by simp_all
  let ?D = "\<lambda>x. x div second div 86400"
  have "?D t < ?D u \<or> ?D t = ?D u \<and> (hour_of t < hour_of u \<or> hour_of t = hour_of u \<and>
      (minute_of t < minute_of u \<or> minute_of t = minute_of u \<and> (second_of t < second_of u \<or>
       second_of t = second_of u \<and> t mod second < u mod second)))"
  proof (cases "t div second < u div second")
    case True
    from clock_less [OF this] show ?thesis by blast
  next
    case False
    then have "t div second = u div second" "t mod second < u mod second"
      using div_mod_less [OF zero_less_numeral, THEN iffD1, OF assms(3)] by blast+
    then show ?thesis by (simp only: simp_thms)
  qed
  moreover have "y < y' \<or> y = y' \<and> (m < m' \<or> m = m' \<and> d < d')" if "?D t < ?D u"
    using civil_less [OF _ c c'] that by simp
  moreover have "y = y' \<and> m = m' \<and> d = d'" if "?D t = ?D u" using c c' that by simp
  ultimately have "y < y' \<or> y = y' \<and> (m < m' \<or> m = m' \<and> (d < d' \<or> d = d' \<and>
      (hour_of t < hour_of u \<or> hour_of t = hour_of u \<and> (minute_of t < minute_of u \<or> minute_of t = minute_of u \<and>
       (second_of t < second_of u \<or> second_of t = second_of u \<and> t mod second < u mod second)))))" by blast
  then show ?thesis
    unfolding formatTime_fields [OF assms(1) c] formatTime_fields [OF assms(2) c']
    by (rule fields_less [OF text_range_year [OF assms(1) c] text_range_year [OF assms(2) c']
          civil_bounds(1,2) [OF c] civil_bounds(1,2) [OF c'] civil_bounds(3,4) [OF c] civil_bounds(3,4) [OF c']
          clock_bounds(1,2) [OF sod] clock_bounds(1,2) [OF sod] clock_bounds(3,4) [OF sod] clock_bounds(3,4) [OF sod]
          clock_bounds(5,6) [OF sod] clock_bounds(5,6) [OF sod] ns ns])
qed

lemma time_text_order: "text_range t \<Longrightarrow> text_range u \<Longrightarrow> formatTime t \<le> formatTime u \<longleftrightarrow> t \<le> u"
  using time_text_less [of t u] time_text_less [of u t] by (cases t u rule: linorder_cases) auto

text \<open>C18: The text of the timestamp columns is exact. For all instants of the years 0 to 9999 a column
  gives back the instant that was written to it, to the nanosecond, and the byte order by which the
  database compares and sorts two columns is the order of the instants.\<close>

theorem Timestamps_exact:
  assumes "text_range t" "text_range u"
  shows "parseTime (formatTime t) = Inr t \<and> (formatTime t \<le> formatTime u \<longleftrightarrow> t \<le> u)"
  using assms by (simp add: time_text_roundtrip time_text_order)

theorem Timestamps_exact_witness:
  "formatTime zero_time = ''0001-01-01T00:00:00.000000000Z'' \<and> parseTime (formatTime zero_time) = Inr zero_time \<and>
   formatTime zero_time \<le> formatTime 1709210096000000007 \<and>
   formatTime 1709210096000000007 = ''2024-02-29T12:34:56.000000007Z''"
proof -
  have "text_range zero_time" "text_range 1709210096000000007" by (simp_all add: text_range_def zero_time_def)
  from Timestamps_exact [OF this] have "parseTime (formatTime zero_time) = Inr zero_time"
    "formatTime zero_time \<le> formatTime 1709210096000000007" by (simp_all add: zero_time_def)
  moreover have "formatTime zero_time = ''0001-01-01T00:00:00.000000000Z''"
    "formatTime 1709210096000000007 = ''2024-02-29T12:34:56.000000007Z''" by code_simp+
  ultimately show ?thesis by blast
qed

end
