(* ===== verification/SqliteText.thy ===== *)
theory SqliteText
  imports SqliteTime SqliteSafety
begin

text \<open>
  The columns of the real database hold the text of a timestamp and the JSON of the headers; the laws of the
  store are proved on columns that hold instants and maps. This theory shows that the two cannot be told
  apart: as long as the instants lie in the years 0 to 9999 and the headers survive JSON, every call of
  the store returns from the one what it returns from the other, whatever the driver answers, and the
  tables correspond row by row. The locale \<open>column_codec\<close> says what the representations must promise;
  \<open>formatTime\<close>, \<open>parseTime\<close>, \<open>encodeHeaders\<close> and \<open>decodeHeaders\<close> are its interpretation.
\<close>

section \<open>Changing the representation\<close>

definition map_exchange_row :: "('t \<Rightarrow> 'u) \<Rightarrow> 't exchange_row \<Rightarrow> 'u exchange_row" where
  "map_exchange_row f r = \<lparr> xr_name = xr_name r, xr_kind = xr_kind r, xr_durable = xr_durable r,
     xr_created_at = f (xr_created_at r) \<rparr>"

definition map_queue_row :: "('t \<Rightarrow> 'u) \<Rightarrow> 't queue_row \<Rightarrow> 'u queue_row" where
  "map_queue_row f r = \<lparr> qr_name = qr_name r, qr_durable = qr_durable r, qr_max_attempts = qr_max_attempts r,
     qr_visibility_timeout_ms = qr_visibility_timeout_ms r, qr_schema_name = qr_schema_name r,
     qr_created_at = f (qr_created_at r) \<rparr>"

definition map_binding_row :: "('t \<Rightarrow> 'u) \<Rightarrow> 't binding_row \<Rightarrow> 'u binding_row" where
  "map_binding_row f r = \<lparr> br_exchange = br_exchange r, br_queue = br_queue r,
     br_routing_key = br_routing_key r, br_created_at = f (br_created_at r) \<rparr>"

definition map_message_row :: "('t \<Rightarrow> 'u) \<Rightarrow> ('h \<Rightarrow> 'k) \<Rightarrow> ('t, 'h) message_row \<Rightarrow> ('u, 'k) message_row" where
  "map_message_row f g r = \<lparr> mr_seq = mr_seq r, mr_id = mr_id r, mr_queue = mr_queue r,
     mr_exchange = mr_exchange r, mr_routing_key = mr_routing_key r, mr_schema_name = mr_schema_name r,
     mr_payload = mr_payload r, mr_headers = g (mr_headers r), mr_state = mr_state r,
     mr_attempts = mr_attempts r, mr_max_attempts = mr_max_attempts r, mr_last_error = mr_last_error r,
     mr_created_at = f (mr_created_at r), mr_updated_at = f (mr_updated_at r),
     mr_available_at = f (mr_available_at r), mr_lease_expires_at = map_option f (mr_lease_expires_at r),
     mr_consumer = mr_consumer r \<rparr>"

definition map_dead_row :: "('t \<Rightarrow> 'u) \<Rightarrow> ('h \<Rightarrow> 'k) \<Rightarrow> ('t, 'h) dead_row \<Rightarrow> ('u, 'k) dead_row" where
  "map_dead_row f g r = \<lparr> dr_id = dr_id r, dr_message_id = dr_message_id r, dr_queue = dr_queue r,
     dr_exchange = dr_exchange r, dr_routing_key = dr_routing_key r, dr_schema_name = dr_schema_name r,
     dr_payload = dr_payload r, dr_headers = g (dr_headers r), dr_reason = dr_reason r,
     dr_error_kind = dr_error_kind r, dr_attempts = dr_attempts r,
     dr_published_at = f (dr_published_at r), dr_first_failed_at = f (dr_first_failed_at r),
     dr_dead_lettered_at = f (dr_dead_lettered_at r), dr_replayed_as = dr_replayed_as r,
     dr_replayed_at = f (dr_replayed_at r), dr_replay_count = dr_replay_count r \<rparr>"

definition map_history_row :: "('t \<Rightarrow> 'u) \<Rightarrow> 't history_row \<Rightarrow> 'u history_row" where
  "map_history_row f r = \<lparr> hr_id = hr_id r, hr_message_id = hr_message_id r, hr_queue = hr_queue r,
     hr_from_state = hr_from_state r, hr_to_state = hr_to_state r, hr_consumer = hr_consumer r,
     hr_detail = hr_detail r, hr_at = f (hr_at r) \<rparr>"

definition map_db :: "('t \<Rightarrow> 'u) \<Rightarrow> ('h \<Rightarrow> 'k) \<Rightarrow> ('t, 'h) Database \<Rightarrow> ('u, 'k) Database" where
  "map_db f g s = \<lparr> db_open = db_open s, db_exchanges = map (map_exchange_row f) (db_exchanges s),
     db_queues = map (map_queue_row f) (db_queues s), db_bindings = map (map_binding_row f) (db_bindings s),
     db_messages = map (map_message_row f g) (db_messages s), db_message_seq = db_message_seq s,
     db_dead_letters = map (map_dead_row f g) (db_dead_letters s),
     db_history = map (map_history_row f) (db_history s), db_history_seq = db_history_seq s \<rparr>"

lemmas map_row_defs = map_exchange_row_def map_queue_row_def map_binding_row_def map_message_row_def
  map_dead_row_def map_history_row_def

lemma map_db_sel [simp]:
  "db_open (map_db f g s) = db_open s" "db_exchanges (map_db f g s) = map (map_exchange_row f) (db_exchanges s)"
  "db_queues (map_db f g s) = map (map_queue_row f) (db_queues s)"
  "db_bindings (map_db f g s) = map (map_binding_row f) (db_bindings s)"
  "db_messages (map_db f g s) = map (map_message_row f g) (db_messages s)"
  "db_message_seq (map_db f g s) = db_message_seq s"
  "db_dead_letters (map_db f g s) = map (map_dead_row f g) (db_dead_letters s)"
  "db_history (map_db f g s) = map (map_history_row f) (db_history s)" "db_history_seq (map_db f g s) = db_history_seq s"
  by (simp_all add: map_db_def)

lemma map_row_sel [simp]:
  "xr_name (map_exchange_row f x) = xr_name x" "qr_name (map_queue_row f q) = qr_name q"
  "br_exchange (map_binding_row f b) = br_exchange b" "br_queue (map_binding_row f b) = br_queue b"
  "br_routing_key (map_binding_row f b) = br_routing_key b"
  "mr_id (map_message_row f g r) = mr_id r" "mr_seq (map_message_row f g r) = mr_seq r"
  "mr_queue (map_message_row f g r) = mr_queue r" "mr_state (map_message_row f g r) = mr_state r"
  "mr_available_at (map_message_row f g r) = f (mr_available_at r)"
  "mr_lease_expires_at (map_message_row f g r) = map_option f (mr_lease_expires_at r)"
  "dr_id (map_dead_row f g d) = dr_id d" "dr_queue (map_dead_row f g d) = dr_queue d"
  "dr_dead_lettered_at (map_dead_row f g d) = f (dr_dead_lettered_at d)"
  "hr_id (map_history_row f h) = hr_id h" "hr_message_id (map_history_row f h) = hr_message_id h"
  by (simp_all add: map_row_defs)

text \<open>The instants and headers of a database and of a call, all of them in given ranges.\<close>

definition message_fits :: "('t \<Rightarrow> bool) \<Rightarrow> ('h \<Rightarrow> bool) \<Rightarrow> ('t, 'h) message_row \<Rightarrow> bool" where
  "message_fits P Q r \<longleftrightarrow> P (mr_created_at r) \<and> P (mr_updated_at r) \<and> P (mr_available_at r) \<and>
     (case mr_lease_expires_at r of None \<Rightarrow> True | Some t \<Rightarrow> P t) \<and> Q (mr_headers r)"

definition dead_fits :: "('t \<Rightarrow> bool) \<Rightarrow> ('h \<Rightarrow> bool) \<Rightarrow> ('t, 'h) dead_row \<Rightarrow> bool" where
  "dead_fits P Q r \<longleftrightarrow> P (dr_published_at r) \<and> P (dr_first_failed_at r) \<and> P (dr_dead_lettered_at r) \<and>
     P (dr_replayed_at r) \<and> Q (dr_headers r)"

definition db_fits :: "('t \<Rightarrow> bool) \<Rightarrow> ('h \<Rightarrow> bool) \<Rightarrow> ('t, 'h) Database \<Rightarrow> bool" where
  "db_fits P Q s \<longleftrightarrow> (\<forall>x \<in> set (db_exchanges s). P (xr_created_at x)) \<and> (\<forall>q \<in> set (db_queues s). P (qr_created_at q)) \<and>
    (\<forall>b \<in> set (db_bindings s). P (br_created_at b)) \<and> (\<forall>r \<in> set (db_messages s). message_fits P Q r) \<and>
    (\<forall>d \<in> set (db_dead_letters s). dead_fits P Q d) \<and> (\<forall>h \<in> set (db_history s). P (hr_at h))"

fun op_fits :: "(time \<Rightarrow> bool) \<Rightarrow> (Headers \<Rightarrow> bool) \<Rightarrow> store_op \<Rightarrow> bool" where
  "op_fits P Q (OpSaveExchange e) = P (ex_CreatedAt e)"
| "op_fits P Q (OpSaveQueue q) = P (q_CreatedAt q)"
| "op_fits P Q (OpSaveBinding b) = P (b_CreatedAt b)"
| "op_fits P Q (OpAppend ms) =
    list_all (\<lambda>m. P (msg_CreatedAt m) \<and> P (msg_UpdatedAt m) \<and> P (msg_AvailableAt m) \<and> Q (msg_Headers m)) ms"
| "op_fits P Q (OpClaim req) = (P (cr_Now req) \<and> P (cr_Now req + cr_Lease req))"
| "op_fits P Q (OpAcknowledge i t) = P t"
| "op_fits P Q (OpScheduleRetry req) = (P (rr_Now req) \<and> P (rr_AvailableAt req))"
| "op_fits P Q (OpRelease i t) = P t"
| "op_fits P Q (OpMarkDeadLettered i reason t) = P t"
| "op_fits P Q (OpExpiredLeases t n) = P t"
| "op_fits P Q (OpSaveDeadLetter d fresh) =
    (P (dl_PublishedAt d) \<and> P (dl_FirstFailedAt d) \<and> P (dl_DeadLetteredAt d) \<and> P (dl_ReplayedAt d) \<and> Q (dl_Headers d))"
| "op_fits P Q (OpMarkDeadLetterReplayed i as t) = P t"
| "op_fits P Q (OpAppendHistory h) = P (he_At h)"
| "op_fits P Q _ = True"

section \<open>Calls of the driver\<close>

lemma map_db_answer [simp]: "db_answer io (map_db f g s) = db_answer io s"
  by (rule ext) (simp add: db_answer_def)

lemma map_db_then [simp]: "db_then io (map_db f g s) = db_then io s"
  by (rule ext)+ (simp add: db_then_def)

lemma map_transaction:
  "transaction io (map_db f g s) b c (map_sum_ok (apsnd (map_db f g)) body) = apsnd (map_db f g) (transaction io s b c body)"
  by (cases "db_answer io s DbBegin"; cases body; cases "db_answer io s DbCommit")
    (auto simp: transaction_def db_then_def)

lemma map_autocommit:
  "autocommit (map_db f g s) (map_sum_ok (apsnd (map_db f g)) r) = apsnd (map_db f g) (autocommit s r)"
  by (cases r) (auto simp: autocommit_def)

lemma map_err_of: "err_of (apsnd g r) = apsnd g (err_of r)"
  by (cases r) (simp add: err_of_def)

lemma map_exec_affecting:
  "exec_affecting io (map_db f g s) pre n (map_db f g s') = apsnd (map_db f g) (exec_affecting io s pre n s')"
  by (simp add: exec_affecting_def split: option.split)

lemma map_query_row: "query_row io (map_db f g s) = query_row io s"
  by (rule ext)+ (simp add: query_row_def split: list.split)

lemma map_scan_rows:
  assumes "\<And>k r. r \<in> set rows \<Longrightarrow> scan' k (conv r) = scan k r"
  shows "scan_rows io (map_db f g s) scan' k (map conv rows) = scan_rows io s scan k rows"
  using assms by (induction rows arbitrary: k) simp_all

lemma bind_map [simp]: "bind_sum (map_sum_ok g r) h = bind_sum r (\<lambda>x. h (g x))"
  by (cases r) (simp_all add: bind_sum_def)

lemma map_bind [simp]: "map_sum_ok g (bind_sum r h) = bind_sum r (\<lambda>x. map_sum_ok g (h x))"
  by (cases r) (simp_all add: bind_sum_def)

lemma wrap_map [simp]: "wrap pre (map_sum_ok g r) = map_sum_ok g (wrap pre r)"
  by (cases r) (simp_all add: wrap_def)

lemma map_then [simp]: "map_sum_ok g (db_then io s call r) = db_then io s call (map_sum_ok g r)"
  by (simp add: db_then_def split: option.split)

lemma map_map_ok [simp]: "map_sum_ok f (map_sum_ok g r) = map_sum_ok (\<lambda>x. f (g x)) r"
  by (cases r) simp_all

lemma then_map: "db_then io s call (Inr (g x)) = map_sum_ok g (db_then io s call (Inr x))"
  by simp

text \<open>A transaction or a statement whose body commutes with the change commutes too.\<close>

lemma transaction_commutes:
  "body' = map_sum_ok (apsnd (map_db f g)) body \<Longrightarrow>
    transaction io (map_db f g s) b c body' = apsnd (map_db f g) (transaction io s b c body)"
  by (simp only: map_transaction)

lemma autocommit_commutes:
  "r' = map_sum_ok (apsnd (map_db f g)) r \<Longrightarrow> autocommit (map_db f g s) r' = apsnd (map_db f g) (autocommit s r)"
  by (simp only: map_autocommit)

lemma err_of_commutes: "r' = apsnd g r \<Longrightarrow> err_of r' = apsnd g (err_of r)"
  by (simp only: map_err_of)

lemma exec_affecting_commutes:
  "n = n' \<Longrightarrow> t = map_db f g s' \<Longrightarrow>
    exec_affecting io (map_db f g s) pre n t = apsnd (map_db f g) (exec_affecting io s pre n' s')"
  by (simp only: map_exec_affecting)

lemma upsert_map:
  assumes "\<And>r. conflicts' (g r) = conflicts r" "\<And>r. change' (g r) = g (change r)" "row' = g row"
  shows "upsert conflicts' change' row' (map g rows) = map g (upsert conflicts change row rows)"
  using assms by (auto simp: upsert_def list_ex_iff)

text \<open>Sorting by keys that compare the same way.\<close>

lemma sort_key_cong_order:
  assumes "\<And>x y. x \<in> set xs \<Longrightarrow> y \<in> set xs \<Longrightarrow> f x \<le> f y \<longleftrightarrow> g x \<le> g y"
  shows "sort_key f xs = sort_key g xs"
proof -
  have ins: "insort_key f x ys = insort_key g x ys" if "\<And>y. y \<in> set ys \<Longrightarrow> f x \<le> f y \<longleftrightarrow> g x \<le> g y" for x ys
    using that by (induction ys) auto
  show ?thesis
    using assms
  proof (induction xs)
    case (Cons x xs)
    then have "sort_key f xs = sort_key g xs" by simp
    moreover have "insort_key f x (sort_key g xs) = insort_key g x (sort_key g xs)"
      by (rule ins) (use Cons.prems in simp)
    ultimately show ?case by simp
  qed simp
qed

lemma sort_key_map: "sort_key f (map g xs) = map g (sort_key (\<lambda>x. f (g x)) xs)"
proof -
  have "insort_key f (g x) (map g ys) = map g (insort_key (\<lambda>x. f (g x)) x ys)" for x ys
    by (induction ys) auto
  then show ?thesis by (induction xs) simp_all
qed

lemma filter_head: "filter P xs = r # rs \<Longrightarrow> r \<in> set xs"
  by (metis filter_is_subset list.set_intros(1) subsetD)

section \<open>Representations of instants and headers\<close>

locale column_codec =
  fixes fmt :: "time \<Rightarrow> 't::linorder"
    and prs :: "'t \<Rightarrow> error + time"
    and ok :: "time \<Rightarrow> bool"
    and enc :: "Headers \<Rightarrow> 'h"
    and E :: "Headers \<Rightarrow> error + 'h"
    and D :: "'h \<Rightarrow> error + Headers"
    and okh :: "Headers \<Rightarrow> bool"
  assumes prs_fmt: "ok t \<Longrightarrow> prs (fmt t) = Inr t"
    and fmt_order: "ok t \<Longrightarrow> ok u \<Longrightarrow> fmt t \<le> fmt u \<longleftrightarrow> t \<le> u"
    and encodes: "okh h \<Longrightarrow> E h = Inr (enc h)"
    and decodes: "okh h \<Longrightarrow> D (enc h) = Inr h"
begin

abbreviation (input) codec_of :: "('t, 'h) codec" where
  "codec_of \<equiv> \<lparr> cd_formatTime = fmt, cd_parseTime = prs, cd_encodeHeaders = E, cd_decodeHeaders = D \<rparr>"

lemma fmt_inj: "ok t \<Longrightarrow> ok u \<Longrightarrow> fmt t = fmt u \<longleftrightarrow> t = u"
  using fmt_order [of t u] fmt_order [of u t] by (simp add: order_eq_iff)

lemma message_row_ok:
  "db_fits ok okh s \<Longrightarrow> r \<in> set (db_messages s) \<Longrightarrow> message_fits ok okh r"
  by (auto simp: db_fits_def list_all_iff)

lemma dead_row_ok:
  "db_fits ok okh s \<Longrightarrow> r \<in> set (db_dead_letters s) \<Longrightarrow> dead_fits ok okh r"
  by (auto simp: db_fits_def list_all_iff)

lemma topology_rows_ok:
  "db_fits ok okh s \<Longrightarrow> x \<in> set (db_exchanges s) \<Longrightarrow> ok (xr_created_at x)"
  "db_fits ok okh s \<Longrightarrow> q \<in> set (db_queues s) \<Longrightarrow> ok (qr_created_at q)"
  "db_fits ok okh s \<Longrightarrow> b \<in> set (db_bindings s) \<Longrightarrow> ok (br_created_at b)"
  "db_fits ok okh s \<Longrightarrow> h \<in> set (db_history s) \<Longrightarrow> ok (hr_at h)"
  by (auto simp: db_fits_def list_all_iff)

lemma scan_message:
  assumes "message_fits ok okh r"
  shows "scanMessage codec_of io (map_db fmt enc s) k (map_message_row fmt enc r) = scanMessage plain_codec io s k r"
  using assms by (simp add: scanMessage_def map_message_row_def message_fits_def prs_fmt decodes)

lemma scan_messages:
  assumes "db_fits ok okh s" "set rows \<subseteq> set (db_messages s)"
  shows "scanMessages codec_of io (map_db fmt enc s) (map (map_message_row fmt enc) rows) = scanMessages plain_codec io s rows"
  unfolding scanMessages_def
proof (rule map_scan_rows)
  fix k r assume "r \<in> set rows"
  with assms have "message_fits ok okh r" by (auto intro: message_row_ok)
  then show "wrap ''sqlite: scan message: '' (scanMessage codec_of io (map_db fmt enc s) k (map_message_row fmt enc r)) =
      wrap ''sqlite: scan message: '' (scanMessage plain_codec io s k r)"
    by (simp only: scan_message)
qed

lemma load_message:
  assumes "db_fits ok okh s"
  shows "loadMessage codec_of io (map_db fmt enc s) i = loadMessage plain_codec io s i"
    "sqlite_Message codec_of io (map_db fmt enc s) i = sqlite_Message plain_codec io s i"
proof -
  have rows: "message_rows (map_db fmt enc s) i = map (map_message_row fmt enc) (message_rows s i)"
    by (simp add: message_rows_def filter_map comp_def)
  have "(case message_rows (map_db fmt enc s) i of [] \<Rightarrow> Inl ErrNoRows | r # _ \<Rightarrow> scanMessage codec_of io (map_db fmt enc s) 0 r) =
      (case message_rows s i of [] \<Rightarrow> Inl ErrNoRows | r # _ \<Rightarrow> scanMessage plain_codec io s 0 r)"
  proof (cases "message_rows s i")
    case (Cons r rs)
    then have "r \<in> set (db_messages s)" by (simp add: message_rows_def filter_head)
    with Cons show ?thesis using scan_message [OF message_row_ok [OF assms]] by (simp add: rows)
  qed (simp add: rows)
  then show "loadMessage codec_of io (map_db fmt enc s) i = loadMessage plain_codec io s i"
    "sqlite_Message codec_of io (map_db fmt enc s) i = sqlite_Message plain_codec io s i"
    by (simp_all add: loadMessage_def sqlite_Message_def)
qed

subsection \<open>Changes of the message table\<close>

lemma insert_message_map:
  "insert_message codec_of io k (map_db fmt enc s) m (enc h) = map_sum_ok (map_db fmt enc) (insert_message plain_codec io k s m h)"
  by (simp add: insert_message_def list_ex_iff) (simp add: map_db_def map_message_row_def)

lemma append_rows_map:
  "list_all (\<lambda>m. okh (msg_Headers m)) ms \<Longrightarrow>
    append_rows codec_of io k (map_db fmt enc s) ms = map_sum_ok (map_db fmt enc) (append_rows plain_codec io k s ms)"
proof (induction ms arbitrary: k s)
  case (Cons m ms)
  then have "okh (msg_Headers m)" by simp
  then show ?case
    using Cons by (cases "insert_message plain_codec io k s m (msg_Headers m)")
      (simp_all add: insert_message_map encodes bind_sum_def)
qed simp

lemma Append_map:
  assumes "op_fits ok okh (OpAppend ms)"
  shows "sqlite_Append codec_of io (map_db fmt enc s) ms = apsnd (map_db fmt enc) (sqlite_Append plain_codec io s ms)"
proof (cases "ms = []")
  case False
  have "list_all (\<lambda>m. okh (msg_Headers m)) ms" using assms by (simp add: list_all_iff)
  then show ?thesis
    unfolding sqlite_Append_def if_not_P [OF False]
    by (intro err_of_commutes transaction_commutes) (simp add: append_rows_map del: append_rows.simps)
qed (simp add: sqlite_Append_def)

lemma update_message_map:
  assumes "\<And>r. g' (map_message_row fmt enc r) = map_message_row fmt enc (g r)"
  shows "update_message io k (map_db fmt enc s) i g' = map_sum_ok (map_db fmt enc) (update_message io k s i g)"
proof -
  have "(map_db fmt enc s)\<lparr>db_messages := map (\<lambda>r. if mr_id r = i then g' r else r) (db_messages (map_db fmt enc s))\<rparr> =
      map_db fmt enc (s\<lparr>db_messages := map (\<lambda>r. if mr_id r = i then g r else r) (db_messages s)\<rparr>)"
    by (simp add: map_db_def assms)
  then show ?thesis by (simp add: update_message_def)
qed

lemma claim_rows_map:
  "claim_rows codec_of io req k (map_db fmt enc s) ms cl =
    map_sum_ok (apsnd (map_db fmt enc)) (claim_rows plain_codec io req k s ms cl)"
proof (induction ms arbitrary: k s cl)
  case (Cons m ms)
  have "update_message io k (map_db fmt enc s) i (\<lambda>r. r\<lparr>mr_state := st, mr_attempts := n, mr_updated_at := fmt u,
        mr_lease_expires_at := Some (fmt l), mr_consumer := c\<rparr>) =
      map_sum_ok (map_db fmt enc) (update_message io k s i (\<lambda>r. r\<lparr>mr_state := st, mr_attempts := n,
        mr_updated_at := u, mr_lease_expires_at := Some l, mr_consumer := c\<rparr>))" for i st n u l c
    by (rule update_message_map) (simp add: map_message_row_def)
  then show ?case by (simp add: Let_def Cons.IH)
qed simp

lemma transitionLeased_map:
  assumes "db_fits ok okh s"
    and "\<And>m. ap' (map_db fmt enc s) m = map_sum_ok (map_db fmt enc) (ap s m)"
  shows "transitionLeased codec_of io (map_db fmt enc s) i ap' =
    apsnd (map_db fmt enc) (transitionLeased plain_codec io s i ap)"
  unfolding transitionLeased_def load_message(1) [OF assms(1)]
  by (intro err_of_commutes transaction_commutes)
    (simp add: assms(2) if_distrib [where f = "map_sum_ok _"] cong: if_cong)

lemma leased_map:
  assumes "db_fits ok okh s"
  shows "sqlite_Acknowledge codec_of io (map_db fmt enc s) i t = apsnd (map_db fmt enc) (sqlite_Acknowledge plain_codec io s i t)"
    "sqlite_ScheduleRetry codec_of io (map_db fmt enc s) req = apsnd (map_db fmt enc) (sqlite_ScheduleRetry plain_codec io s req)"
    "sqlite_Release codec_of io (map_db fmt enc s) i t = apsnd (map_db fmt enc) (sqlite_Release plain_codec io s i t)"
  unfolding sqlite_Acknowledge_def sqlite_ScheduleRetry_def sqlite_Release_def
  by (rule transitionLeased_map [OF assms],
      simp, intro arg_cong2 [where f = bind_sum] refl ext update_message_map, simp add: map_message_row_def)+

lemma MarkDeadLettered_map:
  assumes "db_fits ok okh s"
  shows "sqlite_MarkDeadLettered codec_of io (map_db fmt enc s) i reason t =
    apsnd (map_db fmt enc) (sqlite_MarkDeadLettered plain_codec io s i reason t)"
proof -
  have "update_message io 0 (map_db fmt enc s) j (\<lambda>r. r\<lparr>mr_state := st, mr_updated_at := fmt u,
        mr_last_error := e, mr_lease_expires_at := None, mr_consumer := []\<rparr>) =
      map_sum_ok (map_db fmt enc) (update_message io 0 s j (\<lambda>r. r\<lparr>mr_state := st, mr_updated_at := u,
        mr_last_error := e, mr_lease_expires_at := None, mr_consumer := []\<rparr>))" for j st u e
    by (rule update_message_map) (simp add: map_message_row_def)
  then show ?thesis
    unfolding sqlite_MarkDeadLettered_def load_message(1) [OF assms]
    by (intro err_of_commutes transaction_commutes) simp
qed

lemma sql_limit_map: "sql_limit n (map g rows) = map g (sql_limit n rows)"
  by (simp add: sql_limit_def take_map)

lemma sql_limit_subset: "set (sql_limit n rows) \<subseteq> set rows"
  by (auto simp: sql_limit_def dest: in_set_takeD)

lemma claim_candidates_map:
  assumes "db_fits ok okh s" "ok (cr_Now req)"
  shows "claim_candidates codec_of (map_db fmt enc s) req = map (map_message_row fmt enc) (claim_candidates plain_codec s req)"
proof -
  have av: "ok (mr_available_at r)" if "r \<in> set (db_messages s)" for r
    using message_row_ok [OF assms(1) that] by (simp add: message_fits_def)
  let ?P = "\<lambda>r. mr_queue r = cr_Queue req \<and> mr_state r \<in> {StateQueued, StateRetrying} \<and> mr_available_at r \<le> cr_Now req"
  have rows: "filter (\<lambda>r. mr_queue r = cr_Queue req \<and> mr_state r \<in> {StateQueued, StateRetrying} \<and>
        mr_available_at r \<le> fmt (cr_Now req)) (map (map_message_row fmt enc) (db_messages s)) =
      map (map_message_row fmt enc) (filter ?P (db_messages s))"
    unfolding filter_map by (intro arg_cong [where f = "map _"] filter_cong refl) (auto simp: fmt_order av assms(2))
  have "sort_key (\<lambda>r. (fmt (mr_available_at r), mr_seq r)) (filter ?P (db_messages s)) =
      sort_key (\<lambda>r. (mr_available_at r, mr_seq r)) (filter ?P (db_messages s))"
    by (rule sort_key_cong_order) (auto simp: less_eq_prod_def fmt_order fmt_inj av less_le)
  then show ?thesis
    unfolding claim_candidates_def map_db_sel codec.simps plain_codec_sel rows sort_key_map map_row_sel sql_limit_map
    by (simp only:)
qed

lemma Claim_map:
  assumes "db_fits ok okh s" "ok (cr_Now req)"
  shows "sqlite_Claim codec_of io (map_db fmt enc s) req = apsnd (map_db fmt enc) (sqlite_Claim plain_codec io s req)"
proof -
  have sub: "set (claim_candidates plain_codec s req) \<subseteq> set (db_messages s)"
    unfolding claim_candidates_def using sql_limit_subset by fastforce
  show ?thesis
  proof (cases "cr_Limit req \<le> 0")
    case False
    then show ?thesis
      unfolding sqlite_Claim_def claim_candidates_map [OF assms] if_not_P [OF False] map_db_then
        then_map [of _ _ _ "map (map_message_row fmt enc)"] wrap_map bind_map
      by (intro transaction_commutes)
        (simp add: db_then_def bind_sum_def wrap_def scan_messages [OF assms(1) sub] claim_rows_map
          split: option.split sum.split)
  qed (simp add: sqlite_Claim_def)
qed

lemma ExpiredLeases_map:
  assumes "db_fits ok okh s" "ok now"
  shows "sqlite_ExpiredLeases codec_of io (map_db fmt enc s) now n = sqlite_ExpiredLeases plain_codec io s now n"
proof -
  have lease: "ok t" if "r \<in> set (db_messages s)" "mr_lease_expires_at r = Some t" for r t
    using message_row_ok [OF assms(1) that(1)] that(2) by (simp add: message_fits_def)
  define rows where "rows = sort_key mr_seq (filter (\<lambda>r. mr_state r = StateProcessing \<and>
      (case mr_lease_expires_at r of None \<Rightarrow> False | Some l \<Rightarrow> l \<le> now)) (db_messages s))"
  have "filter (\<lambda>r. mr_state r = StateProcessing \<and>
        (case mr_lease_expires_at r of None \<Rightarrow> False | Some l \<Rightarrow> l \<le> fmt now)) (map (map_message_row fmt enc) (db_messages s)) =
      map (map_message_row fmt enc) (filter (\<lambda>r. mr_state r = StateProcessing \<and>
        (case mr_lease_expires_at r of None \<Rightarrow> False | Some l \<Rightarrow> l \<le> now)) (db_messages s))"
    unfolding filter_map
    by (intro arg_cong [where f = "map _"] filter_cong refl) (auto simp: fmt_order lease assms(2) split: option.split)
  then have sorted: "sort_key mr_seq (filter (\<lambda>r. mr_state r = StateProcessing \<and>
        (case mr_lease_expires_at r of None \<Rightarrow> False | Some l \<Rightarrow> l \<le> fmt now)) (map (map_message_row fmt enc) (db_messages s))) =
      map (map_message_row fmt enc) rows"
    by (simp add: sort_key_map rows_def)
  have sub: "set (sql_limit k rows) \<subseteq> set (db_messages s)" for k
    using sql_limit_subset [of k rows] by (auto simp: rows_def)
  show ?thesis
    unfolding sqlite_ExpiredLeases_def Let_def map_db_sel codec.simps plain_codec_sel sorted rows_def [symmetric]
      sql_limit_map map_db_then then_map [of _ _ _ "map (map_message_row fmt enc)"] wrap_map bind_map
    by (simp add: db_then_def bind_sum_def wrap_def scan_messages [OF assms(1) sub] split: option.split)
qed

lemma count_queues_map [simp]: "count_queues io (map_db fmt enc s) q = count_queues io s q"
  by (simp add: count_queues_def map_query_row filter_map comp_def)

lemma state_counts_map [simp]: "state_counts (map_db fmt enc s) q = state_counts s q"
  by (simp add: state_counts_def filter_map comp_def)

lemma Depth_map: "sqlite_Depth io (map_db fmt enc s) q = sqlite_Depth io s q"
proof -
  have "scan_rows io (map_db fmt enc s) f k rows = scan_rows io s f k rows" 
    for f :: "nat \<Rightarrow> State \<times> int \<Rightarrow> error + State \<times> int" and k rows
    by (induction rows arbitrary: k) simp_all
  then show ?thesis unfolding sqlite_Depth_def by (simp only: map_db_then count_queues_map state_counts_map)
qed

lemma filter_messages_map:
  assumes "\<And>r. P' (map_message_row fmt enc r) = P r"
  shows "(map_db fmt enc s)\<lparr>db_messages := filter P' (db_messages (map_db fmt enc s))\<rparr> =
    map_db fmt enc (s\<lparr>db_messages := filter P (db_messages s)\<rparr>)"
  by (simp add: map_db_def filter_map comp_def assms)

lemma Purge_map: "sqlite_Purge io (map_db fmt enc s) q = apsnd (map_db fmt enc) (sqlite_Purge io s q)"
proof -
  define pre where "pre = ''sqlite: purge '' @ q @ '': ''"
  have gone: "(map_db fmt enc s)\<lparr>db_messages := filter (\<lambda>r. \<not> (mr_queue r = q \<and> mr_state r \<notin> {StateAcknowledged, StateDeadLettered}))
        (db_messages (map_db fmt enc s))\<rparr> =
      map_db fmt enc (s\<lparr>db_messages := filter (\<lambda>r. \<not> (mr_queue r = q \<and> mr_state r \<notin> {StateAcknowledged, StateDeadLettered}))
        (db_messages s)\<rparr>)"
    by (rule filter_messages_map) simp
  have count: "length (filter (\<lambda>r. mr_queue r = q \<and> mr_state r \<notin> {StateAcknowledged, StateDeadLettered}) (db_messages (map_db fmt enc s))) =
      length (filter (\<lambda>r. mr_queue r = q \<and> mr_state r \<notin> {StateAcknowledged, StateDeadLettered}) (db_messages s))"
    by (simp add: filter_map comp_def)
  show ?thesis
    unfolding sqlite_Purge_def Let_def count_queues_map map_db_then gone count pre_def [symmetric]
    by (cases "wrap pre (count_queues io s q)"; cases "wrap pre (db_then io s (DbExec 0) (Inr ()))")
      (simp_all del: wrap_Inr)
qed

subsection \<open>Dead letters\<close>

lemma SaveDeadLetter_map:
  assumes "op_fits ok okh (OpSaveDeadLetter d i)"
  shows "sqlite_SaveDeadLetter codec_of io (map_db fmt enc s) d i = apsnd (map_db fmt enc) (sqlite_SaveDeadLetter plain_codec io s d i)"
proof -
  define e where "e = (if dl_ID d = [] then d\<lparr>dl_ID := i\<rparr> else d)"
  then have "okh (dl_Headers e)" using assms by simp
  then show ?thesis
    unfolding sqlite_SaveDeadLetter_def Let_def e_def [symmetric]
    by (intro autocommit_commutes)
      (simp add: encodes bind_sum_def db_then_def list_ex_iff split: option.split, simp add: map_db_def map_dead_row_def)
qed

lemma scan_dead:
  assumes "dead_fits ok okh r"
  shows "scanDeadLetter codec_of io (map_db fmt enc s) k (map_dead_row fmt enc r) = scanDeadLetter plain_codec io s k r"
  using assms by (simp add: scanDeadLetter_def map_dead_row_def dead_fits_def prs_fmt decodes)

lemma DeadLetters_map:
  assumes "db_fits ok okh s"
  shows "sqlite_DeadLetters codec_of io (map_db fmt enc s) f = sqlite_DeadLetters plain_codec io s f"
proof -
  define rows where "rows = (if df_Queue (Normalise f) \<noteq> []
    then filter (\<lambda>r. dr_queue r = df_Queue (Normalise f)) (db_dead_letters s) else db_dead_letters s)"
  have sub: "set rows \<subseteq> set (db_dead_letters s)" by (auto simp: rows_def)
  then have dead: "ok (dr_dead_lettered_at r)" if "r \<in> set rows" for r
    using dead_row_ok [OF assms, of r] that by (auto simp: dead_fits_def)
  have rows': "(if df_Queue (Normalise f) \<noteq> []
      then filter (\<lambda>r. dr_queue r = df_Queue (Normalise f)) (map (map_dead_row fmt enc) (db_dead_letters s))
      else map (map_dead_row fmt enc) (db_dead_letters s)) = map (map_dead_row fmt enc) rows"
    by (simp add: rows_def filter_map comp_def)
  have sorted: "sort_key (\<lambda>r. (fmt (dr_dead_lettered_at r), dr_id r)) rows = sort_key (\<lambda>r. (dr_dead_lettered_at r, dr_id r)) rows"
    by (rule sort_key_cong_order) (auto simp: less_eq_prod_def fmt_order fmt_inj dead less_le)
  define page where "page = sql_limit (df_Limit (Normalise f)) (drop (nat (df_Offset (Normalise f)))
    (rev (sort_key (\<lambda>r. (dr_dead_lettered_at r, dr_id r)) rows)))"
  have "set page \<subseteq> set (db_dead_letters s)"
    using sub sql_limit_subset unfolding page_def by (fastforce dest: in_set_dropD)
  then have "scan_rows io (map_db fmt enc s) (scanDeadLetter codec_of io (map_db fmt enc s)) 0 (map (map_dead_row fmt enc) page) =
      scan_rows io s (scanDeadLetter plain_codec io s) 0 page"
    by (intro map_scan_rows scan_dead dead_row_ok [OF assms]) blast
  then show ?thesis
    unfolding sqlite_DeadLetters_def Let_def map_db_sel rows' rows_def [symmetric] sort_key_map map_row_sel sorted
      rev_map [symmetric] drop_map [symmetric] sql_limit_map page_def [symmetric] map_db_then
    by (simp add: db_then_def bind_sum_def wrap_def rev_map drop_map sql_limit_map page_def [symmetric] split: option.split)
qed

lemma DeadLetter_map:
  assumes "db_fits ok okh s"
  shows "sqlite_DeadLetter codec_of io (map_db fmt enc s) i = sqlite_DeadLetter plain_codec io s i"
proof -
  have "(case filter (\<lambda>r. dr_id r = i) (db_dead_letters (map_db fmt enc s)) of
      [] \<Rightarrow> Inl ErrNoRows | r # _ \<Rightarrow> scanDeadLetter codec_of io (map_db fmt enc s) 0 r) =
    (case filter (\<lambda>r. dr_id r = i) (db_dead_letters s) of
      [] \<Rightarrow> Inl ErrNoRows | r # _ \<Rightarrow> scanDeadLetter plain_codec io s 0 r)"
  proof (cases "filter (\<lambda>r. dr_id r = i) (db_dead_letters s)")
    case (Cons r rs)
    then have "r \<in> set (db_dead_letters s)" by (rule filter_head)
    with Cons show ?thesis using scan_dead [OF dead_row_ok [OF assms]] by (simp add: filter_map comp_def)
  qed (simp add: filter_map comp_def)
  then show ?thesis unfolding sqlite_DeadLetter_def map_db_then by (simp only:)
qed

lemma dead_affecting_map:
  "sqlite_MarkDeadLetterReplayed codec_of io (map_db fmt enc s) i as t =
    apsnd (map_db fmt enc) (sqlite_MarkDeadLetterReplayed plain_codec io s i as t)"
  "sqlite_DeleteDeadLetter io (map_db fmt enc s) i = apsnd (map_db fmt enc) (sqlite_DeleteDeadLetter io s i)"
  "sqlite_CountDeadLetters io (map_db fmt enc s) q = sqlite_CountDeadLetters io s q"
    unfolding sqlite_MarkDeadLetterReplayed_def sqlite_DeleteDeadLetter_def
    by (rule exec_affecting_commutes; auto simp: filter_map comp_def map_db_def map_dead_row_def)+
      (simp add: sqlite_CountDeadLetters_def map_query_row filter_map comp_def)

subsection \<open>History and topology\<close>

lemma AppendHistory_map:
  "sqlite_AppendHistory codec_of io (map_db fmt enc s) h = apsnd (map_db fmt enc) (sqlite_AppendHistory plain_codec io s h)"
  unfolding sqlite_AppendHistory_def
  by (intro err_of_commutes autocommit_commutes, unfold map_db_then wrap_map [symmetric] map_then)
    (simp add: map_db_def map_history_row_def)

lemma read_rows:
  assumes "\<And>k r. r \<in> set rows \<Longrightarrow> scan' k (g r) = scan k r"
  shows "bind_sum (wrap pre (db_then io (map_db fmt enc s) call (Inr (map g rows)))) (\<lambda>rs. scan_rows io (map_db fmt enc s) scan' 0 rs) =
    bind_sum (wrap pre (db_then io s call (Inr rows))) (\<lambda>rs. scan_rows io s scan 0 rs)"
proof -
  have "scan_rows io (map_db fmt enc s) scan' 0 (map g rows) = scan_rows io s scan 0 rows"
    by (rule map_scan_rows) (rule assms)
  then show ?thesis by (simp add: db_then_def bind_sum_def wrap_def split: option.split)
qed

lemma History_map:
  assumes "db_fits ok okh s"
  shows "sqlite_History codec_of io (map_db fmt enc s) i = sqlite_History plain_codec io s i"
proof -
  have "sort_key hr_id (filter (\<lambda>r. hr_message_id r = i) (db_history (map_db fmt enc s))) =
      map (map_history_row fmt) (sort_key hr_id (filter (\<lambda>r. hr_message_id r = i) (db_history s)))"
    by (simp add: filter_map comp_def sort_key_map)
  then show ?thesis
    unfolding sqlite_History_def
    by (simp only:, intro read_rows)
      (use topology_rows_ok(4) [OF assms] in \<open>simp add: scan_history_def map_history_row_def prs_fmt\<close>)
qed

lemma topology_reads_map:
  assumes "db_fits ok okh s"
  shows "sqlite_Exchanges codec_of io (map_db fmt enc s) = sqlite_Exchanges plain_codec io s"
    "sqlite_Queues codec_of io (map_db fmt enc s) = sqlite_Queues plain_codec io s"
    "sqlite_Bindings codec_of io (map_db fmt enc s) = sqlite_Bindings plain_codec io s"
  unfolding sqlite_Exchanges_def sqlite_Queues_def sqlite_Bindings_def map_db_sel sort_key_map map_row_sel
  by (rule read_rows; use topology_rows_ok [OF assms] in
      \<open>simp add: scan_exchange_def scan_queue_def scan_binding_def map_row_defs prs_fmt\<close>)+

lemma SaveExchange_map:
  "sqlite_SaveExchange codec_of io (map_db fmt enc s) x = apsnd (map_db fmt enc) (sqlite_SaveExchange plain_codec io s x)"
proof -
  have "upsert (\<lambda>r. xr_name r = n) (\<lambda>r. r\<lparr>xr_kind := k, xr_durable := d\<rparr>)
      \<lparr>xr_name = n, xr_kind = k, xr_durable = d, xr_created_at = fmt t\<rparr> (map (map_exchange_row fmt) (db_exchanges s)) =
    map (map_exchange_row fmt) (upsert (\<lambda>r. xr_name r = n) (\<lambda>r. r\<lparr>xr_kind := k, xr_durable := d\<rparr>)
      \<lparr>xr_name = n, xr_kind = k, xr_durable = d, xr_created_at = t\<rparr> (db_exchanges s))" for n k d t
    by (rule upsert_map) (simp_all add: map_exchange_row_def)
  then show ?thesis
    unfolding sqlite_SaveExchange_def Let_def
    by (intro err_of_commutes autocommit_commutes, unfold map_db_then wrap_map [symmetric] map_then)
      (simp add: map_db_def)
qed

lemma SaveQueue_map:
  "sqlite_SaveQueue codec_of io (map_db fmt enc s) q = apsnd (map_db fmt enc) (sqlite_SaveQueue plain_codec io s q)"
proof -
  have "upsert (\<lambda>r. qr_name r = n)
      (\<lambda>r. r\<lparr>qr_durable := d, qr_max_attempts := a, qr_visibility_timeout_ms := v, qr_schema_name := c\<rparr>)
      \<lparr>qr_name = n, qr_durable = d, qr_max_attempts = a, qr_visibility_timeout_ms = v, qr_schema_name = c,
        qr_created_at = fmt t\<rparr> (map (map_queue_row fmt) (db_queues s)) =
    map (map_queue_row fmt) (upsert (\<lambda>r. qr_name r = n)
      (\<lambda>r. r\<lparr>qr_durable := d, qr_max_attempts := a, qr_visibility_timeout_ms := v, qr_schema_name := c\<rparr>)
      \<lparr>qr_name = n, qr_durable = d, qr_max_attempts = a, qr_visibility_timeout_ms = v, qr_schema_name = c,
        qr_created_at = t\<rparr> (db_queues s))" for n d a v c t
    by (rule upsert_map) (simp_all add: map_queue_row_def)
  then show ?thesis
    unfolding sqlite_SaveQueue_def Let_def
    by (intro err_of_commutes autocommit_commutes, unfold map_db_then wrap_map [symmetric] map_then)
      (simp add: map_db_def)
qed

lemma SaveBinding_map:
  "sqlite_SaveBinding codec_of io (map_db fmt enc s) b = apsnd (map_db fmt enc) (sqlite_SaveBinding plain_codec io s b)"
proof -
  have "upsert (\<lambda>r. br_exchange r = x \<and> br_queue r = q \<and> br_routing_key r = k) (\<lambda>r. r)
      \<lparr>br_exchange = x, br_queue = q, br_routing_key = k, br_created_at = fmt t\<rparr> (map (map_binding_row fmt) (db_bindings s)) =
    map (map_binding_row fmt) (upsert (\<lambda>r. br_exchange r = x \<and> br_queue r = q \<and> br_routing_key r = k) (\<lambda>r. r)
      \<lparr>br_exchange = x, br_queue = q, br_routing_key = k, br_created_at = t\<rparr> (db_bindings s))" for x q k t
    by (rule upsert_map) (simp_all add: map_binding_row_def)
  then show ?thesis
    unfolding sqlite_SaveBinding_def Let_def
    by (intro err_of_commutes autocommit_commutes, unfold map_db_then wrap_map [symmetric] map_then)
      (simp add: map_db_def)
qed

lemma DeleteBinding_map: "sqlite_DeleteBinding io (map_db fmt enc s) b = apsnd (map_db fmt enc) (sqlite_DeleteBinding io s b)"
  unfolding sqlite_DeleteBinding_def Let_def
  by (rule exec_affecting_commutes) (auto simp: filter_map comp_def map_db_def)

lemma DeleteQueue_map: "sqlite_DeleteQueue io (map_db fmt enc s) q = apsnd (map_db fmt enc) (sqlite_DeleteQueue io s q)"
  unfolding sqlite_DeleteQueue_def Let_def
  by (intro err_of_commutes transaction_commutes)
    (cases "db_answer io s (DbExec 0)"; cases "db_answer io s DbAffected"; cases "db_answer io s (DbExec 1)";
      simp add: db_then_def bind_sum_def wrap_def filter_map comp_def, (simp add: map_db_def filter_map comp_def)?)

lemma Close_map: "sqlite_Close io (map_db fmt enc s) = apsnd (map_db fmt enc) (sqlite_Close io s)"
  by (simp add: sqlite_Close_def map_db_def)

lemmas all_map = Append_map leased_map MarkDeadLettered_map Claim_map ExpiredLeases_map load_message(2) Depth_map
  Purge_map SaveDeadLetter_map DeadLetters_map DeadLetter_map dead_affecting_map AppendHistory_map History_map
  topology_reads_map SaveExchange_map SaveQueue_map SaveBinding_map DeleteBinding_map DeleteQueue_map Close_map

lemma apfst_apsnd: "apfst f (apsnd g r) = apsnd g (apfst f r)"
  by (cases r) simp

lemma exec_map:
  assumes "db_fits ok okh s" "op_fits ok okh op"
  shows "exec (sqlite_store codec_of io) (map_db fmt enc s) op =
    apsnd (map_db fmt enc) (exec (sqlite_store plain_codec io) s op)"
  using assms by (cases op) (simp_all add: sqlite_store_def all_map apfst_apsnd)

end

section \<open>What the tables hold comes from the calls\<close>

lemma Transition_at: "Transition m st t = Inr m' \<Longrightarrow> msg_UpdatedAt m' = t"
  by (auto simp: Transition_Inr_iff)

lemma insert_message_times:
  assumes "insert_message plain_codec io k s m (msg_Headers m) = Inr s'" "db_fits P Q s" "op_fits P Q (OpAppend [m])"
  shows "db_fits P Q s'"
  using assms by (auto simp: insert_message_def db_fits_def message_fits_def split: if_splits)

lemma append_rows_times:
  "append_rows plain_codec io k s ms = Inr s' \<Longrightarrow> db_fits P Q s \<Longrightarrow> op_fits P Q (OpAppend ms) \<Longrightarrow> db_fits P Q s'"
proof (induction ms arbitrary: s k)
  case (Cons m ms)
  from Cons.prems(1) obtain s1 where one: "insert_message plain_codec io k s m (msg_Headers m) = Inr s1"
    and rest: "append_rows plain_codec io (Suc k) s1 ms = Inr s'"
    by (auto split: sum.splits)
  from one Cons.prems(2,3) have "db_fits P Q s1" by (auto elim!: insert_message_times)
  with Cons.IH [OF rest] Cons.prems(3) show ?case by simp
qed simp

lemma update_message_times:
  assumes "update_message io k s i f = Inr s'" "db_fits P Q s"
    "\<And>r. message_fits P Q r \<Longrightarrow> message_fits P Q (f r)"
  shows "db_fits P Q s'"
  using assms by (auto simp: update_message_def db_fits_def)

lemma claim_rows_times:
  "claim_rows plain_codec io req k s ms cl = Inr (res, s') \<Longrightarrow> db_fits P Q s \<Longrightarrow>
    op_fits P Q (OpClaim req) \<Longrightarrow> db_fits P Q s'"
proof (induction ms arbitrary: s k cl)
  case (Cons m ms)
  from Cons.prems(1) obtain m1 m2 s1 cl1 where two: "Transition m1 StateProcessing (cr_Now req) = Inr m2"
    and up: "update_message io k s (msg_ID m2) (\<lambda>r. r\<lparr>mr_state := msg_State m2, mr_attempts := msg_Attempts m2 + 1,
      mr_updated_at := msg_UpdatedAt m2, mr_lease_expires_at := Some (cr_Now req + cr_Lease req),
      mr_consumer := cr_Consumer req\<rparr>) = Inr s1"
    and rest: "claim_rows plain_codec io req (Suc k) s1 ms cl1 = Inr (res, s')"
    by (auto simp: Let_def)
  from up Cons.prems(2) have "db_fits P Q s1"
    by (rule update_message_times) (use Cons.prems(3) Transition_at [OF two] in \<open>auto simp: message_fits_def\<close>)
  with Cons.IH [OF rest] Cons.prems(3) show ?case by simp
qed simp

lemma transitionLeased_times:
  assumes "db_fits P Q s" "\<And>m tx. ap s m = Inr tx \<Longrightarrow> db_fits P Q tx"
  shows "db_fits P Q (snd (transitionLeased c io s i ap))"
  unfolding transitionLeased_def err_of_sel
  by (rule transaction_pres) (use assms in \<open>auto split: if_splits\<close>)

lemma message_op_times:
  assumes "db_fits P Q s"
  shows "op_fits P Q (OpAcknowledge i t) \<Longrightarrow> db_fits P Q (snd (sqlite_Acknowledge plain_codec io s i t))"
    "op_fits P Q (OpScheduleRetry req) \<Longrightarrow> db_fits P Q (snd (sqlite_ScheduleRetry plain_codec io s req))"
    "op_fits P Q (OpRelease i t) \<Longrightarrow> db_fits P Q (snd (sqlite_Release plain_codec io s i t))"
    "op_fits P Q (OpMarkDeadLettered i r t) \<Longrightarrow> db_fits P Q (snd (sqlite_MarkDeadLettered plain_codec io s i r t))"
    "op_fits P Q (OpAppend ms) \<Longrightarrow> db_fits P Q (snd (sqlite_Append plain_codec io s ms))"
    "op_fits P Q (OpClaim creq) \<Longrightarrow> db_fits P Q (snd (sqlite_Claim plain_codec io s creq))"
  subgoal unfolding sqlite_Acknowledge_def
    by (rule transitionLeased_times [OF assms])
      (auto elim!: update_message_times [OF _ assms] dest!: Transition_at simp: message_fits_def)
  subgoal unfolding sqlite_ScheduleRetry_def
    by (rule transitionLeased_times [OF assms])
      (auto elim!: update_message_times [OF _ assms] dest!: Transition_at simp: message_fits_def)
  subgoal unfolding sqlite_Release_def
    by (rule transitionLeased_times [OF assms])
      (auto elim!: update_message_times [OF _ assms] dest!: Transition_at simp: message_fits_def)
  subgoal unfolding sqlite_MarkDeadLettered_def err_of_sel
    by (rule transaction_pres, rule assms)
      (auto elim!: update_message_times [OF _ assms] dest!: Transition_at simp: message_fits_def)
  subgoal unfolding sqlite_Append_def
    by (auto intro!: transaction_pres [where P = "\<lambda>s. db_fits P Q s"] simp: assms
        elim!: append_rows_times [OF _ assms] simp del: append_rows.simps)
  subgoal unfolding sqlite_Claim_def
    by (auto intro!: transaction_pres [where P = "\<lambda>s. db_fits P Q s"] simp: assms
        elim!: claim_rows_times [OF _ assms])
  done

lemma other_op_times:
  assumes "db_fits P Q s"
  shows "db_fits P Q (snd (sqlite_Purge io s q))"
    "db_fits P Q (snd (sqlite_DeleteQueue io s q))"
    "db_fits P Q (snd (sqlite_DeleteDeadLetter io s i))"
    "db_fits P Q (snd (sqlite_DeleteBinding io s b))"
    "db_fits P Q (snd (sqlite_Close io s))"
    "P t \<Longrightarrow> db_fits P Q (snd (sqlite_MarkDeadLetterReplayed plain_codec io s i as t))"
    "op_fits P Q (OpSaveDeadLetter d fresh) \<Longrightarrow>
      db_fits P Q (snd (sqlite_SaveDeadLetter plain_codec io s d fresh))"
    "P (he_At h) \<Longrightarrow> db_fits P Q (snd (sqlite_AppendHistory plain_codec io s h))"
  subgoal using assms by (auto simp: sqlite_Purge_def Let_def db_fits_def split: sum.split)
  subgoal unfolding sqlite_DeleteQueue_def Let_def err_of_sel
    by (rule transaction_pres, rule assms) (use assms in \<open>auto simp: db_fits_def split: if_splits\<close>)
  subgoal using assms by (auto simp: sqlite_DeleteDeadLetter_def exec_affecting_def db_fits_def split: option.split)
  subgoal using assms by (auto simp: sqlite_DeleteBinding_def Let_def exec_affecting_def db_fits_def split: option.split)
  subgoal using assms by (simp add: sqlite_Close_def db_fits_def)
  subgoal using assms
    by (auto simp: sqlite_MarkDeadLetterReplayed_def exec_affecting_def db_fits_def dead_fits_def split: option.split)
  subgoal unfolding sqlite_SaveDeadLetter_def Let_def
    by (rule autocommit_pres, rule assms)
      (use assms in \<open>auto simp: db_then_def db_fits_def dead_fits_def split: sum.splits option.splits if_splits\<close>)
  subgoal unfolding sqlite_AppendHistory_def err_of_sel
    by (rule autocommit_pres, rule assms) (use assms in \<open>auto simp: db_fits_def\<close>)
  done

lemma save_op_times:
  assumes "db_fits P Q s"
  shows "P (ex_CreatedAt x) \<Longrightarrow> db_fits P Q (snd (sqlite_SaveExchange plain_codec io s x))"
    "P (q_CreatedAt q) \<Longrightarrow> db_fits P Q (snd (sqlite_SaveQueue plain_codec io s q))"
    "P (b_CreatedAt b) \<Longrightarrow> db_fits P Q (snd (sqlite_SaveBinding plain_codec io s b))"
  unfolding sqlite_SaveExchange_def sqlite_SaveQueue_def sqlite_SaveBinding_def Let_def err_of_sel
  by (rule autocommit_pres [where P = "\<lambda>s. db_fits P Q s"];
      use assms in \<open>auto simp: db_fits_def upsert_def split: if_splits\<close>)+

lemma exec_times:
  assumes "db_fits P Q s" "op_fits P Q op"
  shows "db_fits P Q (snd (exec (sqlite_store plain_codec io) s op))"
  using assms by (cases op) (simp_all add: sqlite_store_def message_op_times other_op_times save_op_times)

section \<open>The columns of the real database\<close>

text \<open>\<open>json.Marshal\<close> and \<open>json.Unmarshal\<close> on maps of strings belong to Go's library: they are the arguments \<open>M\<close> and \<open>U\<close>.\<close>

definition encodeHeaders :: "(Headers \<Rightarrow> error + string) \<Rightarrow> Headers \<Rightarrow> error + string" where
  "encodeHeaders M headers =
    (if headers = [] then Inr ''{}'' else wrap ''sqlite: encode headers: '' (M headers))"

definition decodeHeaders :: "(string \<Rightarrow> error + Headers) \<Rightarrow> string \<Rightarrow> error + Headers" where
  "decodeHeaders U raw =
    (if raw = [] \<or> raw = ''{}'' then Inr [] else wrap ''sqlite: decode headers: '' (U raw))"

definition text_codec ::
  "(Headers \<Rightarrow> error + string) \<Rightarrow> (string \<Rightarrow> error + Headers) \<Rightarrow> (string, string) codec" where
  "text_codec M U = \<lparr> cd_formatTime = formatTime, cd_parseTime = parseTime,
     cd_encodeHeaders = encodeHeaders M, cd_decodeHeaders = decodeHeaders U \<rparr>"

text \<open>Headers that survive JSON: no headers at all, or a map whose text is read back as the same map.\<close>

definition headers_fit :: "(Headers \<Rightarrow> error + string) \<Rightarrow> (string \<Rightarrow> error + Headers) \<Rightarrow> Headers \<Rightarrow> bool" where
  "headers_fit M U h \<longleftrightarrow> h = [] \<or>
    (case M h of Inl _ \<Rightarrow> False | Inr raw \<Rightarrow> raw \<notin> {[], ''{}''} \<and> U raw = Inr h)"

definition header_text :: "(Headers \<Rightarrow> error + string) \<Rightarrow> Headers \<Rightarrow> string" where
  "header_text M h = (case encodeHeaders M h of Inl _ \<Rightarrow> [] | Inr raw \<Rightarrow> raw)"

interpretation iso: column_codec formatTime parseTime text_range "header_text M" "encodeHeaders M" "decodeHeaders U" "headers_fit M U"
  for M U
  by unfold_locales (auto simp: time_text_roundtrip time_text_order headers_fit_def header_text_def encodeHeaders_def
      decodeHeaders_def wrap_def split: sum.splits)

lemma run_text:
  assumes "db_fits text_range (headers_fit M U) s" "\<forall>op \<in> set ops. op_fits text_range (headers_fit M U) op"
  shows "run (sqlite_store (text_codec M U) io) (map_db formatTime (header_text M) s) ops =
    apsnd (map_db formatTime (header_text M)) (run (sqlite_store plain_codec io) s ops)"
  using assms
proof (induction ops arbitrary: s)
  case (Cons op ops)
  obtain r s1 where one: "exec (sqlite_store plain_codec io) s op = (r, s1)" by fastforce
  then have "db_fits text_range (headers_fit M U) s1"
    using exec_times [of text_range "headers_fit M U" s op io] Cons.prems by simp
  moreover have "exec (sqlite_store (text_codec M U) io) (map_db formatTime (header_text M) s) op =
      (r, map_db formatTime (header_text M) s1)"
    using iso.exec_map [of M U s op io] Cons.prems one by (simp add: text_codec_def)
  ultimately show ?case using Cons.IH [of s1] Cons.prems(2) one by (simp add: case_prod_beta Let_def)
qed simp


definition ex_marshal :: "Headers \<Rightarrow> error + string" where
  "ex_marshal h = (case h of [(k, v)] \<Rightarrow> Inr (''{'' @ k @ '':'' @ v @ ''}'') | _ \<Rightarrow> Inl (ErrNew ''unsupported''))"

definition ex_unmarshal :: "string \<Rightarrow> error + Headers" where
  "ex_unmarshal raw = (let body = butlast (tl raw) in
     Inr [(takeWhile (\<lambda>c. c \<noteq> CHR '':'') body, tl (dropWhile (\<lambda>c. c \<noteq> CHR '':'') body))])"

definition ex_calls :: "store_op list" where
  "ex_calls =
    [OpAppend [ex_stored, ex_stored\<lparr>msg_ID := ''m2'', msg_AvailableAt := 5, msg_Headers := [(''trace'', ''7'')]\<rparr>],
     OpClaim \<lparr> cr_Queue = ''billing'', cr_Consumer = ''worker'', cr_Limit = 1, cr_Lease = 30 * second, cr_Now = 20 \<rparr>]"


end
