(* ===== verification/SqliteMigrate.thy ===== *)
theory SqliteMigrate
  imports SqliteTime Sqlite
begin

text \<open>
  Opening a SQLite database: \<open>Options\<close>, \<open>Open\<close> and \<open>dataSourceName\<close> of \<open>sqlite.go\<close>, and the
  migrations of \<open>migrate.go\<close>. The state is the catalog of the database file: its tables with
  their columns, its indexes, and the rows of \<open>schema_migrations\<close>. The driver's answer to each call is an
  argument, and a migration whose transaction does not commit leaves no trace. An
  opening may fail at any call; the theorem at the end says that a later one finishes the work.
\<close>

section \<open>The catalog\<close>

datatype column_type = TEXT | INTEGER | BLOB

datatype column_rule = PrimaryKey | Autoincrement | NotNull | Unique | DefaultInt int | DefaultText string

type_synonym column = "string \<times> column_type \<times> column_rule list"

record migration_row =
  gr_version :: int
  gr_name :: string
  gr_applied_at :: string

text \<open>A table is its name, its columns and the columns of its composite primary key; an index its name, its
  table and its columns. \<open>ct_migrations\<close> is \<open>None\<close> before the table \<open>schema_migrations\<close> exists.\<close>

record Catalog =
  ct_tables :: "(string \<times> column list \<times> string list) list"
  ct_indexes :: "(string \<times> string \<times> string list) list"
  ct_migrations :: "migration_row list option"

definition empty_catalog :: Catalog where
  "empty_catalog = \<lparr> ct_tables = [], ct_indexes = [], ct_migrations = None \<rparr>"

datatype statement =
    CreateTable string "column list" "string list" \<comment> \<open>\<open>CREATE TABLE IF NOT EXISTS\<close>\<close>
  | CreateIndex string string "string list" \<comment> \<open>\<open>CREATE INDEX IF NOT EXISTS\<close>\<close>

fun run_statement :: "statement \<Rightarrow> Catalog \<Rightarrow> error + Catalog" where
  "run_statement (CreateTable name columns key) c =
    Inr (if name \<in> fst ` set (ct_tables c) then c
         else c\<lparr>ct_tables := ct_tables c @ [(name, columns, key)]\<rparr>)"
| "run_statement (CreateIndex name table columns) c =
    (if name \<in> fst ` set (ct_indexes c) then Inr c
     else if table \<notin> fst ` set (ct_tables c) then Inl (SqliteError 1 (''no such table: main.'' @ table))
     else Inr (c\<lparr>ct_indexes := ct_indexes c @ [(name, table, columns)]\<rparr>))"

section \<open>The migrations\<close>

record migration =
  mg_version :: int
  mg_name :: string
  mg_statements :: "statement list"

definition migrations :: "migration list" where
  "migrations =
    [\<lparr> mg_version = 1, mg_name = ''topology'', mg_statements =
        [CreateTable ''exchanges''
           [(''name'', TEXT, [PrimaryKey]),
            (''kind'', TEXT, [NotNull]),
            (''durable'', INTEGER, [NotNull, DefaultInt 0]),
            (''created_at'', TEXT, [NotNull])]
           [],
         CreateTable ''queues''
           [(''name'', TEXT, [PrimaryKey]),
            (''durable'', INTEGER, [NotNull, DefaultInt 0]),
            (''max_attempts'', INTEGER, [NotNull]),
            (''visibility_timeout_ms'', INTEGER, [NotNull]),
            (''schema_name'', TEXT, [NotNull, DefaultText []]),
            (''created_at'', TEXT, [NotNull])]
           [],
         CreateTable ''bindings''
           [(''exchange'', TEXT, [NotNull]),
            (''queue'', TEXT, [NotNull]),
            (''routing_key'', TEXT, [NotNull]),
            (''created_at'', TEXT, [NotNull])]
           [''exchange'', ''queue'', ''routing_key'']] \<rparr>,
     \<lparr> mg_version = 2, mg_name = ''messages'', mg_statements =
        [CreateTable ''messages''
           [(''seq'', INTEGER, [PrimaryKey, Autoincrement]),
            (''id'', TEXT, [NotNull, Unique]),
            (''queue'', TEXT, [NotNull]),
            (''exchange'', TEXT, [NotNull, DefaultText []]),
            (''routing_key'', TEXT, [NotNull, DefaultText []]),
            (''schema_name'', TEXT, [NotNull, DefaultText []]),
            (''payload'', BLOB, [NotNull]),
            (''headers'', TEXT, [NotNull, DefaultText ''{}'']),
            (''state'', TEXT, [NotNull]),
            (''attempts'', INTEGER, [NotNull, DefaultInt 0]),
            (''max_attempts'', INTEGER, [NotNull, DefaultInt 0]),
            (''last_error'', TEXT, [NotNull, DefaultText []]),
            (''created_at'', TEXT, [NotNull]),
            (''updated_at'', TEXT, [NotNull]),
            (''available_at'', TEXT, [NotNull]),
            (''lease_expires_at'', TEXT, []),
            (''consumer'', TEXT, [NotNull, DefaultText []])]
           [],
         CreateIndex ''idx_messages_ready'' ''messages'' [''queue'', ''state'', ''available_at'', ''seq''],
         CreateIndex ''idx_messages_lease'' ''messages'' [''state'', ''lease_expires_at'']] \<rparr>,
     \<lparr> mg_version = 3, mg_name = ''dead_letters'', mg_statements =
        [CreateTable ''dead_letters''
           [(''id'', TEXT, [PrimaryKey]),
            (''message_id'', TEXT, [NotNull]),
            (''queue'', TEXT, [NotNull]),
            (''exchange'', TEXT, [NotNull, DefaultText []]),
            (''routing_key'', TEXT, [NotNull, DefaultText []]),
            (''schema_name'', TEXT, [NotNull, DefaultText []]),
            (''payload'', BLOB, [NotNull]),
            (''headers'', TEXT, [NotNull, DefaultText ''{}'']),
            (''reason'', TEXT, [NotNull]),
            (''error_kind'', TEXT, [NotNull, DefaultText []]),
            (''attempts'', INTEGER, [NotNull, DefaultInt 0]),
            (''published_at'', TEXT, [NotNull]),
            (''first_failed_at'', TEXT, [NotNull]),
            (''dead_lettered_at'', TEXT, [NotNull]),
            (''replayed_as'', TEXT, [NotNull, DefaultText []]),
            (''replayed_at'', TEXT, [NotNull, DefaultText []]),
            (''replay_count'', INTEGER, [NotNull, DefaultInt 0])]
           [],
         CreateIndex ''idx_dead_letters_queue'' ''dead_letters'' [''queue'', ''dead_lettered_at'']] \<rparr>,
     \<lparr> mg_version = 4, mg_name = ''message_history'', mg_statements =
        [CreateTable ''message_history''
           [(''id'', INTEGER, [PrimaryKey, Autoincrement]),
            (''message_id'', TEXT, [NotNull]),
            (''queue'', TEXT, [NotNull, DefaultText []]),
            (''from_state'', TEXT, [NotNull]),
            (''to_state'', TEXT, [NotNull]),
            (''consumer'', TEXT, [NotNull, DefaultText []]),
            (''detail'', TEXT, [NotNull, DefaultText []]),
            (''at'', TEXT, [NotNull])]
           [],
         CreateIndex ''idx_message_history_message'' ''message_history'' [''message_id'', ''id'']] \<rparr>]"

text \<open>The calls of the driver that an opening makes; those of a migration carry its version.\<close>

datatype open_call =
    OcOpen | OcPing | OcCreate | OcQuery | OcScan nat | OcRows
  | OcBegin int | OcExec int nat | OcRecord int | OcCommit int

type_synonym open_driver = "open_call \<Rightarrow> error option"

definition oc_then :: "open_driver \<Rightarrow> open_call \<Rightarrow> (error + 'b) \<Rightarrow> error + 'b" where
  "oc_then io call next = (case io call of Some err \<Rightarrow> Inl err | None \<Rightarrow> next)"

text \<open>The loop of \<open>applyMigration\<close> over the statements.\<close>

fun run_statements :: "open_driver \<Rightarrow> migration \<Rightarrow> nat \<Rightarrow> statement list \<Rightarrow> Catalog \<Rightarrow> error + Catalog" where
  "run_statements io step k [] c = Inr c"
| "run_statements io step k (st # sts) c =
    bind_sum (wrap (''sqlite: migration '' @ int_text (mg_version step) @ '' ('' @ mg_name step @ ''): '')
        (oc_then io (OcExec (mg_version step) k) (run_statement st c)))
      (\<lambda>c. run_statements io step (Suc k) sts c)"

text \<open>\<open>INSERT INTO schema_migrations\<close>\<close>

definition record_migration :: "migration \<Rightarrow> time \<Rightarrow> Catalog \<Rightarrow> error + Catalog" where
  "record_migration step now c =
    (case ct_migrations c of
       None \<Rightarrow> Inl (SqliteError 1 ''no such table: schema_migrations'')
     | Some rows \<Rightarrow>
         if mg_version step \<in> gr_version ` set rows
         then Inl (SqliteError codeConstraintPrimary
                ''constraint failed: UNIQUE constraint failed: schema_migrations.version (1555)'')
         else Inr (c\<lparr>ct_migrations := Some (rows @
                [\<lparr> gr_version = mg_version step, gr_name = mg_name step, gr_applied_at = formatTime now \<rparr>])\<rparr>))"

text \<open>\<open>now\<close> gives the time of \<open>time.Now()\<close> in the migration of each version.\<close>

definition applyMigration ::
  "open_driver \<Rightarrow> (int \<Rightarrow> time) \<Rightarrow> migration \<Rightarrow> Catalog \<Rightarrow> error option \<times> Catalog" where
  "applyMigration io now step c =
    (let v = mg_version step in
     case wrap (''sqlite: begin migration '' @ int_text v @ '': '') (oc_then io (OcBegin v) (Inr ())) of
       Inl err \<Rightarrow> (Some err, c)
     | Inr _ \<Rightarrow>
         (case bind_sum (run_statements io step 0 (mg_statements step) c) (\<lambda>tx.
             wrap (''sqlite: record migration '' @ int_text v @ '': '')
               (oc_then io (OcRecord v) (record_migration step (now v) tx))) of
            Inl err \<Rightarrow> (Some err, c)
          | Inr tx \<Rightarrow> (case io (OcCommit v) of Some err \<Rightarrow> (Some err, c) | None \<Rightarrow> (None, tx))))"

fun scan_versions :: "open_driver \<Rightarrow> nat \<Rightarrow> migration_row list \<Rightarrow> error + int list" where
  "scan_versions io k [] = oc_then io OcRows (Inr [])"
| "scan_versions io k (r # rs) =
    bind_sum (wrap ''sqlite: scan migration: '' (oc_then io (OcScan k) (Inr (gr_version r))))
      (\<lambda>v. map_sum_ok ((#) v) (scan_versions io (Suc k) rs))"

definition appliedMigrations :: "open_driver \<Rightarrow> Catalog \<Rightarrow> error + int list" where
  "appliedMigrations io c =
    bind_sum (wrap ''sqlite: read migrations: '' (oc_then io OcQuery
        (case ct_migrations c of
           None \<Rightarrow> Inl (SqliteError 1 ''no such table: schema_migrations'')
         | Some rows \<Rightarrow> Inr rows)))
      (\<lambda>rows. scan_versions io 0 rows)"

text \<open>The loop of \<open>migrate\<close>.\<close>

fun apply_pending ::
  "open_driver \<Rightarrow> (int \<Rightarrow> time) \<Rightarrow> int list \<Rightarrow> migration list \<Rightarrow> Catalog \<Rightarrow> error option \<times> Catalog" where
  "apply_pending io now applied [] c = (None, c)"
| "apply_pending io now applied (step # steps) c =
    (if mg_version step \<in> set applied then apply_pending io now applied steps c
     else case applyMigration io now step c of
       (Some err, c) \<Rightarrow> (Some err, c)
     | (None, c) \<Rightarrow> apply_pending io now applied steps c)"

definition create_migration_table :: "Catalog \<Rightarrow> Catalog" where
  "create_migration_table c = (if ct_migrations c = None then c\<lparr>ct_migrations := Some []\<rparr> else c)"

definition migrate :: "open_driver \<Rightarrow> (int \<Rightarrow> time) \<Rightarrow> Catalog \<Rightarrow> error option \<times> Catalog" where
  "migrate io now c =
    (case wrap ''sqlite: create migration table: '' (oc_then io OcCreate (Inr (create_migration_table c))) of
       Inl err \<Rightarrow> (Some err, c)
     | Inr c \<Rightarrow> (case appliedMigrations io c of
         Inl err \<Rightarrow> (Some err, c)
       | Inr applied \<Rightarrow> apply_pending io now applied migrations c))"

section \<open>Opening\<close>

record SqliteOptions =
  lo_DSN :: string
  lo_BusyTimeout :: duration
  lo_JournalMode :: string
  lo_Synchronous :: string
  lo_MaxOpenConns :: int

definition SqliteOptions_withDefaults :: "SqliteOptions \<Rightarrow> SqliteOptions" where
  "SqliteOptions_withDefaults opts =
    (let opts = (if lo_DSN opts = [] then opts\<lparr>lo_DSN := '':memory:''\<rparr> else opts);
         opts = (if lo_BusyTimeout opts = 0 then opts\<lparr>lo_BusyTimeout := 5 * second\<rparr> else opts);
         opts = (if lo_JournalMode opts = [] then opts\<lparr>lo_JournalMode := ''WAL''\<rparr> else opts);
         opts = (if lo_Synchronous opts = [] then opts\<lparr>lo_Synchronous := ''NORMAL''\<rparr> else opts)
     in if lo_MaxOpenConns opts = 0 then opts\<lparr>lo_MaxOpenConns := 1\<rparr> else opts)"

definition dataSourceName :: "SqliteOptions \<Rightarrow> string" where
  "dataSourceName opts =
    (let params =
       [''_pragma=busy_timeout('' @ int_text (Milliseconds (lo_BusyTimeout opts)) @ '')'',
        ''_pragma=journal_mode('' @ lo_JournalMode opts @ '')'',
        ''_pragma=synchronous('' @ lo_Synchronous opts @ '')'',
        ''_pragma=foreign_keys(1)''];
       separator = (if strings_Contains (lo_DSN opts) ''?'' then ''&'' else ''?'')
     in lo_DSN opts @ separator @ strings_Join params ''&'')"

text \<open>The handle of the store: the data source it was opened with and the limit of its pool.\<close>

record SqliteHandle =
  sh_dataSource :: string
  sh_MaxOpenConns :: int

definition sqlite_Open ::
  "open_driver \<Rightarrow> (int \<Rightarrow> time) \<Rightarrow> SqliteOptions \<Rightarrow> Catalog \<Rightarrow> (error + SqliteHandle) \<times> Catalog" where
  "sqlite_Open io now opts c =
    (let opts = SqliteOptions_withDefaults opts in
     case wrap ''sqlite: open: '' (oc_then io OcOpen (Inr ())) of
       Inl err \<Rightarrow> (Inl err, c)
     | Inr _ \<Rightarrow>
         (case wrap ''sqlite: ping: '' (oc_then io OcPing (Inr ())) of
            Inl err \<Rightarrow> (Inl err, c)
          | Inr _ \<Rightarrow> (case migrate io now c of
              (Some err, c) \<Rightarrow> (Inl err, c)
            | (None, c) \<Rightarrow>
                (Inr \<lparr> sh_dataSource = dataSourceName opts, sh_MaxOpenConns = lo_MaxOpenConns opts \<rparr>, c))))"

section \<open>What a number of migrations leaves behind\<close>

fun created_tables :: "statement list \<Rightarrow> (string \<times> column list \<times> string list) list" where
  "created_tables [] = []"
| "created_tables (CreateTable n cols key # sts) = (n, cols, key) # created_tables sts"
| "created_tables (CreateIndex n t cols # sts) = created_tables sts"

fun created_indexes :: "statement list \<Rightarrow> (string \<times> string \<times> string list) list" where
  "created_indexes [] = []"
| "created_indexes (CreateTable n cols key # sts) = created_indexes sts"
| "created_indexes (CreateIndex n t cols # sts) = (n, t, cols) # created_indexes sts"

definition schema_at :: "nat \<Rightarrow> Catalog \<Rightarrow> bool" where
  "schema_at k c \<longleftrightarrow>
    (let sts = concat (map mg_statements (take k migrations)) in
     ct_tables c = created_tables sts \<and> ct_indexes c = created_indexes sts \<and>
     map_option (map gr_version) (ct_migrations c) = Some (map mg_version (take k migrations)))"

fun run_all :: "statement list \<Rightarrow> Catalog \<Rightarrow> error + Catalog" where
  "run_all [] c = Inr c"
| "run_all (st # sts) c = bind_sum (run_statement st c) (run_all sts)"

lemma run_statements_Inr: "run_statements io step k sts c = Inr tx \<Longrightarrow> run_all sts c = Inr tx"
  by (induction sts arbitrary: k c)
    (auto simp: bind_sum_def wrap_def oc_then_def split: sum.splits option.splits)

lemma run_statements_reliable:
  "run_all sts c = Inr tx \<Longrightarrow> run_statements (\<lambda>_. None) step k sts c = Inr tx"
  by (induction sts arbitrary: k c)
    (auto simp: bind_sum_def wrap_def oc_then_def split: sum.splits)

lemma migrations_length [simp]: "length migrations = 4"
  by (simp add: migrations_def)

lemma run_all_creates:
  assumes "k < 4" "schema_at k c"
  obtains tx where "run_all (mg_statements (migrations ! k)) c = Inr tx" "ct_migrations tx = ct_migrations c"
    "ct_tables tx = created_tables (concat (map mg_statements (take (Suc k) migrations)))"
    "ct_indexes tx = created_indexes (concat (map mg_statements (take (Suc k) migrations)))"
proof -
  have k: "k = 0 \<or> k = 1 \<or> k = 2 \<or> k = 3" using assms(1) by linarith
  have "\<exists>tx. run_all (mg_statements (migrations ! k)) c = Inr tx \<and> ct_migrations tx = ct_migrations c \<and>
    ct_tables tx = created_tables (concat (map mg_statements (take (Suc k) migrations))) \<and>
    ct_indexes tx = created_indexes (concat (map mg_statements (take (Suc k) migrations)))"
    using assms(2) k by (elim disjE) (simp_all add: schema_at_def migrations_def bind_sum_def)
  then show ?thesis using that by blast
qed

lemma new_version:
  assumes "k < 4"
  shows "mg_version (migrations ! k) \<notin> set (map mg_version (take k migrations))"
proof -
  have "k = 0 \<or> k = 1 \<or> k = 2 \<or> k = 3" using assms by linarith
  then show ?thesis by (elim disjE) (simp_all add: migrations_def)
qed

lemma record_migration_next:
  assumes "k < 4" "schema_at k c" "ct_migrations tx = ct_migrations c"
  obtains rows where "record_migration (migrations ! k) t tx = Inr (tx\<lparr>ct_migrations := Some rows\<rparr>)"
    "map gr_version rows = map mg_version (take (Suc k) migrations)"
proof -
  obtain rows where rows: "ct_migrations c = Some rows" "map gr_version rows = map mg_version (take k migrations)"
    using assms(2) by (auto simp: schema_at_def Let_def)
  have "mg_version (migrations ! k) \<notin> gr_version ` set rows"
    using new_version [OF assms(1)] arg_cong [OF rows(2), of set] by simp
  then show ?thesis
    using that rows assms(1,3) by (simp add: record_migration_def take_Suc_conv_app_nth)
qed

text \<open>One migration either takes the schema one step further or leaves it alone and reports an error.\<close>

lemma applyMigration_steps:
  assumes "k < 4" "schema_at k c"
  shows "(fst (applyMigration io now (migrations ! k) c) = None \<and> schema_at (Suc k) (snd (applyMigration io now (migrations ! k) c))) \<or>
    (fst (applyMigration io now (migrations ! k) c) \<noteq> None \<and> snd (applyMigration io now (migrations ! k) c) = c)"
proof -
  let ?step = "migrations ! k"
  obtain tx where tx: "run_all (mg_statements ?step) c = Inr tx" "ct_migrations tx = ct_migrations c"
    "ct_tables tx = created_tables (concat (map mg_statements (take (Suc k) migrations)))"
    "ct_indexes tx = created_indexes (concat (map mg_statements (take (Suc k) migrations)))"
    by (rule run_all_creates [OF assms])
  obtain rows where rows: "record_migration ?step (now (mg_version ?step)) tx = Inr (tx\<lparr>ct_migrations := Some rows\<rparr>)"
    "map gr_version rows = map mg_version (take (Suc k) migrations)"
    by (rule record_migration_next [OF assms tx(2)])
  have "schema_at (Suc k) (tx\<lparr>ct_migrations := Some rows\<rparr>)"
    using tx rows by (simp add: schema_at_def Let_def)
  moreover have "run_statements io ?step 0 (mg_statements ?step) c = Inr tx' \<Longrightarrow> tx' = tx" for tx'
    using run_statements_Inr tx(1) by fastforce
  ultimately show ?thesis
    using rows(1) by (cases "run_statements io ?step 0 (mg_statements ?step) c")
      (auto simp: applyMigration_def Let_def bind_sum_def wrap_def oc_then_def split: sum.split option.split)
qed

lemma applyMigration_reliable:
  assumes "k < 4" "schema_at k c"
  shows "fst (applyMigration (\<lambda>_. None) now (migrations ! k) c) = None"
proof -
  let ?step = "migrations ! k"
  obtain tx where tx: "run_all (mg_statements ?step) c = Inr tx" "ct_migrations tx = ct_migrations c"
    by (rule run_all_creates [OF assms])
  obtain rows where "record_migration ?step (now (mg_version ?step)) tx = Inr (tx\<lparr>ct_migrations := Some rows\<rparr>)"
    by (rule record_migration_next [OF assms tx(2)])
  with run_statements_reliable [OF tx(1)] show ?thesis
    by (simp add: applyMigration_def Let_def bind_sum_def wrap_def oc_then_def)
qed

section \<open>Openings that fail and openings that finish\<close>

lemma apply_skips:
  "set (map mg_version done) \<subseteq> set applied \<Longrightarrow> apply_pending io now applied (done @ rest) c = apply_pending io now applied rest c"
  by (induction "done") auto

lemma apply_from:
  assumes "k \<le> 4" "schema_at k c" "set applied = set (map mg_version (take j migrations))" "j \<le> k"
  shows "\<exists>k' \<le> 4. k \<le> k' \<and> schema_at k' (snd (apply_pending io now applied (drop k migrations) c)) \<and>
    (fst (apply_pending io now applied (drop k migrations) c) = None \<longrightarrow> k' = 4) \<and>
    (io = (\<lambda>_. None) \<longrightarrow> fst (apply_pending io now applied (drop k migrations) c) = None)"
  using assms
proof (induction "4 - k" arbitrary: k c)
  case 0
  then show ?case by auto
next
  case (Suc n)
  then have k: "k < 4" by simp
  let ?r = "applyMigration io now (migrations ! k) c"
  have drop: "drop k migrations = migrations ! k # drop (Suc k) migrations"
    using k by (simp add: Cons_nth_drop_Suc)
  have "set (take j migrations) \<subseteq> set (take k migrations)"
    using Suc.prems(4) by (rule set_take_subset_set_take)
  then have "mg_version (migrations ! k) \<notin> set applied"
    using new_version [OF k] Suc.prems(3) by auto
  then have run: "apply_pending io now applied (drop k migrations) c =
      (case ?r of (Some err, c) \<Rightarrow> (Some err, c) | (None, c) \<Rightarrow> apply_pending io now applied (drop (Suc k) migrations) c)"
    by (simp add: drop)
  show ?case
  proof (cases "fst ?r")
    case None
    then have "schema_at (Suc k) (snd ?r)" using applyMigration_steps [OF k Suc.prems(2), of io now] by simp
    moreover have "apply_pending io now applied (drop k migrations) c =
        apply_pending io now applied (drop (Suc k) migrations) (snd ?r)"
      using None by (simp add: run case_prod_beta)
    ultimately show ?thesis
      using Suc.hyps(1) [of "Suc k" "snd ?r"] Suc.hyps(2) Suc.prems(3,4) k Suc_leD by fastforce
  next
    case (Some err)
    then have "snd ?r = c" "io \<noteq> (\<lambda>_. None)"
      using applyMigration_steps [OF k Suc.prems(2), of io now] applyMigration_reliable [OF k Suc.prems(2)] by auto
    with Some Suc.prems(2) k show ?thesis by (auto simp: run case_prod_beta)
  qed
qed

lemma scan_versions_reliable [simp]: "scan_versions (\<lambda>_. None) k rows = Inr (map gr_version rows)"
  by (induction rows arbitrary: k) (simp_all add: bind_sum_def wrap_def oc_then_def)

lemma scan_versions_Inr: "scan_versions io k rows = Inr vs \<Longrightarrow> vs = map gr_version rows"
proof (induction rows arbitrary: k vs)
  case (Cons r rows)
  then show ?case
    by (cases "scan_versions io (Suc k) rows")
      (auto simp: bind_sum_def wrap_def oc_then_def split: sum.splits option.splits)
qed (auto simp: oc_then_def split: option.splits)

lemma appliedMigrations_Inr:
  assumes "schema_at k c" "appliedMigrations io c = Inr applied"
  shows "applied = map mg_version (take k migrations)"
  using assms scan_versions_Inr
  by (fastforce simp: appliedMigrations_def schema_at_def Let_def bind_sum_def wrap_def oc_then_def
      split: sum.splits option.splits)

lemma appliedMigrations_reliable:
  assumes "schema_at k c"
  shows "appliedMigrations (\<lambda>_. None) c = Inr (map mg_version (take k migrations))"
proof -
  obtain rows where "ct_migrations c = Some rows" "map gr_version rows = map mg_version (take k migrations)"
    using assms by (auto simp: schema_at_def Let_def)
  then show ?thesis by (simp add: appliedMigrations_def bind_sum_def wrap_def oc_then_def)
qed

text \<open>What an opening finds: a fresh file, or the work of the first migrations.\<close>

definition opened :: "nat \<Rightarrow> Catalog \<Rightarrow> bool" where
  "opened k c \<longleftrightarrow> k \<le> 4 \<and> (schema_at k c \<or> k = 0 \<and> c = empty_catalog)"

lemma create_table_opened: "opened k c \<Longrightarrow> schema_at k (create_migration_table c)"
  by (auto simp: opened_def schema_at_def Let_def create_migration_table_def empty_catalog_def)

lemma migrate_steps:
  assumes "opened k c"
  shows "\<exists>k'. k \<le> k' \<and> opened k' (snd (migrate io now c)) \<and> (fst (migrate io now c) = None \<longrightarrow> k' = 4) \<and>
    (io = (\<lambda>_. None) \<longrightarrow> fst (migrate io now c) = None)"
proof -
  let ?c = "create_migration_table c"
  have c: "schema_at k ?c" "k \<le> 4" using assms create_table_opened by (auto simp: opened_def)
  show ?thesis
  proof (cases "io OcCreate")
    case (Some err)
    then have "migrate io now c = (Some (ErrWrap ''sqlite: create migration table: '' err), c)" "io \<noteq> (\<lambda>_. None)"
      by (auto simp: migrate_def wrap_def oc_then_def)
    with assms show ?thesis by (intro exI [of _ k]) simp
  next
    case None
    then have run: "migrate io now c = (case appliedMigrations io ?c of
        Inl err \<Rightarrow> (Some err, ?c) | Inr applied \<Rightarrow> apply_pending io now applied migrations ?c)"
      by (simp add: migrate_def wrap_def oc_then_def)
    show ?thesis
    proof (cases "appliedMigrations io ?c")
      case (Inl err)
      moreover have "io \<noteq> (\<lambda>_. None)"
      proof
        assume "io = (\<lambda>_. None)"
        then show False using Inl c(1) by (simp add: appliedMigrations_reliable)
      qed
      ultimately show ?thesis using c by (intro exI [of _ k]) (simp add: run opened_def)
    next
      case (Inr applied)
      then have ap: "applied = map mg_version (take k migrations)" by (rule appliedMigrations_Inr [OF c(1)])
      then have all: "migrate io now c = apply_pending io now applied (drop k migrations) ?c"
        using apply_skips [of "take k migrations" applied io now "drop k migrations" ?c] Inr by (simp add: run)
      have "set applied = set (map mg_version (take k migrations))" using ap by simp
      from apply_from [OF c(2,1) this order_refl, of io now] obtain k' where
        "k' \<le> 4" "k \<le> k'" "schema_at k' (snd (migrate io now c))" "fst (migrate io now c) = None \<longrightarrow> k' = 4"
        "io = (\<lambda>_. None) \<longrightarrow> fst (migrate io now c) = None"
        unfolding all by (elim exE conjE)
      then show ?thesis by (intro exI [of _ k'] conjI) (simp_all only: opened_def simp_thms)
    qed
  qed
qed

lemma Open_steps:
  assumes "opened k c"
  shows "\<exists>k'. k \<le> k' \<and> opened k' (snd (sqlite_Open io now opts c)) \<and>
    (\<not> isl (fst (sqlite_Open io now opts c)) \<longrightarrow> k' = 4) \<and>
    (io = (\<lambda>_. None) \<longrightarrow> \<not> isl (fst (sqlite_Open io now opts c)))"
proof (cases "io OcOpen = None \<and> io OcPing = None")
  case True
  obtain err c' where m: "migrate io now c = (err, c')" by fastforce
  with True have run: "snd (sqlite_Open io now opts c) = c'" "isl (fst (sqlite_Open io now opts c)) \<longleftrightarrow> err \<noteq> None"
    by (auto simp: sqlite_Open_def Let_def wrap_def oc_then_def split: option.split)
  show ?thesis using migrate_steps [OF assms, of io now] by (simp only: m run fst_conv snd_conv not_not)
next
  case False
  then have "snd (sqlite_Open io now opts c) = c" "isl (fst (sqlite_Open io now opts c))" "io \<noteq> (\<lambda>_. None)"
    by (auto simp: sqlite_Open_def Let_def wrap_def oc_then_def split: option.split)
  with assms show ?thesis by auto
qed

lemma attempts_opened:
  "opened k c \<Longrightarrow> \<exists>k'. opened k' (fold (\<lambda>(io, now, opts) c. snd (sqlite_Open io now opts c)) attempts c)"
proof (induction attempts arbitrary: k c)
  case (Cons a attempts)
  obtain io now opts where a: "a = (io, now, opts)" by (cases a)
  obtain k' where "opened k' (snd (sqlite_Open io now opts c))" using Open_steps [OF Cons.prems] by blast
  from Cons.IH [OF this] show ?case by (simp add: a)
qed auto

lemma opened_complete_unchanged:
  assumes "opened 4 c"
  shows "snd (sqlite_Open io now opts c) = c"
proof -
  have c: "schema_at 4 c" using assms by (simp add: opened_def)
  then have mt: "create_migration_table c = c" by (auto simp: create_migration_table_def schema_at_def Let_def)
  have "snd (migrate io now c) = c"
  proof (cases "appliedMigrations io c")
    case (Inr applied)
    then have "applied = map mg_version (take 4 migrations)" by (rule appliedMigrations_Inr [OF c])
    then have "apply_pending io now applied migrations c = (None, c)"
      using apply_skips [of migrations applied io now "[]" c] by simp
    with Inr show ?thesis by (simp add: migrate_def mt wrap_def oc_then_def split: option.split)
  qed (simp add: migrate_def mt wrap_def oc_then_def split: option.split)
  then show ?thesis
    by (cases "migrate io now c") (auto simp: sqlite_Open_def Let_def wrap_def oc_then_def split: option.split)
qed

text \<open>C11: the schema of the SQLite store survives any history of failed openings. Take a fresh database file and
  any number of attempts to open it, each failing or succeeding at whatever calls the driver answers
  with an error (a full disk, a lock, a crash of a commit). Then \<open>Open\<close> with a driver that works succeeds; the
  tables and indexes are exactly those that the four migrations create, each version is
  recorded once and in order, and opening the file again never changes the schema, whatever the driver answers.\<close>

theorem Open_completes_migrations:
  fixes attempts :: "(open_driver \<times> (int \<Rightarrow> time) \<times> SqliteOptions) list"
  shows "\<exists>store c. sqlite_Open (\<lambda>_. None) now opts
      (fold (\<lambda>(io, now, opts) c. snd (sqlite_Open io now opts c)) attempts empty_catalog) = (Inr store, c) \<and>
    ct_tables c = created_tables (concat (map mg_statements migrations)) \<and>
    ct_indexes c = created_indexes (concat (map mg_statements migrations)) \<and>
    map_option (map gr_version) (ct_migrations c) = Some [1, 2, 3, 4] \<and>
    (\<forall>io now opts. snd (sqlite_Open io now opts c) = c)"
proof -
  let ?c = "fold (\<lambda>(io, now, opts) c. snd (sqlite_Open io now opts c)) attempts empty_catalog"
  obtain store c where run: "sqlite_Open (\<lambda>_. None) now opts ?c = (store, c)" by fastforce
  have "opened 0 empty_catalog" by (simp add: opened_def)
  then obtain k where "opened k ?c" using attempts_opened by blast
  then have ok: "opened 4 c" "\<not> isl store"
    using Open_steps [of k ?c "\<lambda>_. None" now opts] by (auto simp: run)
  then have "schema_at 4 c" by (simp add: opened_def)
  then have "ct_tables c = created_tables (concat (map mg_statements migrations))"
    "ct_indexes c = created_indexes (concat (map mg_statements migrations))"
    "map_option (map gr_version) (ct_migrations c) = Some (map mg_version migrations)"
    by (simp_all add: schema_at_def Let_def)
  moreover have "map mg_version migrations = [1, 2, 3, 4]" by (simp add: migrations_def)
  moreover obtain h where "store = Inr h" using ok(2) by (cases store) auto
  ultimately show ?thesis using run opened_complete_unchanged [OF ok(1)] by metis
qed

end
