(* ===== verification/SchemaRegistry.thy ===== *)
theory SchemaRegistry
  imports GoErrors "HOL-Library.Product_Lexorder" "HOL-Library.Sublist" "HOL-Library.Multiset"
begin

text \<open>
  Schema validation, \<open>internal/schema\<close>: the registry of compiled schemas and the list of violations that a
  rejected payload is reported with. The JSON decoder and the schema compiler are libraries outside the
  repository: they are the fields of \<open>jsonschema\<close>, the first argument of the operations that call them. The
  error of a library's \<open>Validate\<close> is a tree, whose leaves are the violations.
\<close>

section \<open>Violations: \<open>violation.go\<close>\<close>

text \<open>\<open>jsonschema.ValidationError\<close>: the location in the payload, the localized text of its kind, the causes.\<close>

datatype cause = Cause (cause_location: "string list") (cause_text: string) (cause_causes: "cause list")

definition instancePath :: "string list \<Rightarrow> string" where
  "instancePath location = (if location = [] then [] else ''/'' @ strings_Join location ''/'')"

text \<open>The order of \<open>sort.Slice\<close> is the one of pairs: by path, then by detail. Violations that compare equal
  are equal, so the sort need not be stable.\<close>

fun collectViolations :: "cause \<Rightarrow> Violation list" where
  "collectViolations (Cause location text causes) =
    (if causes = [] then [(instancePath location, text)]
     else sort (concat (map collectViolations causes)))"

text \<open>\<open>AsValidationError\<close>: \<open>errors.As\<close> walks the chain of wrapped errors.\<close>

fun AsValidationError :: "error \<Rightarrow> (string \<times> Violation list) option" where
  "AsValidationError (ValidationError schema violations) = Some (schema, violations)"
| "AsValidationError (PermanentError e) = AsValidationError e"
| "AsValidationError (ErrWrap s e) = AsValidationError e"
| "AsValidationError e = None"

section \<open>The registry: \<open>registry.go\<close>\<close>

record Definition =
  sd_Name :: string
  sd_Version :: int
  sd_Title :: string
  sd_Description :: string
  sd_Source :: string

record 'c schema_entry =
  se_definition :: Definition
  se_compiled :: 'c

type_synonym 'c SchemaRegistry = "(string, 'c schema_entry) gomap"

text \<open>\<open>'j\<close> is a decoded document and \<open>'c\<close> a compiled schema. \<open>js_Validate\<close> answers with the library's
  validation error or another one. \<open>js_header\<close> is the decoding of \<open>x-schema-version\<close>.\<close>

record ('j, 'c) jsonschema =
  js_UnmarshalJSON :: "string \<Rightarrow> error + 'j"
  js_AddResource :: "string \<Rightarrow> 'j \<Rightarrow> error option"
  js_Compile :: "string \<Rightarrow> 'j \<Rightarrow> error + 'c"
  js_Title :: "'c \<Rightarrow> string"
  js_Description :: "'c \<Rightarrow> string"
  js_Validate :: "'c \<Rightarrow> 'j \<Rightarrow> (error + cause) option"
  js_header :: "string \<Rightarrow> error + int"

definition schemaFileSuffix :: string where "schemaFileSuffix = ''.schema.json''"

definition NewSchemaRegistry :: "'c SchemaRegistry" where "NewSchemaRegistry = []"

definition versionOf :: "('j, 'c) jsonschema \<Rightarrow> string \<Rightarrow> int" where
  "versionOf js document =
    (case js_header js document of Inl _ \<Rightarrow> 1 | Inr v \<Rightarrow> if v < 1 then 1 else v)"

definition Schema_Register ::
  "('j, 'c) jsonschema \<Rightarrow> 'c SchemaRegistry \<Rightarrow> string \<Rightarrow> string \<Rightarrow> (error + Definition) \<times> 'c SchemaRegistry" where
  "Schema_Register js r name document =
    (if name = [] then (Inl (ErrNew ''schema: name is required''), r)
     else case js_UnmarshalJSON js document of
       Inl err \<Rightarrow> (Inl (ErrWrap (''schema: parse '' @ name @ '': '') err), r)
     | Inr decoded \<Rightarrow>
         (let resource = name @ schemaFileSuffix in
          case js_AddResource js resource decoded of
            Some err \<Rightarrow> (Inl (ErrWrap (''schema: add '' @ name @ '': '') err), r)
          | None \<Rightarrow> (case js_Compile js resource decoded of
              Inl err \<Rightarrow> (Inl (ErrWrap (''schema: compile '' @ name @ '': '') err), r)
            | Inr compiled \<Rightarrow>
                (let definition = \<lparr> sd_Name = name, sd_Version = versionOf js document,
                       sd_Title = js_Title js compiled, sd_Description = js_Description js compiled,
                       sd_Source = [] \<rparr>
                 in (Inr definition, mput r name \<lparr> se_definition = definition, se_compiled = compiled \<rparr>)))))"

definition Schema_Definitions :: "'c SchemaRegistry \<Rightarrow> Definition list" where
  "Schema_Definitions r = sort_key sd_Name (map se_definition (mvals r))"

definition Schema_Has :: "'c SchemaRegistry \<Rightarrow> string \<Rightarrow> bool" where
  "Schema_Has r name = (mget r name \<noteq> None)"

definition Schema_Validate ::
  "('j, 'c) jsonschema \<Rightarrow> 'c SchemaRegistry \<Rightarrow> string \<Rightarrow> string \<Rightarrow> error option" where
  "Schema_Validate js r name payload =
    (if name = [] then None
     else case mget r name of
       None \<Rightarrow> Some (ErrSchemaNotFound name)
     | Some registered \<Rightarrow>
         if payload = [] then Some (ValidationError name [([], ''schema: payload is empty'')])
         else case js_UnmarshalJSON js payload of
           Inl _ \<Rightarrow> Some (ValidationError name [([], ''payload is not valid JSON'')])
         | Inr document \<Rightarrow>
             (case js_Validate js (se_compiled registered) document of
                None \<Rightarrow> None
              | Some (Inr cause) \<Rightarrow> Some (ValidationError name (collectViolations cause))
              | Some (Inl err) \<Rightarrow> Some err))"

text \<open>\<open>filepath.WalkDir\<close> calls the function for each entry it visits, with the error of the visit, and stops at the
  first error the function returns. An entry carries what \<open>os.ReadFile\<close> answers for its path.\<close>

record walk_entry =
  we_path :: string
  we_name :: string
  we_isDir :: bool
  we_err :: "error option"
  we_read :: "error + string"

definition load_entry ::
  "('j, 'c) jsonschema \<Rightarrow> walk_entry \<Rightarrow> Definition list \<times> 'c SchemaRegistry \<Rightarrow>
    error option \<times> Definition list \<times> 'c SchemaRegistry" where
  "load_entry js w st =
    (let (loaded, r) = st in
     case we_err w of
       Some err \<Rightarrow> (Some err, loaded, r)
     | None \<Rightarrow>
         if we_isDir w \<or> \<not> suffix schemaFileSuffix (we_name w) then (None, loaded, r)
         else case we_read w of
           Inl err \<Rightarrow> (Some (ErrWrap (''schema: read '' @ we_path w @ '': '') err), loaded, r)
         | Inr document \<Rightarrow>
             (let name = take (length (we_name w) - length schemaFileSuffix) (we_name w) in
              case Schema_Register js r name document of
                (Inl err, r) \<Rightarrow> (Some err, loaded, r)
              | (Inr definition, r) \<Rightarrow> (None, loaded @ [definition\<lparr>sd_Source := we_path w\<rparr>], r)))"

fun walk_dir ::
  "('j, 'c) jsonschema \<Rightarrow> walk_entry list \<Rightarrow> Definition list \<times> 'c SchemaRegistry \<Rightarrow>
    error option \<times> Definition list \<times> 'c SchemaRegistry" where
  "walk_dir js [] st = (None, st)"
| "walk_dir js (w # ws) st =
    (case load_entry js w st of
       (Some err, st) \<Rightarrow> (Some err, st)
     | (None, st) \<Rightarrow> walk_dir js ws st)"

definition LoadDirectory ::
  "('j, 'c) jsonschema \<Rightarrow> 'c SchemaRegistry \<Rightarrow> walk_entry list \<Rightarrow> (error + Definition list) \<times> 'c SchemaRegistry" where
  "LoadDirectory js r entries =
    (case walk_dir js entries ([], r) of
       (Some err, loaded, r) \<Rightarrow> (Inl err, r)
     | (None, loaded, r) \<Rightarrow> (Inr (sort_key sd_Name loaded), r))"

section \<open>The violations are the leaves\<close>

text \<open>The leaves of the error tree, in the order of the library.\<close>

fun leaves :: "cause \<Rightarrow> Violation list" where
  "leaves (Cause location text causes) =
    (if causes = [] then [(instancePath location, text)] else concat (map leaves causes))"

lemma collectViolations_mset: "mset (collectViolations c) = mset (leaves c)"
proof (induction c)
  case (Cause loc t causes)
  then have "mset (concat (map collectViolations causes)) = mset (concat (map leaves causes))"
    by (induction causes) simp_all
  then show ?case by simp
qed

lemma collectViolations_sorted: "sorted (collectViolations c)"
  by (cases c) simp

lemma leaves_nonempty: "leaves c \<noteq> []"
proof (induction c)
  case (Cause loc t causes)
  then show ?case by (cases causes) auto
qed

lemma collectViolations_nonempty: "collectViolations c \<noteq> []"
  using collectViolations_mset [of c] leaves_nonempty [of c] by force

section \<open>Registered schemas\<close>

text \<open>What the library says of a document that is registered under a name.\<close>

definition compile :: "('j, 'c) jsonschema \<Rightarrow> string \<Rightarrow> string \<Rightarrow> 'c option" where
  "compile js name document =
    (case js_UnmarshalJSON js document of
       Inl _ \<Rightarrow> None
     | Inr decoded \<Rightarrow>
         if js_AddResource js (name @ schemaFileSuffix) decoded \<noteq> None then None
         else case js_Compile js (name @ schemaFileSuffix) decoded of Inl _ \<Rightarrow> None | Inr c \<Rightarrow> Some c)"

lemma Register_result:
  "Schema_Register js r name document =
    (if name = [] then (Inl (ErrNew ''schema: name is required''), r)
     else case compile js name document of
       None \<Rightarrow> (fst (Schema_Register js r name document), r)
     | Some c \<Rightarrow>
         (let d = \<lparr> sd_Name = name, sd_Version = versionOf js document, sd_Title = js_Title js c,
            sd_Description = js_Description js c, sd_Source = [] \<rparr>
          in (Inr d, mput r name \<lparr> se_definition = d, se_compiled = c \<rparr>)))"
  by (simp add: Schema_Register_def compile_def Let_def split: sum.split option.split)

lemma Register_fails: "isl (fst (Schema_Register js r name document)) \<longleftrightarrow> name = [] \<or> compile js name document = None"
  by (auto simp: Schema_Register_def compile_def Let_def split: sum.split option.split)

lemma Register_lookup:
  "mget (snd (Schema_Register js r name document)) n =
    (case compile js name document of
       Some c \<Rightarrow> if name \<noteq> [] \<and> n = name
         then Some \<lparr> se_definition = \<lparr> sd_Name = name, sd_Version = versionOf js document, sd_Title = js_Title js c,
                sd_Description = js_Description js c, sd_Source = [] \<rparr>, se_compiled = c \<rparr>
         else mget r n
     | None \<Rightarrow> mget r n)"
  by (subst Register_result) (simp add: Let_def mget_mput split: option.split)

text \<open>Every entry is stored under its own name and without a source.\<close>

definition registry_named :: "'c SchemaRegistry \<Rightarrow> bool" where
  "registry_named r \<longleftrightarrow> mwf r \<and> (\<forall>n en. mget r n = Some en \<longrightarrow>
     n \<noteq> [] \<and> sd_Name (se_definition en) = n \<and> 1 \<le> sd_Version (se_definition en) \<and> sd_Source (se_definition en) = [])"

lemma named_New: "registry_named NewSchemaRegistry"
  by (simp add: registry_named_def NewSchemaRegistry_def mwf_def)

lemma named_Register:
  assumes "registry_named r"
  shows "registry_named (snd (Schema_Register js r name document))"
proof -
  have "1 \<le> versionOf js document" by (simp add: versionOf_def split: sum.split)
  moreover have "mwf (snd (Schema_Register js r name document))"
    using assms by (subst Register_result) (auto simp: registry_named_def Let_def mwf_mput split: option.split)
  ultimately show ?thesis
    using assms by (auto simp: registry_named_def Register_lookup split: option.splits if_splits)
qed

lemma named_load: "registry_named r \<Longrightarrow> registry_named (snd (snd (load_entry js w (loaded, r))))"
  using named_Register [of r js]
  by (auto simp: load_entry_def Let_def case_prod_beta split: option.split sum.split)

lemma named_walk: "registry_named r \<Longrightarrow> registry_named (snd (snd (walk_dir js ws (loaded, r))))"
proof (induction ws arbitrary: loaded r)
  case (Cons w ws)
  obtain err loaded' r' where l: "load_entry js w (loaded, r) = (err, loaded', r')" by (cases "load_entry js w (loaded, r)") auto
  then have "registry_named r'" using named_load [OF Cons.prems, of js w loaded] by simp
  with Cons.IH show ?case by (simp add: l split: option.split)
qed simp

lemma mvals_named:
  assumes "mwf m" "\<And>k v. mget m k = Some v \<Longrightarrow> f v = k"
  shows "map f (mvals m) = mkeys m"
proof -
  have "mget m (fst kv) = Some (snd kv)" if "kv \<in> set m" for kv
    using assms(1) that by (cases kv) (simp add: mget_map_of mwf_def)
  then show ?thesis using assms(2) by simp
qed

lemma sort_by_name: "map sd_Name (sort_key sd_Name ds) = sort (map sd_Name ds)"
  by (rule properties_for_sort [symmetric]) (simp_all add: sorted_sort_key)

lemma Definitions_names:
  assumes "registry_named r"
  shows "map sd_Name (Schema_Definitions r) = sort (mkeys r)"
proof -
  have "map sd_Name (map se_definition (mvals r)) = mkeys r"
    using mvals_named [of r "\<lambda>en. sd_Name (se_definition en)"] assms by (simp add: registry_named_def comp_def)
  then show ?thesis unfolding Schema_Definitions_def sort_by_name by (simp only:)
qed

section \<open>Directories\<close>

definition schema_file :: "walk_entry \<Rightarrow> bool" where
  "schema_file w \<longleftrightarrow> \<not> we_isDir w \<and> suffix schemaFileSuffix (we_name w)"

definition file_schema :: "walk_entry \<Rightarrow> string" where
  "file_schema w = take (length (we_name w) - length schemaFileSuffix) (we_name w)"

text \<open>What a file that was loaded leaves in the registry and in the list.\<close>

definition loaded_as :: "('j, 'c) jsonschema \<Rightarrow> walk_entry \<Rightarrow> 'c schema_entry \<Rightarrow> bool" where
  "loaded_as js w en \<longleftrightarrow> file_schema w \<noteq> [] \<and> (\<exists>doc. we_read w = Inr doc \<and>
     compile js (file_schema w) doc = Some (se_compiled en) \<and> sd_Name (se_definition en) = file_schema w \<and>
     sd_Version (se_definition en) = versionOf js doc)"

lemma load_entry_other: "load_entry js w (loaded, r) = (None, loaded', r') \<Longrightarrow> \<not> schema_file w \<Longrightarrow> loaded' = loaded \<and> r' = r"
  by (auto simp: load_entry_def schema_file_def Let_def split: option.splits)

lemma load_entry_file:
  assumes "load_entry js w (loaded, r) = (None, loaded', r')" "schema_file w"
  shows "\<exists>en. loaded_as js w en \<and> loaded' = loaded @ [(se_definition en)\<lparr>sd_Source := we_path w\<rparr>] \<and>
    (\<forall>n. mget r' n = (if n = file_schema w then Some en else mget r n))"
proof -
  from assms obtain doc d where doc: "we_read w = Inr doc" "Schema_Register js r (file_schema w) doc = (Inr d, r')"
    "loaded' = loaded @ [d\<lparr>sd_Source := we_path w\<rparr>]"
    by (auto simp: load_entry_def schema_file_def file_schema_def Let_def split: option.splits sum.splits prod.splits)
  then obtain c where c: "file_schema w \<noteq> []" "compile js (file_schema w) doc = Some c"
    using Register_fails [of js r "file_schema w" doc] by auto
  show ?thesis
    using c doc Register_result [of js r "file_schema w" doc]
    by (intro exI [of _ "\<lparr>se_definition = d, se_compiled = c\<rparr>"]) (auto simp: loaded_as_def Let_def mget_mput)
qed

lemma walk_dir_loads:
  assumes "walk_dir js ws (loaded, r) = (None, loaded', r')" "distinct (map file_schema (filter schema_file ws))"
  shows "(\<forall>n. n \<notin> file_schema ` set (filter schema_file ws) \<longrightarrow> mget r' n = mget r n) \<and>
    (\<forall>w \<in> set (filter schema_file ws). \<exists>en. loaded_as js w en \<and> mget r' (file_schema w) = Some en) \<and>
    map sd_Name loaded' = map sd_Name loaded @ map file_schema (filter schema_file ws)"
  using assms
proof (induction ws arbitrary: loaded r)
  case (Cons w ws)
  obtain loaded1 r1 where one: "load_entry js w (loaded, r) = (None, loaded1, r1)"
    and rest: "walk_dir js ws (loaded1, r1) = (None, loaded', r')"
    using Cons.prems(1) by (auto split: prod.splits option.splits)
  note IH = Cons.IH [OF rest]
  show ?case
  proof (cases "schema_file w")
    case False
    then show ?thesis using load_entry_other [OF one] IH Cons.prems(2) by simp
  next
    case True
    then obtain en where en: "loaded_as js w en" "loaded1 = loaded @ [(se_definition en)\<lparr>sd_Source := we_path w\<rparr>]"
      "\<forall>n. mget r1 n = (if n = file_schema w then Some en else mget r n)"
      using load_entry_file [OF one] by blast
    moreover from en(1) have "sd_Name (se_definition en) = file_schema w" by (auto simp: loaded_as_def)
    ultimately show ?thesis using IH Cons.prems(2) True by auto
  qed
qed simp


text \<open>A library of two kinds of documents: a schema is the list of the letters it allows, and a payload is rejected
  with one cause per other letter.\<close>

definition ex_js :: "(string, string) jsonschema" where
  "ex_js = \<lparr> js_UnmarshalJSON = Inr, js_AddResource = (\<lambda>_ _. None), js_Compile = (\<lambda>_. Inr),
     js_Title = (\<lambda>c. []), js_Description = (\<lambda>c. []),
     js_Validate = (\<lambda>c doc. let bad = filter (\<lambda>x. x \<notin> set c) doc in
       if bad = [] then None else Some (Inr (Cause [] ''invalid'' (map (\<lambda>x. Cause [''at'', [x]] ''unexpected'' []) bad)))),
     js_header = (\<lambda>_. Inr 2) \<rparr>"

definition ex_dir :: "walk_entry list" where
  "ex_dir = [\<lparr> we_path = ''schemas'', we_name = ''schemas'', we_isDir = True, we_err = None, we_read = Inl (ErrNew ''directory'') \<rparr>,
     \<lparr> we_path = ''schemas/invoice.schema.json'', we_name = ''invoice.schema.json'', we_isDir = False, we_err = None,
       we_read = Inr ''ab'' \<rparr>]"


end
