(* ===== verification/Metrics.thy ===== *)
theory Metrics
  imports Engine Decimal "HOL-Library.Word"
begin

text \<open>
  Metrics, \<open>internal/metrics\<close>: the registry of counters, gauges and histograms, its text for Prometheus, and the
  collector that the engine reports to. Entries of the registry are never removed, so the pointer that
  \<open>Counter\<close>, \<open>Gauge\<close> or \<open>Histogram\<close> returns is the key of the entry. Counters and gauges are 64-bit words with
  wrap-around, sums are floating-point numbers. The texts of floating-point numbers (\<open>FormatFloat\<close> and the verb
  \<open>%g\<close>) are the argument \<open>ff\<close>.
\<close>

section \<open>The registry: \<open>registry.go\<close>\<close>

type_synonym Labels = "(string, string) gomap"

record Counter =
  mc_name :: string
  mc_labels :: Labels
  mc_value :: "64 word"

record Gauge =
  ga_name :: string
  ga_labels :: Labels
  ga_value :: "64 word"

record Histogram =
  hi_name :: string
  hi_labels :: Labels
  hi_bounds :: "f64 list"
  hi_buckets :: "64 word list"
  hi_count :: "64 word"
  hi_sum :: f64

record Metrics =
  me_counters :: "(string, Counter) gomap"
  me_gauges :: "(string, Gauge) gomap"
  me_histograms :: "(string, Histogram) gomap"
  me_help :: "(string, string) gomap"

definition DefaultBuckets :: "f64 list" where
  "DefaultBuckets = map f_round
    [5 / 10000, 1 / 1000, 25 / 10000, 5 / 1000, 1 / 100, 25 / 1000, 5 / 100, 1 / 10, 25 / 100, 5 / 10, 1, 5 / 2, 5, 10]"

definition NewMetrics :: Metrics where
  "NewMetrics = \<lparr> me_counters = [], me_gauges = [], me_histograms = [], me_help = [] \<rparr>"

text \<open>\<open>%q\<close> is \<open>quoted\<close>: the labels of the broker are names of printable ASCII.\<close>

definition renderLabels :: "Labels \<Rightarrow> string" where
  "renderLabels labels =
    (if labels = [] then []
     else strings_Join (map (\<lambda>name. name @ ''='' @ quoted (mget_or [] labels name)) (sort (mkeys labels))) '','')"

definition renderSeries :: "string \<Rightarrow> Labels \<Rightarrow> string" where
  "renderSeries name labels =
    (let rendered = renderLabels labels in if rendered = [] then name else name @ ''{'' @ rendered @ ''}'')"

definition seriesKey :: "string \<Rightarrow> Labels \<Rightarrow> string" where
  "seriesKey name labels = name @ ''{'' @ renderLabels labels @ ''}''"

definition Metrics_Counter :: "Metrics \<Rightarrow> string \<Rightarrow> string \<Rightarrow> Labels \<Rightarrow> string \<times> Metrics" where
  "Metrics_Counter r name help labels =
    (let key = seriesKey name labels; r = r\<lparr>me_help := mput (me_help r) name help\<rparr> in
     case mget (me_counters r) key of
       Some _ \<Rightarrow> (key, r)
     | None \<Rightarrow> (key, r\<lparr>me_counters := mput (me_counters r) key
         \<lparr> mc_name = name, mc_labels = labels, mc_value = 0 \<rparr>\<rparr>))"

definition Metrics_Gauge :: "Metrics \<Rightarrow> string \<Rightarrow> string \<Rightarrow> Labels \<Rightarrow> string \<times> Metrics" where
  "Metrics_Gauge r name help labels =
    (let key = seriesKey name labels; r = r\<lparr>me_help := mput (me_help r) name help\<rparr> in
     case mget (me_gauges r) key of
       Some _ \<Rightarrow> (key, r)
     | None \<Rightarrow> (key, r\<lparr>me_gauges := mput (me_gauges r) key
         \<lparr> ga_name = name, ga_labels = labels, ga_value = 0 \<rparr>\<rparr>))"

definition Metrics_Histogram :: "Metrics \<Rightarrow> string \<Rightarrow> string \<Rightarrow> f64 list \<Rightarrow> Labels \<Rightarrow> string \<times> Metrics" where
  "Metrics_Histogram r name help bounds labels =
    (let key = seriesKey name labels; r = r\<lparr>me_help := mput (me_help r) name help\<rparr> in
     case mget (me_histograms r) key of
       Some _ \<Rightarrow> (key, r)
     | None \<Rightarrow>
         (let bounds = (if bounds = [] then DefaultBuckets else bounds) in
          (key, r\<lparr>me_histograms := mput (me_histograms r) key
            \<lparr> hi_name = name, hi_labels = labels, hi_bounds = bounds,
              hi_buckets = replicate (length bounds) 0, hi_count = 0, hi_sum = Fin 0 \<rparr>\<rparr>)))"

text \<open>The methods of an entry change it in place.\<close>

definition Counter_Add :: "64 word \<Rightarrow> string \<times> Metrics \<Rightarrow> Metrics" where
  "Counter_Add delta p =
    (let (key, r) = p in
     case mget (me_counters r) key of
       None \<Rightarrow> r
     | Some c \<Rightarrow> r\<lparr>me_counters := mput (me_counters r) key (c\<lparr>mc_value := mc_value c + delta\<rparr>)\<rparr>)"

definition Counter_Inc :: "string \<times> Metrics \<Rightarrow> Metrics" where
  "Counter_Inc p = Counter_Add 1 p"

definition Counter_Value :: "Counter \<Rightarrow> int" where "Counter_Value c = sint (mc_value c)"

definition Gauge_Set :: "int \<Rightarrow> string \<times> Metrics \<Rightarrow> Metrics" where
  "Gauge_Set value p =
    (let (key, r) = p in
     case mget (me_gauges r) key of
       None \<Rightarrow> r
     | Some g \<Rightarrow> r\<lparr>me_gauges := mput (me_gauges r) key (g\<lparr>ga_value := word_of_int value\<rparr>)\<rparr>)"

definition Gauge_Add :: "64 word \<Rightarrow> string \<times> Metrics \<Rightarrow> Metrics" where
  "Gauge_Add delta p =
    (let (key, r) = p in
     case mget (me_gauges r) key of
       None \<Rightarrow> r
     | Some g \<Rightarrow> r\<lparr>me_gauges := mput (me_gauges r) key (g\<lparr>ga_value := ga_value g + delta\<rparr>)\<rparr>)"

definition Gauge_Value :: "Gauge \<Rightarrow> int" where "Gauge_Value g = sint (ga_value g)"

definition Observe :: "f64 \<Rightarrow> Histogram \<Rightarrow> Histogram" where
  "Observe value h = h\<lparr> hi_count := hi_count h + 1, hi_sum := f_add (hi_sum h) value,
     hi_buckets := map2 (\<lambda>bound n. if f_le value bound then n + 1 else n) (hi_bounds h) (hi_buckets h) \<rparr>"

text \<open>\<open>Duration.Seconds\<close>: the quotients are rounded towards zero.\<close>

definition Seconds :: "duration \<Rightarrow> f64" where
  "Seconds d =
    (let sec = sgn d * (\<bar>d\<bar> div second); nsec = sgn d * (\<bar>d\<bar> mod second)
     in f_add (of_int64 sec) (f_round (of_int nsec / of_int second)))"

definition ObserveDuration :: "duration \<Rightarrow> string \<times> Metrics \<Rightarrow> Metrics" where
  "ObserveDuration elapsed p =
    (let (key, r) = p in
     case mget (me_histograms r) key of
       None \<Rightarrow> r
     | Some h \<Rightarrow> r\<lparr>me_histograms := mput (me_histograms r) key (Observe (Seconds elapsed) h)\<rparr>)"

definition Histogram_Count :: "Histogram \<Rightarrow> nat" where "Histogram_Count h = unat (hi_count h)"

definition Quantile :: "f64 \<Rightarrow> Histogram \<Rightarrow> f64" where
  "Quantile quantile h =
    (if hi_count h = 0 then Fin 0
     else let target = f_mul quantile (of_int64 (uint (hi_count h)))
          in case find (\<lambda>(bound, n). f_le target (of_int64 (uint n))) (zip (hi_bounds h) (hi_buckets h)) of
               Some (bound, n) \<Rightarrow> bound
             | None \<Rightarrow> PInf)"

section \<open>The text: \<open>Write\<close>\<close>

abbreviation (input) newline :: string where "newline \<equiv> [CHR 0x0A]"

definition writeHeader :: "string \<Rightarrow> string \<Rightarrow> string \<Rightarrow> string" where
  "writeHeader name help kind =
    (if help \<noteq> [] then ''# HELP '' @ name @ '' '' @ help @ newline else []) @
    ''# TYPE '' @ name @ '' '' @ kind @ newline"

definition writeHistogram :: "(f64 \<Rightarrow> string) \<Rightarrow> Histogram \<Rightarrow> string" where
  "writeHistogram ff h =
    concat (map (\<lambda>(bound, n). renderSeries (hi_name h @ ''_bucket'') (mput (hi_labels h) ''le'' (ff bound)) @
        '' '' @ int_text (uint n) @ newline) (zip (hi_bounds h) (hi_buckets h))) @
    renderSeries (hi_name h @ ''_bucket'') (mput (hi_labels h) ''le'' ''+Inf'') @ '' '' @ int_text (uint (hi_count h)) @ newline @
    renderSeries (hi_name h @ ''_sum'') (hi_labels h) @ '' '' @ ff (hi_sum h) @ newline @
    renderSeries (hi_name h @ ''_count'') (hi_labels h) @ '' '' @ int_text (uint (hi_count h)) @ newline"

definition hasSeries :: "(string, 'a) gomap \<Rightarrow> string \<Rightarrow> bool" where
  "hasSeries series name = list_ex (\<lambda>key. prefix (name @ ''{'') key) (mkeys series)"

definition sortedKeys :: "(string, 'a) gomap \<Rightarrow> string \<Rightarrow> string list" where
  "sortedKeys series name = sort (filter (\<lambda>key. prefix (name @ ''{'') key) (mkeys series))"

definition Metrics_names :: "Metrics \<Rightarrow> string list" where
  "Metrics_names r = sort (mkeys (me_help r))"

definition write_series :: "(string, 'a) gomap \<Rightarrow> string \<Rightarrow> ('a \<Rightarrow> string) \<Rightarrow> string" where
  "write_series series name line =
    concat (map (\<lambda>key. case mget series key of None \<Rightarrow> [] | Some x \<Rightarrow> line x) (sortedKeys series name))"

definition write_name :: "(f64 \<Rightarrow> string) \<Rightarrow> Metrics \<Rightarrow> string \<Rightarrow> string" where
  "write_name ff r name =
    (if hasSeries (me_counters r) name then
       writeHeader name (mget_or [] (me_help r) name) ''counter'' @
       write_series (me_counters r) name (\<lambda>c. renderSeries (mc_name c) (mc_labels c) @ '' '' @ int_text (Counter_Value c) @ newline)
     else if hasSeries (me_gauges r) name then
       writeHeader name (mget_or [] (me_help r) name) ''gauge'' @
       write_series (me_gauges r) name (\<lambda>g. renderSeries (ga_name g) (ga_labels g) @ '' '' @ int_text (Gauge_Value g) @ newline)
     else if hasSeries (me_histograms r) name then
       writeHeader name (mget_or [] (me_help r) name) ''histogram'' @
       write_series (me_histograms r) name (writeHistogram ff)
     else []) @ newline"

definition Metrics_Write :: "(f64 \<Rightarrow> string) \<Rightarrow> Metrics \<Rightarrow> string" where
  "Metrics_Write ff r = concat (map (write_name ff r) (Metrics_names r))"

section \<open>The collector: \<open>collector.go\<close>\<close>

definition metricPublished :: string where "metricPublished = ''rabbitmq_lite_messages_published_total''"
definition metricDelivered :: string where "metricDelivered = ''rabbitmq_lite_messages_delivered_total''"
definition metricAcknowledged :: string where "metricAcknowledged = ''rabbitmq_lite_messages_acknowledged_total''"
definition metricRetried :: string where "metricRetried = ''rabbitmq_lite_messages_retried_total''"
definition metricDeadLettered :: string where "metricDeadLettered = ''rabbitmq_lite_messages_dead_lettered_total''"
definition metricRejected :: string where "metricRejected = ''rabbitmq_lite_messages_rejected_total''"
definition metricPublishTime :: string where "metricPublishTime = ''rabbitmq_lite_publish_duration_seconds''"
definition metricHandleTime :: string where "metricHandleTime = ''rabbitmq_lite_handler_duration_seconds''"
definition metricQueueDepth :: string where "metricQueueDepth = ''rabbitmq_lite_queue_depth''"
definition metricInFlight :: string where "metricInFlight = ''rabbitmq_lite_queue_in_flight''"
definition metricScheduled :: string where "metricScheduled = ''rabbitmq_lite_queue_scheduled''"

fun collect :: "metric \<Rightarrow> Metrics \<Rightarrow> Metrics" where
  "collect (MessagePublished queue latency) r =
    (let r = Counter_Inc (Metrics_Counter r metricPublished
               ''Messages accepted by the broker and written to a queue.'' [(''queue'', queue)])
     in ObserveDuration latency (Metrics_Histogram r metricPublishTime
          ''Time spent routing, validating and persisting a publication.'' DefaultBuckets []))"
| "collect (MessageDelivered queue) r =
    Counter_Inc (Metrics_Counter r metricDelivered ''Deliveries handed to a consumer.'' [(''queue'', queue)])"
| "collect (MessageAcknowledged queue latency) r =
    (let r = Counter_Inc (Metrics_Counter r metricAcknowledged
               ''Deliveries acknowledged by a consumer.'' [(''queue'', queue)])
     in ObserveDuration latency (Metrics_Histogram r metricHandleTime
          ''Time a consumer spent handling a delivery.'' DefaultBuckets [(''queue'', queue)]))"
| "collect (MessageRetried queue) r =
    Counter_Inc (Metrics_Counter r metricRetried
      ''Deliveries that failed and were scheduled for another attempt.'' [(''queue'', queue)])"
| "collect (MessageDeadLettered queue kind) r =
    Counter_Inc (Metrics_Counter r metricDeadLettered
      ''Messages moved to the dead letter store.'' [(''queue'', queue), (''kind'', kind)])"
| "collect (MessageRejected queue) r =
    Counter_Inc (Metrics_Counter r metricRejected
      ''Publications rejected before entering a queue.'' [(''queue'', queue)])"
| "collect (QueueDepth queue ready inFlight scheduled) r =
    (let r = Gauge_Set ready (Metrics_Gauge r metricQueueDepth ''Messages ready for delivery.'' [(''queue'', queue)]);
         r = Gauge_Set inFlight (Metrics_Gauge r metricInFlight
               ''Messages currently leased by a consumer.'' [(''queue'', queue)])
     in Gauge_Set scheduled (Metrics_Gauge r metricScheduled
          ''Messages waiting for a retry backoff to elapse.'' [(''queue'', queue)]))"

section \<open>Keys\<close>

text \<open>A quoted string ends at its first quote that is not escaped, so nothing that follows it can be taken for a part
  of it.\<close>

abbreviation (input) escaped :: "string \<Rightarrow> string" where
  "escaped s \<equiv> concat (map (\<lambda>c. if c = CHR 0x22 \<or> c = CHR 0x5C then [CHR 0x5C, c] else [c]) s)"

lemma escaped_prefix_free: "escaped a @ CHR 0x22 # x = escaped b @ CHR 0x22 # y \<Longrightarrow> a = b \<and> x = y"
proof (induction a arbitrary: b)
  case Nil
  then show ?case by (cases b) (auto split: if_splits)
next
  case (Cons c a)
  then show ?case by (cases b) (auto split: if_splits)
qed

lemma quoted_prefix_free: "quoted a @ x = quoted b @ y \<longleftrightarrow> a = b \<and> x = y"
  using escaped_prefix_free [of a x b y] by (auto simp: quoted_def)

lemma until_brace:
  assumes "CHR ''{'' \<notin> set a" "CHR ''{'' \<notin> set b"
  shows "a @ ''{'' @ x = b @ ''{'' @ y \<longleftrightarrow> a = b \<and> x = y"
proof -
  have "takeWhile (\<lambda>c. c \<noteq> CHR ''{'') (a @ ''{'' @ x) = a" "takeWhile (\<lambda>c. c \<noteq> CHR ''{'') (b @ ''{'' @ y) = b"
    using assms by (auto simp: takeWhile_append2 takeWhile_tail)
  then show ?thesis by (metis same_append_eq)
qed

lemma render_queue: "renderLabels [(''queue'', q)] = ''queue='' @ quoted q"
  by (simp add: renderLabels_def strings_Join_def mget_or_def)

lemma render_kind: "renderLabels [(''queue'', q), (''kind'', k)] = ''kind='' @ quoted k @ '',queue='' @ quoted q"
  by (simp add: renderLabels_def strings_Join_def mget_or_def)

text \<open>The names of the metrics contain no brace and are different.\<close>

lemmas metric_names = metricPublished_def metricDelivered_def metricAcknowledged_def metricRetried_def
  metricDeadLettered_def metricRejected_def metricPublishTime_def metricHandleTime_def metricQueueDepth_def
  metricInFlight_def metricScheduled_def

definition counter_names :: "string list" where
  "counter_names = [metricPublished, metricDelivered, metricAcknowledged, metricRetried, metricDeadLettered, metricRejected]"

definition gauge_names :: "string list" where
  "gauge_names = [metricQueueDepth, metricInFlight, metricScheduled]"

definition histogram_names :: "string list" where
  "histogram_names = [metricPublishTime, metricHandleTime]"

lemma names_distinct: "distinct (counter_names @ gauge_names @ histogram_names)"
  by (simp add: counter_names_def gauge_names_def histogram_names_def metric_names)

lemma names_brace: "n \<in> set (counter_names @ gauge_names @ histogram_names) \<Longrightarrow> CHR ''{'' \<notin> set n"
  by (auto simp: counter_names_def gauge_names_def histogram_names_def metric_names)

lemma seriesKey_name:
  assumes "n \<in> set (counter_names @ gauge_names @ histogram_names)" "m \<in> set (counter_names @ gauge_names @ histogram_names)"
  shows "seriesKey n ls = seriesKey m ls' \<longleftrightarrow> n = m \<and> renderLabels ls = renderLabels ls'"
  using until_brace [OF names_brace [OF assms(1)] names_brace [OF assms(2)], of "renderLabels ls @ ''}''" "renderLabels ls' @ ''}''"]
  by (simp add: seriesKey_def)

lemma render_inj:
  "renderLabels [(''queue'', q)] = renderLabels [(''queue'', q')] \<longleftrightarrow> q = q'"
  "renderLabels [(''queue'', q), (''kind'', k)] = renderLabels [(''queue'', q'), (''kind'', k')] \<longleftrightarrow> q = q' \<and> k = k'"
  "renderLabels [(''queue'', q)] \<noteq> renderLabels [(''queue'', q'), (''kind'', k')]"
proof -
  show "renderLabels [(''queue'', q)] = renderLabels [(''queue'', q')] \<longleftrightarrow> q = q'"
    using quoted_prefix_free [of q "[]" q' "[]"] by (simp add: render_queue)
  show "renderLabels [(''queue'', q), (''kind'', k)] = renderLabels [(''queue'', q'), (''kind'', k')] \<longleftrightarrow> q = q' \<and> k = k'"
    using quoted_prefix_free [of q "[]" q' "[]"] by (auto simp: render_kind quoted_prefix_free)
  show "renderLabels [(''queue'', q)] \<noteq> renderLabels [(''queue'', q'), (''kind'', k')]"
    by (simp add: render_queue render_kind)
qed

section \<open>What the methods change\<close>

lemma mput_mput: "mput (mput m k v) k v' = mput m k v'"
  by (induction m) auto

lemma Counter_Inc_change:
  "me_counters (Counter_Inc (Metrics_Counter r name help labels)) =
    mput (me_counters r) (seriesKey name labels)
      (case mget (me_counters r) (seriesKey name labels) of
         None \<Rightarrow> \<lparr> mc_name = name, mc_labels = labels, mc_value = 1 \<rparr>
       | Some c \<Rightarrow> c\<lparr>mc_value := mc_value c + 1\<rparr>)"
  "me_gauges (Counter_Inc (Metrics_Counter r name help labels)) = me_gauges r"
  "me_histograms (Counter_Inc (Metrics_Counter r name help labels)) = me_histograms r"
  "me_help (Counter_Inc (Metrics_Counter r name help labels)) = mput (me_help r) name help"
  by (simp_all add: Counter_Inc_def Counter_Add_def Metrics_Counter_def Let_def mget_mput mput_mput split: option.split)

lemma Gauge_Set_change:
  "me_gauges (Gauge_Set v (Metrics_Gauge r name help labels)) =
    mput (me_gauges r) (seriesKey name labels)
      (case mget (me_gauges r) (seriesKey name labels) of
         None \<Rightarrow> \<lparr> ga_name = name, ga_labels = labels, ga_value = word_of_int v \<rparr>
       | Some g \<Rightarrow> g\<lparr>ga_value := word_of_int v\<rparr>)"
  "me_counters (Gauge_Set v (Metrics_Gauge r name help labels)) = me_counters r"
  "me_histograms (Gauge_Set v (Metrics_Gauge r name help labels)) = me_histograms r"
  "me_help (Gauge_Set v (Metrics_Gauge r name help labels)) = mput (me_help r) name help"
  by (simp_all add: Gauge_Set_def Metrics_Gauge_def Let_def mget_mput mput_mput split: option.split)

definition fresh_histogram :: "string \<Rightarrow> Labels \<Rightarrow> f64 list \<Rightarrow> Histogram" where
  "fresh_histogram name labels bounds = \<lparr> hi_name = name, hi_labels = labels, hi_bounds = bounds,
     hi_buckets = replicate (length bounds) 0, hi_count = 0, hi_sum = Fin 0 \<rparr>"

lemma ObserveDuration_change:
  "me_histograms (ObserveDuration d (Metrics_Histogram r name help DefaultBuckets labels)) =
    mput (me_histograms r) (seriesKey name labels)
      (Observe (Seconds d) (case mget (me_histograms r) (seriesKey name labels) of
         None \<Rightarrow> fresh_histogram name labels DefaultBuckets | Some h \<Rightarrow> h))"
  "me_counters (ObserveDuration d (Metrics_Histogram r name help DefaultBuckets labels)) = me_counters r"
  "me_gauges (ObserveDuration d (Metrics_Histogram r name help DefaultBuckets labels)) = me_gauges r"
  "me_help (ObserveDuration d (Metrics_Histogram r name help DefaultBuckets labels)) = mput (me_help r) name help"
  by (simp_all add: ObserveDuration_def Metrics_Histogram_def fresh_histogram_def Let_def mget_mput mput_mput split: option.split)

lemmas metric_changes = Counter_Inc_change Gauge_Set_change ObserveDuration_change mget_mput seriesKey_name render_inj

section \<open>Counting\<close>

definition counter_value :: "Metrics \<Rightarrow> string \<Rightarrow> Labels \<Rightarrow> 64 word" where
  "counter_value r name labels =
    (case mget (me_counters r) (seriesKey name labels) of None \<Rightarrow> 0 | Some c \<Rightarrow> mc_value c)"

text \<open>The counter that an event increments.\<close>

fun event_counter :: "metric \<Rightarrow> (string \<times> Labels) option" where
  "event_counter (MessagePublished q l) = Some (metricPublished, [(''queue'', q)])"
| "event_counter (MessageDelivered q) = Some (metricDelivered, [(''queue'', q)])"
| "event_counter (MessageAcknowledged q l) = Some (metricAcknowledged, [(''queue'', q)])"
| "event_counter (MessageRetried q) = Some (metricRetried, [(''queue'', q)])"
| "event_counter (MessageDeadLettered q k) = Some (metricDeadLettered, [(''queue'', q), (''kind'', k)])"
| "event_counter (MessageRejected q) = Some (metricRejected, [(''queue'', q)])"
| "event_counter (QueueDepth q a b c) = None"

lemma collect_counters:
  "mget (me_counters (collect e r)) k =
    (case event_counter e of
       None \<Rightarrow> mget (me_counters r) k
     | Some (name, labels) \<Rightarrow>
         if k = seriesKey name labels
         then Some (case mget (me_counters r) k of
             None \<Rightarrow> \<lparr> mc_name = name, mc_labels = labels, mc_value = 1 \<rparr>
           | Some c \<Rightarrow> c\<lparr>mc_value := mc_value c + 1\<rparr>)
         else mget (me_counters r) k)"
  by (cases e) (simp_all add: Let_def Counter_Inc_change Gauge_Set_change ObserveDuration_change mget_mput)

lemma event_counter_names: "event_counter e = Some (name, labels) \<Longrightarrow> name \<in> set counter_names"
  by (cases e) (auto simp: counter_names_def)

lemma event_counter_key:
  assumes "event_counter e = Some (n, ls)" "event_counter e' = Some (n', ls')"
  shows "seriesKey n ls = seriesKey n' ls' \<longleftrightarrow> n = n' \<and> ls = ls'"
proof -
  have "n \<in> set counter_names" "n' \<in> set counter_names" using assms event_counter_names by blast+
  then have "seriesKey n ls = seriesKey n' ls' \<longleftrightarrow> n = n' \<and> renderLabels ls = renderLabels ls'"
    by (simp add: seriesKey_name)
  moreover have "renderLabels ls = renderLabels ls' \<longleftrightarrow> ls = ls'"
    using assms by (cases e; cases e') (auto simp: render_inj render_inj(3) [symmetric])
  ultimately show ?thesis by simp
qed

lemma counter_value_collect:
  assumes "event_counter e' = Some (name, labels)"
  shows "counter_value (collect e r) name labels =
    counter_value r name labels + (if event_counter e = Some (name, labels) then 1 else 0)"
  using event_counter_key [OF assms] by (auto simp: counter_value_def collect_counters split: option.split)

lemma counter_value_fold:
  assumes "event_counter e' = Some (name, labels)"
  shows "counter_value (fold collect es r) name labels =
    counter_value r name labels + of_nat (length (filter (\<lambda>e. event_counter e = Some (name, labels)) es))"
  by (induction es arbitrary: r) (simp_all add: counter_value_collect [OF assms] algebra_simps)

lemma Collector_counts:
  "counter_value (fold collect es NewMetrics) metricPublished [(''queue'', q)] =
    of_nat (length (filter (\<lambda>e. \<exists>l. e = MessagePublished q l) es))"
  "counter_value (fold collect es NewMetrics) metricAcknowledged [(''queue'', q)] =
    of_nat (length (filter (\<lambda>e. \<exists>l. e = MessageAcknowledged q l) es))"
  "counter_value (fold collect es NewMetrics) metricDelivered [(''queue'', q)] =
    of_nat (length (filter (\<lambda>e. e = MessageDelivered q) es))"
  "counter_value (fold collect es NewMetrics) metricRetried [(''queue'', q)] =
    of_nat (length (filter (\<lambda>e. e = MessageRetried q) es))"
  "counter_value (fold collect es NewMetrics) metricDeadLettered [(''queue'', q), (''kind'', k)] =
    of_nat (length (filter (\<lambda>e. e = MessageDeadLettered q k) es))"
  "counter_value (fold collect es NewMetrics) metricRejected [(''queue'', q)] =
    of_nat (length (filter (\<lambda>e. e = MessageRejected q) es))"
proof -
  have new: "counter_value NewMetrics n ls = 0" for n ls by (simp add: counter_value_def NewMetrics_def)
  have ev: "event_counter e = Some (metricPublished, [(''queue'', q)]) \<longleftrightarrow> (\<exists>l. e = MessagePublished q l)"
    "event_counter e = Some (metricAcknowledged, [(''queue'', q)]) \<longleftrightarrow> (\<exists>l. e = MessageAcknowledged q l)"
    "event_counter e = Some (metricDelivered, [(''queue'', q)]) \<longleftrightarrow> e = MessageDelivered q"
    "event_counter e = Some (metricRetried, [(''queue'', q)]) \<longleftrightarrow> e = MessageRetried q"
    "event_counter e = Some (metricDeadLettered, [(''queue'', q), (''kind'', k)]) \<longleftrightarrow> e = MessageDeadLettered q k"
    "event_counter e = Some (metricRejected, [(''queue'', q)]) \<longleftrightarrow> e = MessageRejected q" for e
    by (cases e; simp add: metric_names)+
  note total = counter_value_fold [of _ _ _ es NewMetrics, unfolded new add_0]
  show "counter_value (fold collect es NewMetrics) metricPublished [(''queue'', q)] =
      of_nat (length (filter (\<lambda>e. \<exists>l. e = MessagePublished q l) es))"
    using total [of "MessagePublished q 0"] by (simp add: ev)
  show "counter_value (fold collect es NewMetrics) metricAcknowledged [(''queue'', q)] =
      of_nat (length (filter (\<lambda>e. \<exists>l. e = MessageAcknowledged q l) es))"
    using total [of "MessageAcknowledged q 0"] by (simp add: ev)
  show "counter_value (fold collect es NewMetrics) metricDelivered [(''queue'', q)] =
      of_nat (length (filter (\<lambda>e. e = MessageDelivered q) es))"
    using total [of "MessageDelivered q"] by (simp add: ev)
  show "counter_value (fold collect es NewMetrics) metricRetried [(''queue'', q)] =
      of_nat (length (filter (\<lambda>e. e = MessageRetried q) es))"
    using total [of "MessageRetried q"] by (simp add: ev)
  show "counter_value (fold collect es NewMetrics) metricDeadLettered [(''queue'', q), (''kind'', k)] =
      of_nat (length (filter (\<lambda>e. e = MessageDeadLettered q k) es))"
    using total [of "MessageDeadLettered q k"] by (simp add: ev)
  show "counter_value (fold collect es NewMetrics) metricRejected [(''queue'', q)] =
      of_nat (length (filter (\<lambda>e. e = MessageRejected q) es))"
    using total [of "MessageRejected q"] by (simp add: ev)
qed

section \<open>Histograms\<close>

definition at_most :: "f64 \<Rightarrow> f64 list \<Rightarrow> nat" where
  "at_most bound vs = length (filter (\<lambda>v. f_le v bound) vs)"

lemma Observe_exact:
  "fold Observe vs (fresh_histogram name labels bounds) =
    \<lparr> hi_name = name, hi_labels = labels, hi_bounds = bounds, hi_buckets = map (\<lambda>b. of_nat (at_most b vs)) bounds,
      hi_count = of_nat (length vs), hi_sum = fold (\<lambda>v s. f_add s v) vs (Fin 0) \<rparr>"
proof (induction vs rule: rev_induct)
  case Nil
  then show ?case by (simp add: fresh_histogram_def at_most_def map_replicate_const)
next
  case (snoc v vs)
  have "map2 (\<lambda>bound n. if f_le v bound then n + 1 else n) bs (map (\<lambda>b. of_nat (at_most b vs)) bs) =
      map (\<lambda>b. of_nat (at_most b (vs @ [v])) :: 64 word) bs" for bs
    by (induction bs) (simp_all add: at_most_def)
  then show ?case
    by (simp only: fold_append fold_simps comp_apply id_apply snoc) (simp add: Observe_def)
qed

definition histogram_at :: "Metrics \<Rightarrow> string \<Rightarrow> Labels \<Rightarrow> Histogram" where
  "histogram_at r name labels =
    (case mget (me_histograms r) (seriesKey name labels) of
       None \<Rightarrow> fresh_histogram name labels DefaultBuckets | Some h \<Rightarrow> h)"

text \<open>The times that the events report: of publications, and of deliveries from a queue.\<close>

fun publish_time :: "metric \<Rightarrow> f64 list" where
  "publish_time (MessagePublished q l) = [Seconds l]"
| "publish_time e = []"

fun handle_time :: "string \<Rightarrow> metric \<Rightarrow> f64 list" where
  "handle_time q (MessageAcknowledged q' l) = (if q' = q then [Seconds l] else [])"
| "handle_time q e = []"

lemma histogram_keys:
  "seriesKey metricPublishTime ls \<noteq> seriesKey metricHandleTime ls'"
  "seriesKey metricHandleTime [(''queue'', q)] = seriesKey metricHandleTime [(''queue'', q')] \<longleftrightarrow> q = q'"
  by (simp add: seriesKey_def metric_names) (simp add: seriesKey_name histogram_names_def render_inj)

fun event_time :: "metric \<Rightarrow> (string \<times> Labels \<times> f64) option" where
  "event_time (MessagePublished q l) = Some (metricPublishTime, [], Seconds l)"
| "event_time (MessageAcknowledged q l) = Some (metricHandleTime, [(''queue'', q)], Seconds l)"
| "event_time e = None"

lemma collect_histograms:
  "histogram_at (collect e r) name labels =
    (case event_time e of
       None \<Rightarrow> histogram_at r name labels
     | Some (n, ls, v) \<Rightarrow>
         if seriesKey n ls = seriesKey name labels
         then Observe v (histogram_at r n ls)
         else histogram_at r name labels)"
  by (cases e) (simp_all add: Let_def Counter_Inc_change Gauge_Set_change ObserveDuration_change mget_mput histogram_at_def)

lemma histogram_collect:
  "histogram_at (collect e r) metricPublishTime [] = fold Observe (publish_time e) (histogram_at r metricPublishTime [])"
  "histogram_at (collect e r) metricHandleTime [(''queue'', q)] =
    fold Observe (handle_time q e) (histogram_at r metricHandleTime [(''queue'', q)])"
proof -
  note keys = histogram_keys histogram_keys(1) [symmetric]
  show "histogram_at (collect e r) metricPublishTime [] = fold Observe (publish_time e) (histogram_at r metricPublishTime [])"
    by (cases e) (simp_all add: collect_histograms keys del: collect.simps)
  show "histogram_at (collect e r) metricHandleTime [(''queue'', q)] =
      fold Observe (handle_time q e) (histogram_at r metricHandleTime [(''queue'', q)])"
    by (cases e) (simp_all add: collect_histograms keys del: collect.simps)
qed

lemma histogram_fold:
  "histogram_at (fold collect es r) metricPublishTime [] =
    fold Observe (concat (map publish_time es)) (histogram_at r metricPublishTime [])"
  "histogram_at (fold collect es r) metricHandleTime [(''queue'', q)] =
    fold Observe (concat (map (handle_time q) es)) (histogram_at r metricHandleTime [(''queue'', q)])"
  by (induction es arbitrary: r) (simp_all add: histogram_collect)

lemma at_most_mono: "f_le a b \<Longrightarrow> at_most a vs \<le> at_most b vs"
proof -
  assume "f_le a b"
  then have "f_le v a \<Longrightarrow> f_le v b" for v by (cases v; cases a; cases b) (auto simp: f_le_def)
  then show ?thesis unfolding at_most_def by (induction vs) auto
qed

text \<open>C12: the metrics report what happened, no more and no less. After any sequence of events that the engine reports,
  each counter holds the number of its events for its queue (and kind, for dead letters), modulo the width of the
  counter: events of other queues, of other kinds or of other types never leak into it, whatever
  characters the names contain. The histogram of publications and the histogram of a queue's deliveries hold exactly
  the times reported for them: the count, for every bound the number of times at most that bound, and the sum.\<close>

theorem Collector_exact:
  "counter_value (fold collect es NewMetrics) metricPublished [(''queue'', q)] =
      of_nat (length (filter (\<lambda>e. \<exists>l. e = MessagePublished q l) es)) \<and>
   counter_value (fold collect es NewMetrics) metricAcknowledged [(''queue'', q)] =
      of_nat (length (filter (\<lambda>e. \<exists>l. e = MessageAcknowledged q l) es)) \<and>
   counter_value (fold collect es NewMetrics) metricDelivered [(''queue'', q)] =
      of_nat (length (filter (\<lambda>e. e = MessageDelivered q) es)) \<and>
   counter_value (fold collect es NewMetrics) metricRetried [(''queue'', q)] =
      of_nat (length (filter (\<lambda>e. e = MessageRetried q) es)) \<and>
   counter_value (fold collect es NewMetrics) metricDeadLettered [(''queue'', q), (''kind'', k)] =
      of_nat (length (filter (\<lambda>e. e = MessageDeadLettered q k) es)) \<and>
   counter_value (fold collect es NewMetrics) metricRejected [(''queue'', q)] =
      of_nat (length (filter (\<lambda>e. e = MessageRejected q) es)) \<and>
   histogram_at (fold collect es NewMetrics) metricPublishTime [] =
     (let vs = concat (map publish_time es) in
      \<lparr> hi_name = metricPublishTime, hi_labels = [], hi_bounds = DefaultBuckets,
        hi_buckets = map (\<lambda>b. of_nat (at_most b vs)) DefaultBuckets, hi_count = of_nat (length vs),
        hi_sum = fold (\<lambda>v s. f_add s v) vs (Fin 0) \<rparr>) \<and>
   histogram_at (fold collect es NewMetrics) metricHandleTime [(''queue'', q)] =
     (let vs = concat (map (handle_time q) es) in
      \<lparr> hi_name = metricHandleTime, hi_labels = [(''queue'', q)], hi_bounds = DefaultBuckets,
        hi_buckets = map (\<lambda>b. of_nat (at_most b vs)) DefaultBuckets, hi_count = of_nat (length vs),
        hi_sum = fold (\<lambda>v s. f_add s v) vs (Fin 0) \<rparr>)"
proof -
  have "histogram_at NewMetrics name labels = fresh_histogram name labels DefaultBuckets" for name labels
    by (simp add: histogram_at_def NewMetrics_def)
  then show ?thesis by (simp only: Collector_counts histogram_fold Observe_exact Let_def simp_thms)
qed

section \<open>Quantiles\<close>

lemma of_nat_f64:
  assumes "n < 2 ^ 53"
  shows "of_int64 (int n) = Fin (of_nat n)"
proof -
  have "int n < 2 ^ 53" using assms by (metis of_nat_less_iff of_nat_numeral of_nat_power)
  then show ?thesis using of_int64_exact [of "int n"] by simp
qed

lemma unat_small: "n < 2 ^ 53 \<Longrightarrow> uint (of_nat n :: 64 word) = int n"
  by (simp add: unsigned_of_nat take_bit_nat_eq_self less_trans [of n "2 ^ 53" "2 ^ 64"])

text \<open>\<open>Quantile\<close> is the first bound that enough of the observed times do not exceed.\<close>

lemma Quantile_exact:
  assumes "vs \<noteq> []" "length vs < 2 ^ 53"
  shows "Quantile q (fold Observe vs (fresh_histogram name labels bounds)) =
    (case find (\<lambda>b. f_le (f_mul q (Fin (of_nat (length vs)))) (Fin (of_nat (at_most b vs)))) bounds of
       Some b \<Rightarrow> b | None \<Rightarrow> PInf)"
proof -
  have at: "at_most b vs < 2 ^ 53" for b
    unfolding at_most_def using assms(2) length_filter_le by (rule le_less_trans [rotated])
  have "(of_nat (length vs) :: 64 word) \<noteq> 0"
    using unat_small [OF assms(2)] assms(1) by (metis length_0_conv of_nat_eq_0_iff unsigned_0)
  moreover have "find (\<lambda>(b, n). f_le t (of_int64 (uint n))) (zip bs (map (\<lambda>b. of_nat (at_most b vs) :: 64 word) bs)) =
      map_option (\<lambda>b. (b, of_nat (at_most b vs))) (find (\<lambda>b. f_le t (Fin (of_nat (at_most b vs)))) bs)" for t bs
    by (induction bs) (simp_all add: unat_small [OF at] of_nat_f64 [OF at])
  ultimately show ?thesis
    by (simp add: Quantile_def Observe_exact Let_def unat_small [OF assms(2)] of_nat_f64 [OF assms(2)] split: option.split)
qed

section \<open>Nothing is left out of the text\<close>

definition metrics_ok :: "Metrics \<Rightarrow> bool" where
  "metrics_ok r \<longleftrightarrow>
    (\<forall>k c. mget (me_counters r) k = Some c \<longrightarrow>
      k = seriesKey (mc_name c) (mc_labels c) \<and> mc_name c \<in> set counter_names \<and> mget (me_help r) (mc_name c) \<noteq> None) \<and>
    (\<forall>k g. mget (me_gauges r) k = Some g \<longrightarrow>
      k = seriesKey (ga_name g) (ga_labels g) \<and> ga_name g \<in> set gauge_names \<and> mget (me_help r) (ga_name g) \<noteq> None) \<and>
    (\<forall>k h. mget (me_histograms r) k = Some h \<longrightarrow>
      k = seriesKey (hi_name h) (hi_labels h) \<and> hi_name h \<in> set histogram_names \<and> mget (me_help r) (hi_name h) \<noteq> None)"

lemma metrics_ok_methods:
  assumes "metrics_ok r"
  shows "name \<in> set counter_names \<Longrightarrow> metrics_ok (Counter_Inc (Metrics_Counter r name help labels))"
    "name \<in> set gauge_names \<Longrightarrow> metrics_ok (Gauge_Set v (Metrics_Gauge r name help labels))"
    "name \<in> set histogram_names \<Longrightarrow> metrics_ok (ObserveDuration d (Metrics_Histogram r name help DefaultBuckets labels))"
  using assms
  by (auto simp: metrics_ok_def Counter_Inc_change Gauge_Set_change ObserveDuration_change mget_mput Observe_def
      fresh_histogram_def split: option.splits if_splits)

lemma metrics_ok_collect: "metrics_ok r \<Longrightarrow> metrics_ok (collect e r)"
  by (cases e) (simp_all add: Let_def metrics_ok_methods counter_names_def gauge_names_def histogram_names_def)

lemma metrics_ok_fold: "metrics_ok (fold collect es NewMetrics)"
proof -
  have "metrics_ok r \<Longrightarrow> metrics_ok (fold collect es r)" for r
    by (induction es arbitrary: r) (simp_all add: metrics_ok_collect)
  moreover have "metrics_ok NewMetrics" by (simp add: metrics_ok_def NewMetrics_def)
  ultimately show ?thesis by blast
qed

lemma key_prefix:
  assumes "n \<in> set (counter_names @ gauge_names @ histogram_names)" "m \<in> set (counter_names @ gauge_names @ histogram_names)"
  shows "prefix (n @ ''{'') (seriesKey m ls) \<longleftrightarrow> n = m"
proof -
  have "prefix (n @ ''{'') (seriesKey m ls) \<longleftrightarrow> (\<exists>x. m @ ''{'' @ renderLabels ls @ ''}'' = n @ ''{'' @ x)"
    by (simp add: prefix_def seriesKey_def)
  also have "\<dots> \<longleftrightarrow> n = m"
    using until_brace [OF names_brace [OF assms(2)] names_brace [OF assms(1)]] by auto
  finally show ?thesis .
qed

lemma sublist_concat: "y \<in> set xs \<Longrightarrow> sublist x (f y) \<Longrightarrow> sublist x (concat (map f xs))"
proof -
  assume "y \<in> set xs" "sublist x (f y)"
  then obtain us vs where "xs = us @ y # vs" by (auto simp: in_set_conv_decomp)
  then have "sublist (f y) (concat (map f xs))" by (simp add: sublist_appendI)
  with \<open>sublist x (f y)\<close> show ?thesis by (rule sublist_order.order.trans)
qed

lemma write_series_has:
  assumes "mget series k = Some x" "prefix (name @ ''{'') k"
  shows "hasSeries series name" "sublist (line x) (write_series series name line)"
proof -
  have "k \<in> set (mkeys series)" using assms(1) mget_in_keys [of series k] by simp
  then show "hasSeries series name" using assms(2) unfolding hasSeries_def list_ex_iff by blast
  have "k \<in> set (sortedKeys series name)" using \<open>k \<in> set (mkeys series)\<close> assms(2) by (simp add: sortedKeys_def)
  then show "sublist (line x) (write_series series name line)"
    unfolding write_series_def by (rule sublist_concat) (simp add: assms(1))
qed

lemma no_series:
  assumes "\<And>k x. mget series k = Some x \<Longrightarrow> \<exists>m ls. k = seriesKey m ls \<and> m \<in> set (counter_names @ gauge_names @ histogram_names) \<and> m \<noteq> n"
    and "n \<in> set (counter_names @ gauge_names @ histogram_names)"
  shows "\<not> hasSeries series n"
proof
  assume "hasSeries series n"
  then obtain k where "k \<in> set (mkeys series)" "prefix (n @ ''{'') k" by (auto simp: hasSeries_def list_ex_iff)
  then show False using assms(1) [of k] mget_in_keys [of series k] key_prefix [OF assms(2)] by fastforce
qed

lemma write_name_part:
  assumes "mget (me_help r) name \<noteq> None" "sublist x (write_name ff r name)"
  shows "sublist x (Metrics_Write ff r)"
proof -
  have "name \<in> set (Metrics_names r)" using assms(1) mget_in_keys [of "me_help r" name] by (simp add: Metrics_names_def)
  then show ?thesis unfolding Metrics_Write_def by (rule sublist_concat) (rule assms(2))
qed

lemma sublist_middle: "sublist x y \<Longrightarrow> sublist x (u @ y @ v)"
  by (meson sublist_appendI sublist_order.order.trans)

lemma write_counter:
  assumes "metrics_ok r" "mget (me_counters r) key = Some c"
  shows "sublist (renderSeries (mc_name c) (mc_labels c) @ '' '' @ int_text (Counter_Value c) @ newline) (Metrics_Write ff r)"
proof -
  have c: "key = seriesKey (mc_name c) (mc_labels c)" "mc_name c \<in> set counter_names" "mget (me_help r) (mc_name c) \<noteq> None"
    using assms by (auto simp: metrics_ok_def)
  then have p: "prefix (mc_name c @ ''{'') key" by (simp add: key_prefix)
  show ?thesis
    by (rule write_name_part [OF c(3)], unfold write_name_def if_P [OF write_series_has(1) [OF assms(2) p]] append_assoc,
        rule sublist_middle, rule write_series_has(2) [OF assms(2) p])
qed

lemma write_gauge:
  assumes "metrics_ok r" "mget (me_gauges r) key = Some g"
  shows "sublist (renderSeries (ga_name g) (ga_labels g) @ '' '' @ int_text (Gauge_Value g) @ newline) (Metrics_Write ff r)"
proof -
  have g: "key = seriesKey (ga_name g) (ga_labels g)" "ga_name g \<in> set gauge_names" "mget (me_help r) (ga_name g) \<noteq> None"
    using assms by (auto simp: metrics_ok_def)
  then have p: "prefix (ga_name g @ ''{'') key" by (simp add: key_prefix)
  have n: "\<not> hasSeries (me_counters r) (ga_name g)"
    by (rule no_series) (use assms(1) g(2) names_distinct in \<open>fastforce simp: metrics_ok_def\<close>)+
  show ?thesis
    by (rule write_name_part [OF g(3)], unfold write_name_def if_not_P [OF n]
          if_P [OF write_series_has(1) [OF assms(2) p]] append_assoc,
        rule sublist_middle, rule write_series_has(2) [OF assms(2) p])
qed

lemma write_histogram:
  assumes "metrics_ok r" "mget (me_histograms r) key = Some h"
  shows "sublist (writeHistogram ff h) (Metrics_Write ff r)"
proof -
  have h: "key = seriesKey (hi_name h) (hi_labels h)" "hi_name h \<in> set histogram_names" "mget (me_help r) (hi_name h) \<noteq> None"
    using assms by (auto simp: metrics_ok_def)
  then have p: "prefix (hi_name h @ ''{'') key" by (simp add: key_prefix)
  have n: "\<not> hasSeries (me_counters r) (hi_name h)" "\<not> hasSeries (me_gauges r) (hi_name h)"
    by (rule no_series; use assms(1) h(2) names_distinct in \<open>fastforce simp: metrics_ok_def\<close>)+
  show ?thesis
    by (rule write_name_part [OF h(3)], unfold write_name_def if_not_P [OF n(1)] if_not_P [OF n(2)]
          if_P [OF write_series_has(1) [OF assms(2) p]] append_assoc,
        rule sublist_middle, rule write_series_has(2) [OF assms(2) p])
qed

text \<open>C31: nothing that was reported is missing from the metrics page. After any sequence of events, the text of
  \<open>/metrics\<close> contains, for every registered counter and gauge, the line with its name, its labels and its current
  value, and for every registered histogram all its bucket, sum and count lines: no series hides another.\<close>

theorem Metrics_Write_complete:
  "(\<forall>key c. mget (me_counters (fold collect es NewMetrics)) key = Some c \<longrightarrow>
      sublist (renderSeries (mc_name c) (mc_labels c) @ '' '' @ int_text (Counter_Value c) @ newline)
        (Metrics_Write ff (fold collect es NewMetrics))) \<and>
   (\<forall>key g. mget (me_gauges (fold collect es NewMetrics)) key = Some g \<longrightarrow>
      sublist (renderSeries (ga_name g) (ga_labels g) @ '' '' @ int_text (Gauge_Value g) @ newline)
        (Metrics_Write ff (fold collect es NewMetrics))) \<and>
   (\<forall>key h. mget (me_histograms (fold collect es NewMetrics)) key = Some h \<longrightarrow>
      sublist (writeHistogram ff h) (Metrics_Write ff (fold collect es NewMetrics)))"
  using write_counter [OF metrics_ok_fold] write_gauge [OF metrics_ok_fold] write_histogram [OF metrics_ok_fold] by blast

theorem Metrics_Write_complete_witness:
  "sublist (''rabbitmq_lite_messages_delivered_total{queue='' @ quoted ''billing'' @ ''} 2'' @ newline)
     (Metrics_Write (\<lambda>_. ''0'') (fold collect [MessageDelivered ''billing'', MessageRetried ''x'', MessageDelivered ''billing''] NewMetrics))"
proof -
  let ?r = "fold collect [MessageDelivered ''billing'', MessageRetried ''x'', MessageDelivered ''billing''] NewMetrics"
  let ?c = "\<lparr> mc_name = metricDelivered, mc_labels = [(''queue'', ''billing'')], mc_value = 2 \<rparr>"
  have "mget (me_counters ?r) (seriesKey metricDelivered [(''queue'', ''billing'')]) = Some ?c" by code_simp
  with Metrics_Write_complete [of "[MessageDelivered ''billing'', MessageRetried ''x'', MessageDelivered ''billing'']" "\<lambda>_. ''0''"]
  have "sublist (renderSeries (mc_name ?c) (mc_labels ?c) @ '' '' @ int_text (Counter_Value ?c) @ newline) (Metrics_Write (\<lambda>_. ''0'') ?r)"
    by blast
  moreover have "renderSeries (mc_name ?c) (mc_labels ?c) @ '' '' @ int_text (Counter_Value ?c) @ newline =
      ''rabbitmq_lite_messages_delivered_total{queue='' @ quoted ''billing'' @ ''} 2'' @ newline" by code_simp
  ultimately show ?thesis by (simp only:)
qed

end
