(* ===== verification/Spec2Isabelle.thy ===== *)
theory Spec2Isabelle
  imports SqliteProps SqliteText SqliteMigrate SchemaRegistry Metrics
begin

text \<open>
  Verification of a lightweight message broker written in Go.

  \<^bold>\<open>The program.\<close> A publication names an exchange and a routing key. The topology (\<open>internal/broker\<close>) routes
  it to queues, the schema registry (\<open>internal/schema\<close>) may reject its payload, and the engine (\<open>internal/engine\<close>)
  stores one message per queue (\<open>internal/message\<close>) in a store (\<open>internal/storage\<close>), in memory or in SQLite. A
  dispatcher claims messages under a lease and hands them to the workers of a consumer (\<open>internal/worker\<close>), or a
  client pulls them. A delivery is acknowledged, retried after a backoff (\<open>internal/retry\<close>) or
  buried with a dead letter, which can be replayed. A maintenance loop reclaims expired leases. Metrics
  (\<open>internal/metrics\<close>) count all of this. An HTTP interface, configuration, logging, process start and an example
  workload surround it.

  \<^bold>\<open>How Go becomes HOL.\<close> A string is a list of bytes, an instant and a duration a number of nanoseconds, a map an
  association list (\<open>gomap\<close>, theory \<open>Prelude\<close>), an error a value of one datatype \<open>error\<close> (\<open>GoErrors\<close>) and a fallible
  result \<open>error + 'a\<close>. A method that changes its receiver returns the new state beside its result. What a call
  reads from outside (the clock, random bytes and numbers, what a handler returns, which branch a \<open>select\<close> takes,
  what the database driver answers) is an argument, so a theorem holds for every such reading. A method that
  holds a lock for its whole body is one step; where the code gives up the lock in between, the
  pieces are steps of their own. Every loop of the model is structural or has a termination proof, so there is no fuel.

  \<^bold>\<open>Which theory models what.\<close>
  \<^item> \<open>MsgState\<close> and \<open>MsgModel\<close>: \<open>message/state.go\<close>, \<open>message/message.go\<close>, \<open>message/id.go\<close>: the states and the transition
    table, messages, identifiers on 64-bit words. Lemmas: what a transition may do, that identifiers order by
    time and keep their timestamp, that no state but the two settled ones is a dead end.
  \<^item> \<open>Topic\<close>, \<open>Broker\<close>, \<open>Topology\<close>: \<open>broker/topic.go\<close>, \<open>exchange.go\<close>, \<open>queue.go\<close>, \<open>binding.go\<close>, \<open>routing.go\<close>,
    \<open>broker.go\<close>. Lemmas: the matcher of topic patterns is the declarative relation, routing returns exactly the
    queues whose bindings match, the registry's invariant, bind and unbind, the guard of queue deletion.
  \<^item> \<open>Storage\<close>: \<open>storage/store.go\<close> with its requests, as a record of operations that the engine takes as argument.
    \<open>StoreSpec\<close> is the abstract store, with \<open>exec\<close> and \<open>run\<close> for sequences of calls. \<open>StoreContract\<close> is the locale
    \<open>message_store\<close>: what the engine relies on, in terms of a view of the store.
  \<^item> \<open>MemoryStore\<close>: \<open>storage/memory\<close>. \<open>MemoryLaws\<close>, \<open>MemoryClaim\<close>, \<open>MemoryRefine\<close>, \<open>MemoryProps\<close>: its invariant
    and that every sequence of calls returns what the abstract store returns, compaction included; claims are
    first-in first-out and exclusive. \<open>MemoryContract\<close> interprets the contract on it.
  \<^item> \<open>Sqlite\<close>: the operations of \<open>storage/sqlite\<close>, one function per SQL statement on tables of rows, with an error
    path for every call of the driver. \<open>SqliteSafety\<close>: for every driver, the constraints of the schema hold and a
    call that fails has changed nothing. \<open>SqliteLaws\<close> and \<open>SqliteContract\<close>: the contract, interpreted for a driver
    that works. \<open>SqliteTime\<close> (with \<open>Decimal\<close>): the text of timestamps, Go's calendar included. \<open>SqliteText\<close>: the locale
    \<open>column_codec\<close> and the simulation between text columns and plain ones. \<open>SqliteMigrate\<close>: \<open>Open\<close> and the
    migrations, which complete after any history of failures. \<open>SqliteProps\<close>: the engine over SQLite.
  \<^item> \<open>Float64\<close> and \<open>Retry\<close>: \<open>retry/policy.go\<close> on IEEE doubles, \<open>math.Pow\<close> included. Lemmas: backoff and jitter stay
    within their bounds, the conversion out of range being an argument.
  \<^item> \<open>Worker\<close>: \<open>worker/pool.go\<close> as interleaved steps of submitters, workers and \<open>Stop\<close>. Lemmas: counters agree with
    what ran, \<open>Stop\<close> drains the queue and ends, and the race between \<open>Submit\<close> and \<open>Stop\<close>.
  \<^item> \<open>SchemaRegistry\<close>: \<open>schema/registry.go\<close>, \<open>schema/violation.go\<close>; the JSON decoder and the schema compiler are
    arguments. Lemmas: loaded schemas are the ones enforced, violations are the leaves of the error tree.
  \<^item> \<open>Metrics\<close>: \<open>metrics/registry.go\<close>, \<open>metrics/collector.go\<close>. Lemmas: counters and histograms are exact, the page
    contains every series, a quantile is the first bound that enough observations do not exceed.
  \<^item> \<open>Engine\<close> and \<open>Dispatch\<close>: \<open>engine/engine.go\<close>, \<open>validation.go\<close>, \<open>consumer.go\<close>, \<open>dispatcher.go\<close>, \<open>deadletter.go\<close>,
    \<open>pull.go\<close>, \<open>maintenance.go\<close>, over any store. \<open>EngineLaws\<close> and \<open>EngineSteps\<close>: under the contract every operation is
    a sequence of steps of a small specification (\<open>vstep\<close>). \<open>EngineReach\<close>: what such steps keep, for every run.
    \<open>EngineFacts\<close>: what single operations achieve. \<open>EngineWf\<close>: consumers and their objects. \<open>EngineProps\<close>: the
    properties over the in-memory store, from the interpretation of the contract.

  \<^bold>\<open>What is shown of the whole.\<close> From any start, over both stores and through restarts, a stored message stays
  readable and unchanged in content and moves along the transition table until its queue is purged or
  deleted, and every buried message has a dead letter. Publishing stores in all routed queues or in none. A failed delivery
  is retried or buried as the policy says, once. The dispatcher accounts for every message it claims, and
  reclaiming leaves no expired lease behind, up to its batch size.

  \<^bold>\<open>Numbers.\<close> Identifiers, counters and float conversions keep their width. Instants, durations, attempts and limits
  are unbounded integers: the code only adds small durations to the clock and counts deliveries. The theorem on
  timestamps needs the years 0 to 9999, where the text has four digits of year; outside them it is wrong. Texts that
  Go quotes with \<open>%q\<close> are modelled for printable ASCII, which covers the names that validation admits.

  \<^bold>\<open>Not modelled.\<close> The HTTP interface (\<open>internal/api\<close>), configuration (\<open>internal/config\<close>), application wiring
  (\<open>internal/app\<close>, \<open>cmd\<close>), the example workload (\<open>internal/erp\<close>) and the conformance suite for stores
  (\<open>internal/storage/storagetest\<close>): they decode requests, files and environments, call the operations above, or
  test them. Logging is output only. Contexts are modelled by their outcome, a call that ends early, not by
  their mechanism. The driver and the SQL engine are represented by what the statements denote.
\<close>

end
